(* ===== verification/Go_Prelude.thy ===== *)
theory Go_Prelude
  imports Main "HOL-Library.Word" "HOL-Library.Sublist" "HOL-Library.AList"
    "HOL-Library.Char_ord" "HOL-Library.List_Lexorder" "HOL-Library.Multiset"
begin

text \<open>
  What the components share: the Go values every part of the program is built from and the
  functions of Go's \<open>strings\<close> package that the source calls.

  \<^item> A Go string is a sequence of bytes, so it is a HOL \<open>string\<close> (a \<open>char\<close> is eight bits).
    \<open>strings.ToLower\<close>, \<open>strings.TrimSpace\<close> and \<open>strings.Fields\<close> are modelled on their ASCII
    paths: a byte from 128 up is left as it is and is not white space. The two agree with Go on
    every ASCII string, which all domain names handed over by the DNS library are (it escapes
    other bytes as decimal escapes). Configuration text outside ASCII is not followed: Go folds
    and splits it by Unicode. The round trip of the configuration asks for \<open>ascii\<close>; other
    theorems about text from files speak of ASCII text.
  \<^item> A Go \<open>error\<close> is a value of \<open>goerr\<close> and a result \<open>(T, error)\<close> is a pair whose second
    component is \<open>None\<close> for a nil error, so that a \<open>(nil, nil)\<close> result can be expressed.
  \<^item> A Go \<open>map\<close> is an association list with distinct keys. Its order is the iteration order the
    runtime happens to choose, which is unspecified in Go: a theorem about every association
    list is a theorem about every iteration order.
  \<^item> \<open>int\<close> and \<open>int64\<close> are HOL integers; \<open>i64\<close> writes the two's complement wrap-around out
    wherever the code does arithmetic whose result can leave the range.
\<close>

named_theorems go_simps \<open>rewrite rules for the operations of Go's string library\<close>
named_theorems wf_intros \<open>introduction rules for well-formedness invariants\<close>

section \<open>Integers\<close>

definition i64 :: "int \<Rightarrow> int" where
  "i64 x = (x + 2 ^ 63) mod 2 ^ 64 - 2 ^ 63"

definition in_i64 :: "int \<Rightarrow> bool" where
  "in_i64 x \<longleftrightarrow> - (2 ^ 63) \<le> x \<and> x < 2 ^ 63"

lemma i64_id: "in_i64 x \<Longrightarrow> i64 x = x"
  by (simp add: i64_def in_i64_def)

lemma in_i64_i64 [simp]: "in_i64 (i64 x)"
proof -
  have "0 \<le> (x + 2 ^ 63) mod 2 ^ 64" and "(x + 2 ^ 63) mod 2 ^ 64 < 2 ^ 64"
    by (simp_all only: pos_mod_sign pos_mod_bound zero_less_power zero_less_numeral)
  then show ?thesis
    by (simp add: i64_def in_i64_def)
qed

lemma in_i64_bounds: "- (2 ^ 63) \<le> x \<Longrightarrow> x < 2 ^ 63 \<Longrightarrow> in_i64 x"
  by (simp add: in_i64_def)

text \<open>Go's integer division truncates towards zero.\<close>

definition quot :: "int \<Rightarrow> int \<Rightarrow> int" where
  "quot a b = sgn a * sgn b * (\<bar>a\<bar> div \<bar>b\<bar>)"

lemma quot_nonneg: "0 \<le> a \<Longrightarrow> 0 \<le> b \<Longrightarrow> quot a b = a div b"
  by (cases "a = 0"; cases "b = 0") (simp_all add: quot_def)

section \<open>Errors\<close>

text \<open>
  \<open>Errorf\<close> is \<open>errors.New\<close> or a \<open>fmt.Errorf\<close> without \<open>%w\<close>: its arguments are formatted, not
  wrapped, so \<open>errors.Is\<close> does not see them. \<open>Wrapf\<close> is a \<open>fmt.Errorf\<close> with one \<open>%w\<close>. The
  strings are English renderings of the messages of the source.
\<close>

datatype goerr =
    ContextCanceled
  | ContextDeadlineExceeded
  | Errorf string "goerr list"
  | Wrapf string goerr
  | Joined "goerr list"

fun errors_Is :: "goerr \<Rightarrow> goerr \<Rightarrow> bool" where
  "errors_Is (Wrapf s e) target = (Wrapf s e = target \<or> errors_Is e target)"
| "errors_Is (Joined es) target = (Joined es = target \<or> list_ex (\<lambda>e. errors_Is e target) es)"
| "errors_Is e target = (e = target)"

type_synonym 'a result = "'a option \<times> goerr option"

section \<open>Maps\<close>

type_synonym 'v gomap = "(string \<times> 'v) list"

definition wf_gomap :: "('k \<times> 'v) list \<Rightarrow> bool" where
  "wf_gomap m \<longleftrightarrow> distinct (map fst m)"

lemma wf_gomap_Nil [wf_intros, simp]: "wf_gomap []"
  by (simp add: wf_gomap_def)

lemma wf_gomap_update [wf_intros]: "wf_gomap m \<Longrightarrow> wf_gomap (AList.update k v m)"
  by (simp add: wf_gomap_def distinct_update)

lemma wf_gomap_delete [wf_intros]: "wf_gomap m \<Longrightarrow> wf_gomap (AList.delete k m)"
  by (simp add: wf_gomap_def distinct_delete)

lemma map_of_update: "map_of (AList.update k v m) k' = (if k' = k then Some v else map_of m k')"
  by (simp add: update_conv')

lemma map_of_delete: "map_of (AList.delete k m) k' = (if k' = k then None else map_of m k')"
  by (simp add: delete_conv')

lemma list_all_update: "list_all P m \<Longrightarrow> P (k, v) \<Longrightarrow> list_all P (AList.update k v m)"
  by (induction m) auto

lemma list_all_fold:
  "(\<And>x m. x \<in> set xs \<Longrightarrow> list_all P m \<Longrightarrow> list_all P (f x m)) \<Longrightarrow> list_all P m \<Longrightarrow> list_all P (fold f xs m)"
  by (induction xs arbitrary: m) simp_all

section \<open>Strings\<close>

definition byte :: "char \<Rightarrow> nat" where
  "byte c = of_char c"

definition ascii :: "string \<Rightarrow> bool" where
  "ascii s \<longleftrightarrow> list_all (\<lambda>c. byte c < 128) s"

definition is_space :: "char \<Rightarrow> bool" where
  "is_space c \<longleftrightarrow> byte c = 32 \<or> (9 \<le> byte c \<and> byte c \<le> 13)"

definition lower_char :: "char \<Rightarrow> char" where
  "lower_char c = (if 65 \<le> byte c \<and> byte c \<le> 90 then char_of (byte c + 32) else c)"

definition upper_char :: "char \<Rightarrow> char" where
  "upper_char c = (if 97 \<le> byte c \<and> byte c \<le> 122 then char_of (byte c - 32) else c)"

definition strings_ToLower :: "string \<Rightarrow> string" where
  "strings_ToLower s = map lower_char s"

definition strings_ToUpper :: "string \<Rightarrow> string" where
  "strings_ToUpper s = map upper_char s"

definition strings_HasPrefix :: "string \<Rightarrow> string \<Rightarrow> bool" where
  "strings_HasPrefix s p \<longleftrightarrow> prefix p s"

definition strings_TrimPrefix :: "string \<Rightarrow> string \<Rightarrow> string" where
  "strings_TrimPrefix s p = (if prefix p s then drop (length p) s else s)"

definition strings_TrimSuffix :: "string \<Rightarrow> string \<Rightarrow> string" where
  "strings_TrimSuffix s p = (if suffix p s then take (length s - length p) s else s)"

definition strings_Contains :: "string \<Rightarrow> string \<Rightarrow> bool" where
  "strings_Contains s sub \<longleftrightarrow> sublist sub s"

definition strings_TrimSpace :: "string \<Rightarrow> string" where
  "strings_TrimSpace s = rev (dropWhile is_space (rev (dropWhile is_space s)))"

definition strings_TrimLeft :: "string \<Rightarrow> string \<Rightarrow> string" where
  "strings_TrimLeft s cutset = dropWhile (\<lambda>c. c \<in> set cutset) s"

text \<open>Index of the first byte of a set; \<open>None\<close> is Go's -1.\<close>

fun index_where :: "(char \<Rightarrow> bool) \<Rightarrow> string \<Rightarrow> nat option" where
  "index_where P [] = None"
| "index_where P (c # s) = (if P c then Some 0 else map_option Suc (index_where P s))"

definition strings_IndexAny :: "string \<Rightarrow> string \<Rightarrow> nat option" where
  "strings_IndexAny s chars = index_where (\<lambda>c. c \<in> set chars) s"

definition index_byte :: "string \<Rightarrow> char \<Rightarrow> nat option" where
  "index_byte s c = index_where (\<lambda>x. x = c) s"

fun last_index_byte :: "string \<Rightarrow> char \<Rightarrow> nat option" where
  "last_index_byte [] c = None"
| "last_index_byte (x # s) c =
     (case last_index_byte s c of
        Some i \<Rightarrow> Some (Suc i)
      | None \<Rightarrow> if x = c then Some 0 else None)"

fun strings_Index :: "string \<Rightarrow> string \<Rightarrow> nat option" where
  "strings_Index [] sub = (if sub = [] then Some 0 else None)"
| "strings_Index (c # s) sub =
     (if prefix sub (c # s) then Some 0 else map_option Suc (strings_Index s sub))"

text \<open>\<open>strings.Split\<close> on a one byte separator: never empty, and \<open>Join\<close> undoes it.\<close>

fun strings_Split :: "string \<Rightarrow> char \<Rightarrow> string list" where
  "strings_Split [] sep = [[]]"
| "strings_Split (c # s) sep =
     (if c = sep then [] # strings_Split s sep
      else (case strings_Split s sep of [] \<Rightarrow> [[c]] | w # ws \<Rightarrow> (c # w) # ws))"

fun strings_Join :: "string list \<Rightarrow> string \<Rightarrow> string" where
  "strings_Join [] sep = []"
| "strings_Join [w] sep = w"
| "strings_Join (w # v # ws) sep = w @ sep @ strings_Join (v # ws) sep"

function strings_Fields :: "string \<Rightarrow> string list" where
  "strings_Fields s =
     (let t = dropWhile is_space s in
      if t = [] then []
      else takeWhile (\<lambda>c. \<not> is_space c) t # strings_Fields (dropWhile (\<lambda>c. \<not> is_space c) t))"
  by pat_completeness auto
termination
proof (relation "measure length")
  show "wf (measure (length :: string \<Rightarrow> nat))" by simp
next
  fix s t :: string
  assume t: "t = dropWhile is_space s" and ne: "t \<noteq> []"
  from ne obtain c u where cu: "t = c # u" by (cases t) auto
  with t have "\<not> is_space c" by (metis dropWhile_eq_Cons_conv)
  with cu have "length (dropWhile (\<lambda>c. \<not> is_space c) t) \<le> length u"
    by (simp add: length_dropWhile_le)
  also have "length u < length t" using cu by simp
  also have "length t \<le> length s" using t by (simp add: length_dropWhile_le)
  finally show "(dropWhile (\<lambda>c. \<not> is_space c) t, s) \<in> measure length" by simp
qed

declare strings_Fields.simps [simp del]

subsection \<open>Lemmas on strings\<close>

lemma lower_char_idem [simp, go_simps]: "lower_char (lower_char c) = lower_char c"
proof (cases "65 \<le> byte c \<and> byte c \<le> 90")
  case True
  then have "byte (char_of (byte c + 32)) = byte c + 32"
    by (simp add: byte_def)
  with True show ?thesis by (simp add: lower_char_def)
next
  case False
  then show ?thesis by (auto simp: lower_char_def)
qed

lemma byte_lower_char: "byte (lower_char c) = (if 65 \<le> byte c \<and> byte c \<le> 90 then byte c + 32 else byte c)"
  by (simp add: lower_char_def byte_def)

lemma is_space_lower_char [simp, go_simps]: "is_space (lower_char c) = is_space c"
  by (auto simp: is_space_def byte_lower_char)

lemma lower_char_eq_iff: "byte d < 65 \<Longrightarrow> lower_char c = d \<longleftrightarrow> c = d"
proof
  assume d: "byte d < 65" and eq: "lower_char c = d"
  then have "byte (lower_char c) < 65" by simp
  then have "\<not> (65 \<le> byte c \<and> byte c \<le> 90)" by (auto simp: byte_lower_char split: if_splits)
  with eq show "c = d" by (simp add: lower_char_def)
next
  assume "byte d < 65" and "c = d"
  then show "lower_char c = d" by (simp add: lower_char_def)
qed

lemma lower_char_eq_iff_sep: "90 < byte d \<Longrightarrow> byte d < 97 \<Longrightarrow> lower_char c = d \<longleftrightarrow> c = d"
  by (auto simp: lower_char_def byte_def)

lemma strings_ToLower_idem [simp, go_simps]:
  "strings_ToLower (strings_ToLower s) = strings_ToLower s"
  by (simp add: strings_ToLower_def)

lemma strings_ToLower_simps [simp, go_simps]:
  "strings_ToLower [] = []"
  "strings_ToLower (s @ t) = strings_ToLower s @ strings_ToLower t"
  "length (strings_ToLower s) = length s"
  "(strings_ToLower s = []) = (s = [])"
  by (simp_all add: strings_ToLower_def)

lemma strings_ToLower_Cons: "strings_ToLower (c # s) = lower_char c # strings_ToLower s"
  by (simp add: strings_ToLower_def)

lemma index_where_None: "index_where P s = None \<longleftrightarrow> (\<forall>c \<in> set s. \<not> P c)"
  by (induction s) auto

lemma index_where_Some:
  "index_where P s = Some i \<Longrightarrow> i < length s \<and> P (s ! i) \<and> (\<forall>c \<in> set (take i s). \<not> P c)"
  by (induction s arbitrary: i) (auto split: if_splits)

lemma index_where_append:
  "index_where P (s @ t) =
     (case index_where P s of Some i \<Rightarrow> Some i | None \<Rightarrow> map_option (\<lambda>i. length s + i) (index_where P t))"
proof (induction s)
  case Nil
  show ?case by (cases "index_where P t") simp_all
next
  case (Cons a s)
  then show ?case by (cases "index_where P s"; cases "index_where P t") simp_all
qed

lemma last_index_byte_None: "last_index_byte s c = None \<longleftrightarrow> c \<notin> set s"
  by (induction s) (auto split: option.splits)

lemma last_index_byte_append:
  "c \<notin> set t \<Longrightarrow> last_index_byte (s @ c # t) c = Some (length s)"
  by (induction s) (auto simp: last_index_byte_None [THEN iffD2])

lemma last_index_byte_Some:
  "last_index_byte s c = Some i \<Longrightarrow> i < length s \<and> s ! i = c \<and> c \<notin> set (drop (Suc i) s)"
  by (induction s arbitrary: i) (auto simp: last_index_byte_None split: option.splits if_splits)

lemma strings_Split_nonempty [simp]: "strings_Split s sep \<noteq> []"
  by (induction s) (auto split: list.splits)

lemma strings_Join_Cons_nonempty: "ws \<noteq> [] \<Longrightarrow> strings_Join (w # ws) sep = w @ sep @ strings_Join ws sep"
  by (cases ws) simp_all

lemma strings_Join_Split: "strings_Join (strings_Split s sep) [sep] = s"
proof (induction s)
  case Nil
  then show ?case by simp
next
  case (Cons c s)
  obtain w ws where w: "strings_Split s sep = w # ws" by (cases "strings_Split s sep") auto
  with Cons show ?case by (cases ws) (auto simp: strings_Join_Cons_nonempty)
qed

lemma strings_Split_no_sep: "w \<in> set (strings_Split s sep) \<Longrightarrow> sep \<notin> set w"
  by (induction s arbitrary: w) (auto split: if_splits list.splits)

lemma strings_Split_of_no_sep: "sep \<notin> set s \<Longrightarrow> strings_Split s sep = [s]"
  by (induction s) auto

text \<open>A token is a non-empty word without white space.\<close>

definition token :: "string \<Rightarrow> bool" where
  "token w \<longleftrightarrow> w \<noteq> [] \<and> list_all (\<lambda>c. \<not> is_space c) w"

lemma dropWhile_not_first: "w \<noteq> [] \<Longrightarrow> \<not> P (hd w) \<Longrightarrow> dropWhile P (w @ s) = w @ s"
  by (cases w) auto

lemma token_dropWhile: "token w \<Longrightarrow> dropWhile is_space (w @ s) = w @ s"
  by (cases w) (auto simp: token_def)

lemma token_takeWhile: "token w \<Longrightarrow> takeWhile (\<lambda>c. \<not> is_space c) (w @ s) = w @ takeWhile (\<lambda>c. \<not> is_space c) s"
  by (simp add: token_def list_all_iff takeWhile_append2)

lemma token_dropWhile_not: "token w \<Longrightarrow> dropWhile (\<lambda>c. \<not> is_space c) (w @ s) = dropWhile (\<lambda>c. \<not> is_space c) s"
  by (simp add: token_def list_all_iff dropWhile_append2)

lemma strings_Fields_token_Cons:
  assumes "token w" and "is_space c"
  shows "strings_Fields (w @ c # s) = w # strings_Fields (c # s)"
proof -
  from assms have "w \<noteq> []" by (simp add: token_def)
  with assms show ?thesis
    by (simp add: strings_Fields.simps [of "w @ c # s"] token_dropWhile token_takeWhile
        token_dropWhile_not Let_def)
qed

lemma strings_Fields_Nil [simp, go_simps]: "strings_Fields [] = []"
  by (simp add: strings_Fields.simps)

lemma strings_Fields_token: "token w \<Longrightarrow> strings_Fields w = [w]"
  using token_dropWhile [of w "[]"] token_takeWhile [of w "[]"] token_dropWhile_not [of w "[]"]
  by (subst strings_Fields.simps) (simp add: token_def Let_def list_all_iff dropWhile_eq_Nil_conv [THEN iffD2])

lemma strings_Fields_space: "is_space c \<Longrightarrow> strings_Fields (c # s) = strings_Fields s"
  by (subst (1 2) strings_Fields.simps) simp

lemma strings_Fields_two:
  "token v \<Longrightarrow> token w \<Longrightarrow> is_space c \<Longrightarrow> strings_Fields (v @ c # w) = [v, w]"
  by (simp add: strings_Fields_token_Cons strings_Fields_space strings_Fields_token)

lemma not_space_hd: "dropWhile is_space s \<noteq> [] \<Longrightarrow> \<not> is_space (hd (dropWhile is_space s))"
  by (induction s) auto

lemma strings_Fields_tokens: "w \<in> set (strings_Fields s) \<Longrightarrow> token w"
proof (induction s rule: strings_Fields.induct)
  case (1 s)
  let ?t = "dropWhile is_space s"
  show ?case
  proof (cases "?t = []")
    case True
    with "1.prems" show ?thesis by (subst (asm) strings_Fields.simps) simp
  next
    case False
    then have "\<not> is_space (hd ?t)" by (rule not_space_hd)
    with False have first: "token (takeWhile (\<lambda>c. \<not> is_space c) ?t)"
      by (cases ?t) (auto simp: token_def list_all_iff dest: set_takeWhileD)
    from False "1.prems"
    have "w = takeWhile (\<lambda>c. \<not> is_space c) ?t
        \<or> w \<in> set (strings_Fields (dropWhile (\<lambda>c. \<not> is_space c) ?t))"
      unfolding strings_Fields.simps [of s] Let_def by (auto split: if_splits)
    with first "1.IH" [OF refl False] show ?thesis by blast
  qed
qed

lemma strings_TrimSpace_trimmed:
  assumes "s = [] \<or> (\<not> is_space (hd s) \<and> \<not> is_space (last s))"
  shows "strings_TrimSpace s = s"
  using assms dropWhile_not_first [of s is_space "[]"] dropWhile_not_first [of "rev s" is_space "[]"]
  by (cases "s = []") (auto simp: strings_TrimSpace_def hd_rev)

lemma strings_TrimSpace_ends:
  assumes "strings_TrimSpace s \<noteq> []"
  shows "\<not> is_space (hd (strings_TrimSpace s)) \<and> \<not> is_space (last (strings_TrimSpace s))"
proof -
  let ?t = "dropWhile is_space s"
  let ?r = "dropWhile is_space (rev ?t)"
  from assms have r: "?r \<noteq> []" by (simp add: strings_TrimSpace_def)
  then have "\<not> is_space (hd ?r)" by (rule not_space_hd)
  with r have last: "\<not> is_space (last (strings_TrimSpace s))"
    by (simp add: strings_TrimSpace_def last_rev)
  from r have t: "?t \<noteq> []" by (cases ?t) simp_all
  then have ht: "\<not> is_space (hd ?t)" by (rule not_space_hd)
  have "suffix ?r (rev ?t)" by (rule suffix_dropWhile)
  then have "prefix (rev ?r) ?t" by (simp add: suffix_to_prefix)
  with r have "hd (rev ?r) = hd ?t" by (metis hd_append2 prefix_def rev_is_Nil_conv)
  with ht last show ?thesis by (simp add: strings_TrimSpace_def)
qed

lemma strings_TrimSpace_idem [simp, go_simps]:
  "strings_TrimSpace (strings_TrimSpace s) = strings_TrimSpace s"
  using strings_TrimSpace_ends [of s] by (cases "strings_TrimSpace s = []") (auto intro: strings_TrimSpace_trimmed)

lemma strings_TrimSpace_Nil [simp, go_simps]: "strings_TrimSpace [] = []"
  by (simp add: strings_TrimSpace_def)

lemma strings_TrimSpace_set: "set (strings_TrimSpace s) \<subseteq> set s"
  unfolding strings_TrimSpace_def set_rev
  using set_dropWhileD [of _ is_space "rev (dropWhile is_space s)"] set_dropWhileD [of _ is_space s]
  by fastforce

section \<open>Lists of goroutines\<close>

text \<open>What a list of goroutines holds, when one of them moves on.\<close>

lemma mset_concat_update:
  "i < length xs \<Longrightarrow>
     mset (concat (map f (xs[i := y]))) + mset (f (xs ! i)) = mset (concat (map f xs)) + mset (f y)"
proof -
  assume i: "i < length xs"
  have "mset (concat (map f xs)) = mset (concat (map f (take i xs @ xs ! i # drop (Suc i) xs)))"
    using id_take_nth_drop [OF i] by simp
  with i show ?thesis by (simp add: upd_conv_take_nth_drop)
qed

section \<open>Step systems\<close>

text \<open>
  A system of steps with an invariant, and what an invariant is worth: it holds after every run.
  Instantiated by every component whose goroutines are modelled as interleaved atomic steps.
\<close>

locale step_system =
  fixes init :: "'s \<Rightarrow> bool" and step :: "'s \<Rightarrow> 's \<Rightarrow> bool" and inv :: "'s \<Rightarrow> bool"
  assumes inv_init: "init s \<Longrightarrow> inv s" and inv_step: "inv s \<Longrightarrow> step s s' \<Longrightarrow> inv s'"
begin

lemma inv_run:
  assumes "step\<^sup>*\<^sup>* s s'" and "inv s"
  shows "inv s'"
  using assms by (induction rule: rtranclp_induct) (auto intro: inv_step)

lemma inv_reachable: "init s \<Longrightarrow> step\<^sup>*\<^sup>* s s' \<Longrightarrow> inv s'"
  using inv_init inv_run by blast

end

end
