(* ===== verification/Go_Net.thy ===== *)
theory Go_Net
  imports Go_Prelude
begin

text \<open>
  The functions of Go's \<open>net\<close> package the program calls: textual addresses
  (\<open>SplitHostPort\<close>, \<open>JoinHostPort\<close>) and IP addresses (\<open>ParseIP\<close>, \<open>To4\<close>, \<open>Mask\<close>, \<open>CIDRMask\<close>,
  \<open>String\<close> and the address classes). A \<open>net.IP\<close> is a list of bytes, four or sixteen of them;
  a nil address is \<open>None\<close>. The functions are those of the standard library of the Go version
  in \<open>go.mod\<close> (1.25).
\<close>

unbundle bit_operations_syntax

type_synonym ip = "8 word list"

section \<open>Host and port\<close>

definition net_JoinHostPort :: "string \<Rightarrow> string \<Rightarrow> string" where
  "net_JoinHostPort host port =
     (if CHR '':'' \<in> set host then ''['' @ host @ '']:'' @ port else host @ '':'' @ port)"

definition split_brackets_ok :: "string \<Rightarrow> nat \<Rightarrow> nat \<Rightarrow> bool" where
  "split_brackets_ok hostport j k \<longleftrightarrow>
     CHR ''['' \<notin> set (drop j hostport) \<and> CHR '']'' \<notin> set (drop k hostport)"

definition net_SplitHostPort :: "string \<Rightarrow> (string \<times> string) option" where
  "net_SplitHostPort hostport =
     (case last_index_byte hostport (CHR '':'') of
        None \<Rightarrow> None
      | Some i \<Rightarrow>
          if hostport ! 0 = CHR ''['' then
            (case index_byte hostport (CHR '']'') of
               None \<Rightarrow> None
             | Some end_ \<Rightarrow>
                 if end_ + 1 \<noteq> i then None
                 else if split_brackets_ok hostport 1 (end_ + 1)
                 then Some (drop 1 (take end_ hostport), drop (i + 1) hostport) else None)
          else
            (if CHR '':'' \<in> set (take i hostport) then None
             else if split_brackets_ok hostport 0 0
             then Some (take i hostport, drop (i + 1) hostport) else None))"

lemma index_byte_append_hit: "c \<notin> set s \<Longrightarrow> index_byte (s @ c # t) c = Some (length s)"
  by (induction s) (auto simp: index_byte_def)

lemma net_SplitHostPort_plain:
  assumes "CHR '':'' \<notin> set h" "CHR ''['' \<notin> set h" "CHR '']'' \<notin> set h"
    and "CHR '':'' \<notin> set p" "CHR ''['' \<notin> set p" "CHR '']'' \<notin> set p"
  shows "net_SplitHostPort (h @ CHR '':'' # p) = Some (h, p)"
proof -
  have "last_index_byte (h @ CHR '':'' # p) (CHR '':'') = Some (length h)"
    using assms by (simp add: last_index_byte_append)
  moreover have "(h @ CHR '':'' # p) ! 0 \<noteq> CHR ''[''"
    using assms by (cases h) auto
  ultimately show ?thesis
    using assms by (simp add: net_SplitHostPort_def split_brackets_ok_def)
qed

lemma net_SplitHostPort_bracketed:
  assumes "CHR ''['' \<notin> set h" "CHR '']'' \<notin> set h"
    and "CHR '':'' \<notin> set p" "CHR ''['' \<notin> set p" "CHR '']'' \<notin> set p"
  shows "net_SplitHostPort (CHR ''['' # h @ CHR '']'' # CHR '':'' # p) = Some (h, p)"
proof -
  let ?hp = "CHR ''['' # h @ CHR '']'' # CHR '':'' # p"
  have "last_index_byte ((CHR ''['' # h @ [CHR '']'']) @ CHR '':'' # p) (CHR '':'')
      = Some (length (CHR ''['' # h @ [CHR '']'']))"
    using assms by (intro last_index_byte_append)
  then have "last_index_byte ?hp (CHR '':'') = Some (length h + 2)" by simp
  moreover have "index_byte ((CHR ''['' # h) @ CHR '']'' # CHR '':'' # p) (CHR '']'')
      = Some (length (CHR ''['' # h))"
    using assms by (intro index_byte_append_hit) auto
  then have "index_byte ?hp (CHR '']'') = Some (length h + 1)" by simp
  ultimately show ?thesis
    using assms by (simp add: net_SplitHostPort_def split_brackets_ok_def)
qed

text \<open>What \<open>JoinHostPort\<close> writes, \<open>SplitHostPort\<close> reads back.\<close>

lemma net_SplitHostPort_JoinHostPort [go_simps]:
  assumes "CHR ''['' \<notin> set h" "CHR '']'' \<notin> set h"
    and "CHR '':'' \<notin> set p" "CHR ''['' \<notin> set p" "CHR '']'' \<notin> set p"
  shows "net_SplitHostPort (net_JoinHostPort h p) = Some (h, p)"
  using assms net_SplitHostPort_plain [of h p] net_SplitHostPort_bracketed [of h p]
  by (simp add: net_JoinHostPort_def)

lemma net_SplitHostPort_port_no_colon:
  "net_SplitHostPort s = Some (h, p) \<Longrightarrow> CHR '':'' \<notin> set p"
  by (auto simp: net_SplitHostPort_def dest: last_index_byte_Some
      split: option.splits if_splits)

lemma net_SplitHostPort_no_colon: "CHR '':'' \<notin> set s \<Longrightarrow> net_SplitHostPort s = None"
  by (simp add: net_SplitHostPort_def last_index_byte_None [THEN iffD2])

section \<open>Parsing an IP address\<close>

definition digit_val :: "char \<Rightarrow> nat option" where
  "digit_val c = (if 48 \<le> byte c \<and> byte c \<le> 57 then Some (byte c - 48) else None)"

definition hex_val :: "char \<Rightarrow> nat option" where
  "hex_val c =
     (if 48 \<le> byte c \<and> byte c \<le> 57 then Some (byte c - 48)
      else if 97 \<le> byte c \<and> byte c \<le> 102 then Some (byte c - 97 + 10)
      else if 65 \<le> byte c \<and> byte c \<le> 70 then Some (byte c - 65 + 10)
      else None)"

text \<open>
  \<open>netip.parseIPv4Fields\<close>: \<open>start\<close> says that the byte before is a dot or that there is none,
  \<open>fields\<close> holds the octets read so far.
\<close>

fun parse_v4_fields :: "bool \<Rightarrow> nat \<Rightarrow> nat \<Rightarrow> ip \<Rightarrow> string \<Rightarrow> ip option" where
  "parse_v4_fields start val digLen fields [] =
     (if length fields < 3 then None else Some (fields @ [of_nat val]))"
| "parse_v4_fields start val digLen fields (c # s) =
     (case digit_val c of
        Some d \<Rightarrow>
          if digLen = 1 \<and> val = 0 then None
          else if 255 < val * 10 + d then None
          else parse_v4_fields False (val * 10 + d) (Suc digLen) fields s
      | None \<Rightarrow>
          if c = CHR ''.'' then
            (if start \<or> s = [] then None
             else if length fields = 3 then None
             else parse_v4_fields True 0 0 (fields @ [of_nat val]) s)
          else None)"

definition parse_v4 :: "string \<Rightarrow> ip option" where
  "parse_v4 s = parse_v4_fields True 0 0 [] s"

text \<open>One group of an IPv6 address: one to four hexadecimal digits.\<close>

definition parse_hex_group :: "string \<Rightarrow> (nat \<times> string) option" where
  "parse_hex_group s =
     (let ds = takeWhile (\<lambda>c. hex_val c \<noteq> None) s in
      if ds = [] \<or> 4 < length ds then None
      else Some (foldl (\<lambda>acc c. acc * 16 + the (hex_val c)) 0 ds, drop (length ds) s))"

text \<open>
  The loop of \<open>netip.parseIPv6\<close>; the first argument counts the groups left, so the index
  \<open>i\<close> of the source is \<open>16 - 2 * k\<close>, the number of bytes in \<open>acc\<close>.
\<close>

fun parse_v6_groups :: "nat \<Rightarrow> nat option \<Rightarrow> ip \<Rightarrow> string \<Rightarrow> (ip \<times> nat option \<times> string) option" where
  "parse_v6_groups 0 ell acc s = Some (acc, ell, s)"
| "parse_v6_groups (Suc k) ell acc s =
     (case parse_hex_group s of
        None \<Rightarrow> None
      | Some (v, rest) \<Rightarrow>
          if strings_HasPrefix rest ''.'' then
            (if ell = None \<and> length acc \<noteq> 12 then None
             else if 16 < length acc + 4 then None
             else map_option (\<lambda>f. (acc @ f, ell, [])) (parse_v4 s))
          else
            (let acc' = acc @ [of_nat (v div 256), of_nat (v mod 256)] in
             case rest of
               [] \<Rightarrow> Some (acc', ell, [])
             | c # s1 \<Rightarrow>
                 if c \<noteq> CHR '':'' then None
                 else (case s1 of
                   [] \<Rightarrow> None
                 | c1 # s2 \<Rightarrow>
                     if c1 = CHR '':'' then
                       (if ell \<noteq> None then None
                        else if s2 = [] then Some (acc', Some (length acc'), [])
                        else parse_v6_groups k (Some (length acc')) acc' s2)
                     else parse_v6_groups k ell acc' s1)))"

definition finish_v6 :: "ip \<times> nat option \<times> string \<Rightarrow> ip option" where
  "finish_v6 r =
     (case r of (acc, ell, s) \<Rightarrow>
        if s \<noteq> [] then None
        else if length acc < 16 then
          (case ell of
             None \<Rightarrow> None
           | Some e \<Rightarrow> Some (take e acc @ replicate (16 - length acc) 0 @ drop e acc))
        else if ell \<noteq> None then None else Some acc)"

definition parse_v6 :: "string \<Rightarrow> ip option" where
  "parse_v6 s =
     (if strings_HasPrefix s ''::'' then
        (let s' = drop 2 s in
         if s' = [] then Some (replicate 16 0)
         else Option.bind (parse_v6_groups 8 (Some 0) [] s') finish_v6)
      else Option.bind (parse_v6_groups 8 None [] s) finish_v6)"

definition v4_in_v6_prefix :: ip where
  "v4_in_v6_prefix = replicate 10 0 @ [255, 255]"

text \<open>
  \<open>net.ParseIP\<close>: the first of \<open>.\<close>, \<open>:\<close> and \<open>%\<close> decides the syntax; an address with a zone is
  refused, and an IPv4 address is returned in its sixteen byte form.
\<close>

definition net_ParseIP :: "string \<Rightarrow> ip option" where
  "net_ParseIP s =
     (if CHR ''%'' \<in> set s then None
      else (case index_where (\<lambda>c. c = CHR ''.'' \<or> c = CHR '':'') s of
        None \<Rightarrow> None
      | Some i \<Rightarrow>
          if s ! i = CHR ''.'' then map_option (\<lambda>f. v4_in_v6_prefix @ f) (parse_v4 s)
          else parse_v6 s))"

section \<open>Operations on addresses\<close>

definition ip_To4 :: "ip \<Rightarrow> ip option" where
  "ip_To4 x =
     (if length x = 4 then Some x
      else if length x = 16 \<and> take 12 x = v4_in_v6_prefix then Some (drop 12 x)
      else None)"

fun cidr_bytes :: "nat \<Rightarrow> nat \<Rightarrow> ip" where
  "cidr_bytes 0 n = []"
| "cidr_bytes (Suc l) n =
     (if 8 \<le> n then 255 # cidr_bytes l (n - 8) else NOT (drop_bit n 255) # cidr_bytes l 0)"

definition net_CIDRMask :: "int \<Rightarrow> int \<Rightarrow> ip option" where
  "net_CIDRMask ones bits =
     (if bits \<noteq> 32 \<and> bits \<noteq> 128 then None
      else if ones < 0 \<or> bits < ones then None
      else Some (cidr_bytes (nat bits div 8) (nat ones)))"

definition ip_Mask :: "ip \<Rightarrow> ip option \<Rightarrow> ip option" where
  "ip_Mask x m0 =
     (let m = (case m0 of None \<Rightarrow> [] | Some b \<Rightarrow> b);
          m' = (if length m = 16 \<and> length x = 4 \<and> take 12 m = replicate 12 255 then drop 12 m else m);
          x' = (if length m' = 4 \<and> length x = 16 \<and> take 12 x = v4_in_v6_prefix then drop 12 x else x)
      in if length x' \<noteq> length m' then None else Some (map2 (AND) x' m'))"

definition dec_digit :: "nat \<Rightarrow> char" where
  "dec_digit n = char_of (48 + n)"

fun dec_string :: "nat \<Rightarrow> string" where
  "dec_string n = (if n < 10 then [dec_digit n] else dec_string (n div 10) @ [dec_digit (n mod 10)])"

declare dec_string.simps [simp del]

definition strconv_Itoa :: "int \<Rightarrow> string" where
  "strconv_Itoa i = (if i < 0 then ''-'' @ dec_string (nat (- i)) else dec_string (nat i))"

definition hex_digit :: "nat \<Rightarrow> char" where
  "hex_digit n = (if n < 10 then char_of (48 + n) else char_of (87 + n))"

fun hex_string :: "nat \<Rightarrow> string" where
  "hex_string n = (if n < 16 then [hex_digit n] else hex_string (n div 16) @ [hex_digit (n mod 16)])"

declare hex_string.simps [simp del]

definition v4_string :: "ip \<Rightarrow> string" where
  "v4_string x = strings_Join (map (\<lambda>b. dec_string (unat b)) x) ''.''"

text \<open>The eight groups of an IPv6 address, and the longest run of at least two zero groups.\<close>

fun v6_groups :: "ip \<Rightarrow> nat list" where
  "v6_groups (a # b # r) = (unat a * 256 + unat b) # v6_groups r"
| "v6_groups _ = []"

fun zero_run :: "nat list \<Rightarrow> nat" where
  "zero_run [] = 0"
| "zero_run (g # gs) = (if g = 0 then Suc (zero_run gs) else 0)"

definition longest_zero_run :: "nat list \<Rightarrow> (nat \<times> nat) option" where
  "longest_zero_run gs =
     foldl (\<lambda>best i.
        let l = zero_run (drop i gs) in
        if 2 \<le> l \<and> (case best of None \<Rightarrow> True | Some (st, len) \<Rightarrow> len < l) then Some (i, l) else best)
      None [0..<length gs]"

definition v6_string :: "ip \<Rightarrow> string" where
  "v6_string x =
     (let gs = v6_groups x in
      case longest_zero_run gs of
        None \<Rightarrow> strings_Join (map hex_string gs) '':''
      | Some (st, len) \<Rightarrow>
          strings_Join (map hex_string (take st gs)) '':'' @ ''::''
            @ strings_Join (map hex_string (drop (st + len) gs)) '':'')"

definition ip_String :: "ip \<Rightarrow> string" where
  "ip_String x =
     (if x = [] then ''<nil>''
      else if length x \<noteq> 4 \<and> length x \<noteq> 16
      then ''?'' @ concat (map (\<lambda>b. [hex_digit (unat b div 16), hex_digit (unat b mod 16)]) x)
      else (case ip_To4 x of Some x4 \<Rightarrow> v4_string x4 | None \<Rightarrow> v6_string x))"

definition ip_IsLoopback :: "ip \<Rightarrow> bool" where
  "ip_IsLoopback x =
     (case ip_To4 x of Some x4 \<Rightarrow> x4 ! 0 = 127 | None \<Rightarrow> x = replicate 15 0 @ [1])"

definition ip_IsPrivate :: "ip \<Rightarrow> bool" where
  "ip_IsPrivate x =
     (case ip_To4 x of
        Some x4 \<Rightarrow>
          x4 ! 0 = 10 \<or> (x4 ! 0 = 172 \<and> x4 ! 1 AND 240 = 16) \<or> (x4 ! 0 = 192 \<and> x4 ! 1 = 168)
      | None \<Rightarrow> length x = 16 \<and> x ! 0 AND 254 = 252)"

definition ip_IsLinkLocalUnicast :: "ip \<Rightarrow> bool" where
  "ip_IsLinkLocalUnicast x =
     (case ip_To4 x of
        Some x4 \<Rightarrow> x4 ! 0 = 169 \<and> x4 ! 1 = 254
      | None \<Rightarrow> length x = 16 \<and> x ! 0 = 254 \<and> x ! 1 AND 192 = 128)"

subsection \<open>Lemmas\<close>

lemma parse_v4_fields_length:
  "parse_v4_fields start val digLen fields s = Some f \<Longrightarrow> length fields \<le> 3 \<Longrightarrow> length f = 4"
  by (induction start val digLen fields s rule: parse_v4_fields.induct)
    (auto split: if_splits option.splits)

lemma parse_v4_length: "parse_v4 s = Some f \<Longrightarrow> length f = 4"
  by (auto simp: parse_v4_def dest: parse_v4_fields_length)

lemma parse_v6_groups_length:
  "parse_v6_groups k ell acc s = Some (acc', ell', s') \<Longrightarrow> length acc + 2 * k = 16
     \<Longrightarrow> (\<And>e. ell = Some e \<Longrightarrow> e \<le> length acc)
     \<Longrightarrow> length acc' \<le> 16 \<and> (\<forall>e. ell' = Some e \<longrightarrow> e \<le> length acc')"
proof (induction k ell acc s rule: parse_v6_groups.induct)
  case (1 ell acc s)
  then show ?case by auto
next
  case (2 k ell acc s)
  from "2.prems" obtain v rest where vr: "parse_hex_group s = Some (v, rest)"
    by (auto split: option.splits)
  let ?acc = "acc @ [of_nat (v div 256), of_nat (v mod 256)]"
  show ?case
  proof (cases "strings_HasPrefix rest ''.''")
    case True
    with "2.prems" vr show ?thesis
      by (auto split: if_splits dest!: parse_v4_length)
  next
    case dot: False
    show ?thesis
    proof (cases rest)
      case Nil
      with "2.prems" vr dot show ?thesis by (force simp: Let_def)
    next
      case (Cons c s1)
      with "2.prems" vr dot obtain c1 s2 where s1: "c = CHR '':''" "s1 = c1 # s2"
        by (auto simp: Let_def split: if_splits list.splits)
      show ?thesis
      proof (cases "c1 = CHR '':''")
        case True
        with "2.prems" vr dot Cons s1 have "ell = None" by (auto simp: Let_def split: if_splits)
        with True "2.prems" vr dot Cons s1 "2.IH"(1) [OF vr refl dot refl Cons _ _ True]
        show ?thesis by (auto simp: Let_def split: if_splits)
      next
        case False
        with "2.prems" vr dot Cons s1 "2.IH"(2) [OF vr refl dot refl Cons _ _ False]
        show ?thesis by (force simp: Let_def split: if_splits)
      qed
    qed
  qed
qed

lemma finish_v6_length:
  "finish_v6 (acc, ell, s) = Some x \<Longrightarrow> length acc \<le> 16 \<Longrightarrow> (\<And>e. ell = Some e \<Longrightarrow> e \<le> length acc)
     \<Longrightarrow> length x = 16"
  by (auto simp: finish_v6_def split: if_splits option.splits)

lemma parse_v6_length: "parse_v6 s = Some x \<Longrightarrow> length x = 16"
proof -
  assume p: "parse_v6 s = Some x"
  have groups: "length x = 16"
    if "Option.bind (parse_v6_groups 8 ell [] t) finish_v6 = Some x" "ell = None \<or> ell = Some 0" for ell t
  proof -
    from that(1) obtain acc e r where g: "parse_v6_groups 8 ell [] t = Some (acc, e, r)"
      and f: "finish_v6 (acc, e, r) = Some x" by (auto simp: bind_eq_Some_conv)
    from parse_v6_groups_length [OF g] that(2) have "length acc \<le> 16 \<and> (\<forall>i. e = Some i \<longrightarrow> i \<le> length acc)"
      by auto
    with f finish_v6_length show ?thesis by blast
  qed
  from p show ?thesis
    by (auto simp: parse_v6_def Let_def split: if_splits intro: groups)
qed

lemma net_ParseIP_length [go_simps]: "net_ParseIP s = Some x \<Longrightarrow> length x = 16"
  by (auto simp: net_ParseIP_def v4_in_v6_prefix_def split: if_splits option.splits
      dest: parse_v4_length parse_v6_length)

lemma ip_To4_length: "ip_To4 x = Some y \<Longrightarrow> length y = 4"
  by (auto simp: ip_To4_def split: if_splits)

lemma ip_To4_idem [simp]: "ip_To4 x = Some y \<Longrightarrow> ip_To4 y = Some y"
  by (simp add: ip_To4_length ip_To4_def [of y])

text \<open>Bit \<open>i\<close> of an address, counted from the most significant.\<close>

definition addr_bit :: "ip \<Rightarrow> nat \<Rightarrow> bool" where
  "addr_bit x i = bit (x ! (i div 8)) (7 - i mod 8)"

lemma length_cidr_bytes [simp]: "length (cidr_bytes l n) = l"
  by (induction l n rule: cidr_bytes.induct) auto

lemma bit_255: "j < 8 \<Longrightarrow> bit (255 :: 8 word) j"
proof -
  assume j: "j < 8"
  have "(255 :: 8 word) = mask 8" by (simp add: mask_eq_exp_minus_1)
  with j show ?thesis by (simp only: bit_mask_iff) simp
qed

lemma cidr_bytes_bit: "i < 8 * l \<Longrightarrow> addr_bit (cidr_bytes l n) i = (i < n)"
proof (induction l n arbitrary: i rule: cidr_bytes.induct)
  case (1 n)
  then show ?case by simp
next
  case (2 l n)
  show ?case
  proof (cases "i < 8")
    case True
    then have i: "i div 8 = 0" "i mod 8 = i" by simp_all
    have "bit (NOT (drop_bit n 255) :: 8 word) (7 - i) = (i < n)" if "n < 8"
      using True that bit_255 [of "n + (7 - i)"]
      by (auto simp: bit_not_iff bit_drop_bit_eq impossible_bit dest: bit_imp_le_length)
    with True i bit_255 [of "7 - i"] show ?thesis by (auto simp: addr_bit_def)
  next
    case False
    then obtain j where j: "i = j + 8" by (metis add.commute le_Suc_ex not_less)
    then have idx: "i div 8 = Suc (j div 8)" "i mod 8 = j mod 8" by simp_all
    from j "2.prems" have "j < 8 * l" by simp
    with "2.IH" j idx show ?thesis by (auto simp: addr_bit_def)
  qed
qed

declare cidr_bytes.simps [simp del]

lemma addr_bit_map2_and:
  "length x = length y \<Longrightarrow> i < 8 * length x \<Longrightarrow>
     addr_bit (map2 (AND) x y) i = (addr_bit x i \<and> addr_bit y i)"
  by (simp add: addr_bit_def bit_and_iff less_mult_imp_div_less mult.commute)

text \<open>Masking with a prefix keeps the bits of the prefix and clears the others.\<close>

lemma ip_Mask_CIDR:
  assumes "length x = 4 \<and> bits = 32 \<or> length x = 16 \<and> bits = 128" and "0 \<le> p" "p \<le> bits"
  shows "ip_Mask x (net_CIDRMask p bits) = Some (map2 (AND) x (cidr_bytes (length x) (nat p)))"
  using assms by (auto simp: ip_Mask_def net_CIDRMask_def)

lemma ip_Mask_CIDR_bits:
  assumes "length x = 4 \<and> bits = 32 \<or> length x = 16 \<and> bits = 128" and "0 \<le> p" "p \<le> bits"
    and "ip_Mask x (net_CIDRMask p bits) = Some y" and "i < 8 * length x"
  shows "length y = length x" and "addr_bit y i = (int i < p \<and> addr_bit x i)"
proof -
  from ip_Mask_CIDR [OF assms(1-3)] assms(4)
  have y: "y = map2 (AND) x (cidr_bytes (length x) (nat p))" by simp
  then show "length y = length x" by simp
  from y assms(5) show "addr_bit y i = (int i < p \<and> addr_bit x i)"
    by (auto simp: addr_bit_map2_and cidr_bytes_bit)
qed

end
