(* ===== verification/Go_Files.thy ===== *)
theory Go_Files
  imports Go_Prelude
begin

text \<open>
  What the configuration code uses of \<open>os\<close>, \<open>bufio\<close> and \<open>path/filepath\<close>: opened files, line
  scanning and lexical path processing (of Unix paths). An opened file is an error, or the
  bytes that can be read from it together with the error that ends the reading, if it is not
  the end of the file.
\<close>

section \<open>Files\<close>

type_synonym opened = "goerr + (string \<times> goerr option)"

definition err_not_exist :: goerr where "err_not_exist = Errorf ''file does not exist'' []"

definition os_IsNotExist :: "goerr \<Rightarrow> bool" where "os_IsNotExist e \<longleftrightarrow> e = err_not_exist"

definition os_ReadFile :: "opened \<Rightarrow> goerr + string" where
  "os_ReadFile f =
     (case f of
        Inl e \<Rightarrow> Inl e
      | Inr (data, None) \<Rightarrow> Inr data
      | Inr (data, Some e) \<Rightarrow> Inl e)"

section \<open>bufio.Scanner\<close>

text \<open>
  \<open>ScanLines\<close> with the default buffer: tokens are the lines without their newline and without
  one trailing carriage return; a line of \<open>MaxScanTokenSize\<close> bytes or more ends the scan with
  \<open>ErrTooLong\<close>.
\<close>

definition LF :: char where "LF = char_of (10 :: nat)"
definition CR :: char where "CR = char_of (13 :: nat)"
definition MaxScanTokenSize :: nat where "MaxScanTokenSize = 65536"
definition err_too_long :: goerr where "err_too_long = Errorf ''bufio.Scanner: token too long'' []"

definition drop_cr :: "string \<Rightarrow> string" where
  "drop_cr s = (if s \<noteq> [] \<and> last s = CR then butlast s else s)"

fun scan_tokens :: "string list \<Rightarrow> string list \<times> bool" where
  "scan_tokens [] = ([], False)"
| "scan_tokens (p # ps) =
     (if MaxScanTokenSize \<le> length p then ([], True)
      else (case scan_tokens ps of (ts, long) \<Rightarrow> (drop_cr p # ts, long)))"

definition scan_pieces :: "string \<Rightarrow> string list" where
  "scan_pieces data =
     (let pieces = strings_Split data LF in if last pieces = [] then butlast pieces else pieces)"

definition bufio_lines :: "string \<times> goerr option \<Rightarrow> string list \<times> goerr option" where
  "bufio_lines c =
     (case scan_tokens (scan_pieces (fst c)) of
        (ts, True) \<Rightarrow> (ts, Some err_too_long)
      | (ts, False) \<Rightarrow> (ts, snd c))"

lemma strings_Split_append_sep:
  "sep \<notin> set s \<Longrightarrow> strings_Split (s @ sep # t) sep = s # strings_Split t sep"
  by (induction s) auto

definition unlines :: "string list \<Rightarrow> string" where
  "unlines ls = concat (map (\<lambda>l. l @ [LF]) ls)"

lemma strings_Split_unlines:
  "list_all (\<lambda>l. LF \<notin> set l) ls \<Longrightarrow> strings_Split (unlines ls) LF = ls @ [[]]"
  by (induction ls) (simp_all add: unlines_def strings_Split_append_sep)

definition plain_line :: "string \<Rightarrow> bool" where
  "plain_line l \<longleftrightarrow> LF \<notin> set l \<and> length l < MaxScanTokenSize \<and> (l = [] \<or> last l \<noteq> CR)"

lemma scan_tokens_plain: "list_all plain_line ls \<Longrightarrow> scan_tokens ls = (ls, False)"
  by (induction ls) (auto simp: plain_line_def drop_cr_def)

text \<open>Reading back what was written line by line.\<close>

lemma bufio_lines_unlines:
  assumes "list_all plain_line ls"
  shows "bufio_lines (unlines ls, e) = (ls, e)"
proof -
  have "list_all (\<lambda>l. LF \<notin> set l) ls" using assms by (auto simp: list_all_iff plain_line_def)
  then have "scan_pieces (unlines ls) = ls" by (simp add: scan_pieces_def strings_Split_unlines)
  then show ?thesis by (simp add: bufio_lines_def scan_tokens_plain [OF assms])
qed

section \<open>path/filepath\<close>

definition slash :: string where "slash = ''/''"

fun clean_comps :: "bool \<Rightarrow> string list \<Rightarrow> string list \<Rightarrow> string list" where
  "clean_comps rooted st [] = rev st"
| "clean_comps rooted st (c # cs) =
     (if c = [] \<or> c = ''.'' then clean_comps rooted st cs
      else if c = ''..'' then
        (case st of
           [] \<Rightarrow> clean_comps rooted (if rooted then [] else [c]) cs
         | s # st' \<Rightarrow> clean_comps rooted (if s = ''..'' then c # st else st') cs)
      else clean_comps rooted (c # st) cs)"

definition filepath_IsAbs :: "string \<Rightarrow> bool" where
  "filepath_IsAbs p \<longleftrightarrow> strings_HasPrefix p slash"

definition filepath_Clean :: "string \<Rightarrow> string" where
  "filepath_Clean p =
     (if p = [] then ''.''
      else
        (let cs = clean_comps (filepath_IsAbs p) [] (strings_Split p (CHR ''/''));
             s = strings_Join cs slash
         in if filepath_IsAbs p then slash @ s else if s = [] then ''.'' else s))"

definition filepath_Dir :: "string \<Rightarrow> string" where
  "filepath_Dir p =
     filepath_Clean (case last_index_byte p (CHR ''/'') of None \<Rightarrow> [] | Some i \<Rightarrow> take (Suc i) p)"

definition filepath_Join :: "string \<Rightarrow> string \<Rightarrow> string" where
  "filepath_Join a b =
     (if a = [] \<and> b = [] then []
      else if a = [] then filepath_Clean b
      else filepath_Clean (a @ slash @ b))"

text \<open>\<open>Abs\<close> asks for the working directory, which may fail.\<close>

definition filepath_Abs :: "goerr + string \<Rightarrow> string \<Rightarrow> goerr + string" where
  "filepath_Abs cwd p =
     (if filepath_IsAbs p then Inr (filepath_Clean p)
      else (case cwd of Inl e \<Rightarrow> Inl e | Inr wd \<Rightarrow> Inr (filepath_Join wd p)))"

definition path_comps :: "string \<Rightarrow> string list" where
  "path_comps p = filter (\<lambda>c. c \<noteq> []) (strings_Split p (CHR ''/''))"

fun strip_common :: "string list \<Rightarrow> string list \<Rightarrow> string list \<times> string list" where
  "strip_common (b # bs) (t # ts) = (if b = t then strip_common bs ts else (b # bs, t # ts))"
| "strip_common bs ts = (bs, ts)"

text \<open>
  \<open>Rel\<close> between two absolute paths, the only case in which the program reaches it: up from what
  is left of the base, then down. \<open>None\<close> stands for the other cases.
\<close>

definition filepath_Rel :: "string \<Rightarrow> string \<Rightarrow> string option" where
  "filepath_Rel base targ =
     (if filepath_IsAbs base \<and> filepath_IsAbs targ then
        (let b = filepath_Clean base; t = filepath_Clean targ in
         if b = t then Some ''.''
         else
           (case strip_common (path_comps b) (path_comps t) of
              (bs, ts) \<Rightarrow> Some (strings_Join (replicate (length bs) ''..'' @ ts) slash)))
      else None)"

subsection \<open>Absolute clean paths\<close>

definition plain_comp :: "string \<Rightarrow> bool" where
  "plain_comp c \<longleftrightarrow> c \<noteq> [] \<and> c \<noteq> ''.'' \<and> c \<noteq> ''..'' \<and> CHR ''/'' \<notin> set c"

definition abs_path :: "string list \<Rightarrow> string" where
  "abs_path cs = slash @ strings_Join cs slash"

lemma clean_comps_plain: "list_all plain_comp cs \<Longrightarrow> clean_comps r st (cs @ ds) = clean_comps r (rev cs @ st) ds"
  by (induction cs arbitrary: st) (simp_all add: plain_comp_def)

lemma clean_comps_up:
  "list_all plain_comp up \<Longrightarrow>
     clean_comps r (up @ st) (replicate (length up) ''..'' @ ds) = clean_comps r st ds"
  by (induction up) (simp_all add: plain_comp_def)

lemma strings_Split_Join:
  "list_all (\<lambda>c. sep \<notin> set c) cs \<Longrightarrow> cs \<noteq> [] \<Longrightarrow> strings_Split (strings_Join cs [sep]) sep = cs"
proof (induction cs)
  case (Cons c cs)
  then show ?case
    by (cases "cs = []") (simp_all add: strings_Split_of_no_sep strings_Join_Cons_nonempty strings_Split_append_sep)
qed simp

lemma clean_comps_Nil_comp: "clean_comps r st ([] # cs) = clean_comps r st cs"
  by simp

lemma IsAbs_abs_path [simp]: "filepath_IsAbs (abs_path cs)" "filepath_IsAbs (abs_path cs @ s)"
  by (simp_all add: filepath_IsAbs_def abs_path_def strings_HasPrefix_def slash_def)

definition no_slash :: "string list \<Rightarrow> bool" where
  "no_slash cs \<longleftrightarrow> list_all (\<lambda>c. CHR ''/'' \<notin> set c) cs"

lemma plain_no_slash: "list_all plain_comp cs \<Longrightarrow> no_slash cs"
  by (auto simp: no_slash_def list_all_iff plain_comp_def)

text \<open>The components of an absolute path followed by a relative one.\<close>

lemma Split_abs_path:
  assumes "no_slash cs"
  shows "strings_Split (abs_path cs) (CHR ''/'') = [] # (if cs = [] then [[]] else cs)"
  using assms by (simp add: abs_path_def slash_def no_slash_def strings_Split_Join)

lemma Split_abs_path_append:
  assumes "no_slash cs" and "no_slash ds" and "ds \<noteq> []"
  shows "filter (\<lambda>c. c \<noteq> []) (strings_Split (abs_path cs @ slash @ strings_Join ds slash) (CHR ''/''))
    = filter (\<lambda>c. c \<noteq> []) (cs @ ds)"
proof -
  have d: "strings_Split (strings_Join ds ''/'') (CHR ''/'') = ds"
    using assms by (simp add: no_slash_def strings_Split_Join)
  have "strings_Split (strings_Join cs ''/'' @ CHR ''/'' # t) (CHR ''/'')
      = (if cs = [] then [[]] else cs) @ strings_Split t (CHR ''/'')" for t
    using assms(1)
  proof (induction cs)
    case (Cons c cs)
    then show ?case
      by (cases "cs = []") (simp_all add: no_slash_def strings_Split_append_sep strings_Join_Cons_nonempty)
  qed simp
  with d show ?thesis by (simp add: abs_path_def slash_def)
qed

lemma clean_comps_filter: "clean_comps r st (filter (\<lambda>c. c \<noteq> []) cs) = clean_comps r st cs"
proof (induction cs arbitrary: st)
  case (Cons c cs)
  then show ?case by (auto split: list.splits)
qed simp

lemma clean_abs_path:
  assumes "list_all plain_comp cs"
  shows "filepath_Clean (abs_path cs) = abs_path cs"
proof -
  have "clean_comps True [] (strings_Split (abs_path cs) (CHR ''/'')) = cs"
    using clean_comps_plain [OF assms, of True "[]" "[]"]
    by (simp add: Split_abs_path [OF plain_no_slash [OF assms]])
  moreover have "abs_path cs \<noteq> []" by (simp add: abs_path_def slash_def)
  ultimately show ?thesis by (simp add: filepath_Clean_def Let_def) (simp add: abs_path_def)
qed

lemma path_comps_abs_path:
  assumes "list_all plain_comp cs"
  shows "path_comps (abs_path cs) = cs"
proof -
  have "filter (\<lambda>c. c \<noteq> []) cs = cs"
    using assms by (induction cs) (simp_all add: plain_comp_def)
  then show ?thesis by (simp add: path_comps_def Split_abs_path [OF plain_no_slash [OF assms]])
qed

lemma strip_common_split:
  "strip_common bs ts = (bs', ts') \<Longrightarrow> \<exists>cs. bs = cs @ bs' \<and> ts = cs @ ts'"
proof (induction bs ts rule: strip_common.induct)
  case (1 b bs t ts)
  show ?case
  proof (cases "b = t")
    case True
    with 1 obtain cs where "bs = cs @ bs' \<and> ts = cs @ ts'" by auto
    with True have "b # bs = (b # cs) @ bs' \<and> t # ts = (b # cs) @ ts'" by simp
    then show ?thesis by blast
  next
    case False
    with 1 show ?thesis by simp
  qed
qed auto

lemma Join_abs_path:
  assumes "no_slash cs" and "no_slash ds" and "ds \<noteq> []"
  shows "filepath_Join (abs_path cs) (strings_Join ds slash)
    = slash @ strings_Join (clean_comps True [] (cs @ ds)) slash"
proof -
  let ?p = "abs_path cs @ slash @ strings_Join ds slash"
  have "clean_comps True [] (strings_Split ?p (CHR ''/'')) = clean_comps True [] (cs @ ds)"
    using Split_abs_path_append [OF assms]
    by (metis clean_comps_filter)
  moreover have "abs_path cs \<noteq> []" by (simp add: abs_path_def slash_def)
  ultimately show ?thesis by (simp add: filepath_Join_def filepath_Clean_def Let_def)
qed

text \<open>Going from \<open>base\<close> along the relative path to \<open>targ\<close> arrives at \<open>targ\<close>.\<close>

lemma Join_Rel:
  assumes "list_all plain_comp bs" and "list_all plain_comp ts"
  shows "\<exists>r. filepath_Rel (abs_path bs) (abs_path ts) = Some r \<and> r \<noteq> [] \<and> \<not> filepath_IsAbs r
    \<and> filepath_Join (abs_path bs) r = abs_path ts"
proof (cases "abs_path bs = abs_path ts")
  case True
  have "filepath_Join (abs_path bs) (strings_Join [''.''] slash) = abs_path bs"
    using Join_abs_path [OF plain_no_slash [OF assms(1)], of "[''.'']"]
      clean_comps_plain [OF assms(1), of True "[]" "[''.'']"]
    by (simp add: no_slash_def abs_path_def)
  with True show ?thesis
    by (simp add: filepath_Rel_def Let_def) (simp add: filepath_IsAbs_def strings_HasPrefix_def slash_def)
next
  case False
  obtain bs' ts' where s: "strip_common bs ts = (bs', ts')" by fastforce
  then obtain cs where cs: "bs = cs @ bs'" "ts = cs @ ts'" using strip_common_split by blast
  let ?ds = "replicate (length bs') ''..'' @ ts'"
  have ne: "?ds \<noteq> []" using False cs by auto
  have plain: "list_all plain_comp cs" "list_all plain_comp bs'" "list_all plain_comp ts'"
    using assms cs by simp_all
  have ns: "no_slash ?ds" using plain_no_slash [OF plain(3)] by (auto simp: no_slash_def list_all_iff)
  have "clean_comps True [] (bs @ ?ds) = ts"
    using clean_comps_plain [OF assms(1), of True "[]" ?ds]
      clean_comps_up [of "rev bs'" True "rev cs" ts'] clean_comps_plain [OF plain(3), of True "rev cs" "[]"]
      plain cs by simp
  then have "filepath_Join (abs_path bs) (strings_Join ?ds slash) = abs_path ts"
    using Join_abs_path [OF plain_no_slash [OF assms(1)] ns ne] by (simp add: abs_path_def)
  moreover have "strings_Join ?ds slash \<noteq> [] \<and> \<not> filepath_IsAbs (strings_Join ?ds slash)"
  proof -
    obtain d es where d: "?ds = d # es" using ne by (cases ?ds) auto
    then have "d \<noteq> [] \<and> CHR ''/'' \<notin> set d"
      using plain(3) by (cases bs'; cases ts') (auto simp: plain_comp_def)
    then show ?thesis unfolding d
      by (cases es; cases d) (auto simp: filepath_IsAbs_def strings_HasPrefix_def slash_def)
  qed
  moreover have "filepath_Rel (abs_path bs) (abs_path ts) = Some (strings_Join ?ds slash)"
    using False s by (simp add: filepath_Rel_def Let_def clean_abs_path assms path_comps_abs_path)
  ultimately show ?thesis by blast
qed

end
