(* ===== verification/Dns_Msg.thy ===== *)
theory Dns_Msg
  imports Go_Net
begin

text \<open>
  DNS messages as the program sees them: the structures of \<open>github.com/miekg/dns\<close> with the
  fields the source reads or writes, and that library's functions as the parameter \<open>dns_lib\<close>.
  The library is not under \<open>src/\<close>, so nothing is defined for its functions; what the program
  relies on is stated by the predicates \<open>edns0_documented\<close>, \<open>reply_documented\<close> and
  \<open>labels_documented\<close>, each the documented behaviour of one or two functions.

  A message is a value: \<open>Copy\<close>, which the library documents as a deep copy, is the identity
  on values, and a goroutine that works on a copy cannot change the caller's message. Where the
  code mutates a record through a pointer into a message (the OPT record in \<open>ensureECS\<close>), the
  pointer is the index of the record in its section.
\<close>

section \<open>Data\<close>

record rr_header =
  hdr_Name :: string
  hdr_Rrtype :: "16 word"
  hdr_Class :: "16 word"
  hdr_Ttl :: "32 word"

record edns0_subnet =
  sn_Code :: "16 word"
  sn_Family :: "16 word"
  sn_SourceNetmask :: "8 word"
  sn_SourceScope :: "8 word"
  sn_Address :: "ip option"

datatype edns0 = EDNS0_SUBNET edns0_subnet | EDNS0_OTHER "16 word" string

text \<open>A record is a Go interface value; its dynamic type is the constructor.\<close>

datatype rr =
    RR_A rr_header "ip option"
  | RR_AAAA rr_header "ip option"
  | RR_OPT rr_header "edns0 list"
  | RR_Other rr_header string

record question =
  q_Name :: string
  q_Qtype :: "16 word"
  q_Qclass :: "16 word"

record msg =
  Id :: "16 word"
  Response :: bool
  Truncated :: bool
  RecursionDesired :: bool
  CheckingDisabled :: bool
  OtherFlags :: "16 word"
  Rcode :: int
  Question :: "question list"
  Answer :: "rr list"
  Ns :: "rr list"
  Extra :: "rr list"

definition TypeA :: "16 word" where "TypeA = 1"
definition TypeAAAA :: "16 word" where "TypeAAAA = 28"
definition TypeOPT :: "16 word" where "TypeOPT = 41"
definition TypeSVCB :: "16 word" where "TypeSVCB = 64"
definition TypeHTTPS :: "16 word" where "TypeHTTPS = 65"
definition TypeANY :: "16 word" where "TypeANY = 255"
definition ClassINET :: "16 word" where "ClassINET = 1"
definition EDNS0SUBNET :: "16 word" where "EDNS0SUBNET = 8"
definition RcodeSuccess :: int where "RcodeSuccess = 0"
definition RcodeServerFailure :: int where "RcodeServerFailure = 2"
definition RcodeNameError :: int where "RcodeNameError = 3"

lemmas dns_consts = TypeA_def TypeAAAA_def TypeOPT_def TypeSVCB_def TypeHTTPS_def TypeANY_def
  ClassINET_def EDNS0SUBNET_def RcodeSuccess_def RcodeServerFailure_def RcodeNameError_def

fun rr_Header :: "rr \<Rightarrow> rr_header" where
  "rr_Header (RR_A h _) = h"
| "rr_Header (RR_AAAA h _) = h"
| "rr_Header (RR_OPT h _) = h"
| "rr_Header (RR_Other h _) = h"

fun set_rr_Header :: "rr_header \<Rightarrow> rr \<Rightarrow> rr" where
  "set_rr_Header h (RR_A _ a) = RR_A h a"
| "set_rr_Header h (RR_AAAA _ a) = RR_AAAA h a"
| "set_rr_Header h (RR_OPT _ os) = RR_OPT h os"
| "set_rr_Header h (RR_Other _ d) = RR_Other h d"

lemma rr_Header_set [simp]: "rr_Header (set_rr_Header h r) = h"
  by (cases r) simp_all

lemma set_rr_Header_idem [simp]: "set_rr_Header h (set_rr_Header h' r) = set_rr_Header h r"
  by (cases r) simp_all

text \<open>\<open>o.Option()\<close>: the option code. A subnet option reports \<open>EDNS0SUBNET\<close>.\<close>

fun edns0_Option :: "edns0 \<Rightarrow> 16 word" where
  "edns0_Option (EDNS0_SUBNET _) = EDNS0SUBNET"
| "edns0_Option (EDNS0_OTHER code _) = code"

fun is_opt_rr :: "rr \<Rightarrow> bool" where
  "is_opt_rr (RR_OPT _ _) = True"
| "is_opt_rr _ = False"

section \<open>The library\<close>

text \<open>
  \<open>lib_SetQuestion\<close> is \<open>new(dns.Msg)\<close> followed by \<open>SetQuestion\<close>; \<open>lib_SetReply\<close> and
  \<open>lib_SetRcode\<close> likewise start from a new message. \<open>lib_IsEdns0\<close> returns the index in
  \<open>Extra\<close> of the OPT record it finds.
\<close>

record dns_lib =
  lib_SetQuestion :: "string \<Rightarrow> 16 word \<Rightarrow> msg"
  lib_SetReply :: "msg \<Rightarrow> msg"
  lib_SetRcode :: "msg \<Rightarrow> int \<Rightarrow> msg"
  lib_IsEdns0 :: "msg \<Rightarrow> nat option"
  lib_SetEdns0 :: "msg \<Rightarrow> 16 word \<Rightarrow> bool \<Rightarrow> msg"
  lib_UDPSize :: "rr \<Rightarrow> 16 word"
  lib_Do :: "rr \<Rightarrow> bool"
  lib_Fqdn :: "string \<Rightarrow> string"
  lib_SplitDomainName :: "string \<Rightarrow> string list"
  lib_rrString :: "rr \<Rightarrow> string"
  lib_TypeString :: "16 word \<Rightarrow> string"
  lib_RcodeToString :: "int \<Rightarrow> string"

text \<open>
  \<open>IsEdns0\<close>: "checks if the message has a EDNS0 (OPT) record, returns it or nil";
  \<open>SetEdns0\<close>: "appends a EDNS0 OPT RR to the message".
\<close>

definition edns0_documented :: "dns_lib \<Rightarrow> bool" where
  "edns0_documented L \<longleftrightarrow>
     (\<forall>m i. lib_IsEdns0 L m = Some i \<longrightarrow> i < length (Extra m) \<and> is_opt_rr (Extra m ! i)) \<and>
     (\<forall>m. lib_IsEdns0 L m = None \<longleftrightarrow> \<not> list_ex is_opt_rr (Extra m)) \<and>
     (\<forall>m sz dobit. \<exists>h. lib_SetEdns0 L m sz dobit = m\<lparr>Extra := Extra m @ [RR_OPT h []]\<rparr>)"

text \<open>\<open>SetReply\<close>: "creates a reply message from a request message".\<close>

definition reply_documented :: "dns_lib \<Rightarrow> bool" where
  "reply_documented L \<longleftrightarrow>
     (\<forall>req. Id (lib_SetReply L req) = Id req \<and> Rcode (lib_SetReply L req) = RcodeSuccess
        \<and> Response (lib_SetReply L req) \<and> Answer (lib_SetReply L req) = []
        \<and> Ns (lib_SetReply L req) = [] \<and> Extra (lib_SetReply L req) = []) \<and>
     (\<forall>req rc. Id (lib_SetRcode L req rc) = Id req \<and> Rcode (lib_SetRcode L req rc) = rc
        \<and> Response (lib_SetRcode L req rc))"

text \<open>
  \<open>SplitDomainName\<close>: "splits a name string into it's labels, www.miek.nl. returns
  []string{"www", "miek", "nl"}". For a name without escapes the labels are the parts between
  the dots; the root has none.
\<close>

definition labels_documented :: "dns_lib \<Rightarrow> bool" where
  "labels_documented L \<longleftrightarrow>
     (\<forall>s. s \<noteq> [] \<longrightarrow> CHR 0x5C \<notin> set s \<longrightarrow> \<not> suffix ''.'' s
        \<longrightarrow> lib_SplitDomainName L s = strings_Split s (CHR ''.''))"

section \<open>A sample library\<close>

text \<open>
  One concrete library with the documented behaviour, on which the witnesses evaluate. No
  theorem about the program rests on it.
\<close>

definition blank_msg :: msg where
  "blank_msg = \<lparr>Id = 0, Response = False, Truncated = False, RecursionDesired = False,
     CheckingDisabled = False, OtherFlags = 0, Rcode = 0, Question = [], Answer = [], Ns = [],
     Extra = []\<rparr>"

fun last_opt_index :: "rr list \<Rightarrow> nat option" where
  "last_opt_index [] = None"
| "last_opt_index (r # rs) =
     (case last_opt_index rs of
        Some i \<Rightarrow> Some (Suc i)
      | None \<Rightarrow> if is_opt_rr r then Some 0 else None)"

definition sample_opt_header :: "16 word \<Rightarrow> bool \<Rightarrow> rr_header" where
  "sample_opt_header sz dobit =
     \<lparr>hdr_Name = ''.'', hdr_Rrtype = TypeOPT, hdr_Class = sz,
      hdr_Ttl = (if dobit then 32768 else 0)\<rparr>"

definition sample_lib :: dns_lib where
  "sample_lib = \<lparr>
     lib_SetQuestion = (\<lambda>n t. blank_msg\<lparr>RecursionDesired := True,
        Question := [\<lparr>q_Name = n, q_Qtype = t, q_Qclass = ClassINET\<rparr>]\<rparr>),
     lib_SetReply = (\<lambda>req. blank_msg\<lparr>Id := Id req, Response := True,
        RecursionDesired := RecursionDesired req, Question := take 1 (Question req)\<rparr>),
     lib_SetRcode = (\<lambda>req rc. blank_msg\<lparr>Id := Id req, Response := True, Rcode := rc,
        RecursionDesired := RecursionDesired req, Question := take 1 (Question req)\<rparr>),
     lib_IsEdns0 = (\<lambda>m. last_opt_index (Extra m)),
     lib_SetEdns0 = (\<lambda>m sz dobit. m\<lparr>Extra := Extra m @ [RR_OPT (sample_opt_header sz dobit) []]\<rparr>),
     lib_UDPSize = (\<lambda>r. hdr_Class (rr_Header r)),
     lib_Do = (\<lambda>r. bit (hdr_Ttl (rr_Header r)) 15),
     lib_Fqdn = (\<lambda>s. if suffix ''.'' s then s else s @ ''.''),
     lib_SplitDomainName = (\<lambda>s. strings_Split s (CHR ''.'')),
     lib_rrString = (\<lambda>r. case r of RR_Other _ d \<Rightarrow> d | _ \<Rightarrow> []),
     lib_TypeString = (\<lambda>t. dec_string (unat t)),
     lib_RcodeToString = (\<lambda>rc. if rc = 0 then ''NOERROR'' else if rc = 3 then ''NXDOMAIN'' else [])\<rparr>"

lemma last_opt_index_Some:
  "last_opt_index rs = Some i \<Longrightarrow> i < length rs \<and> is_opt_rr (rs ! i)"
  by (induction rs arbitrary: i) (auto split: option.splits if_splits)

lemma last_opt_index_None: "last_opt_index rs = None \<longleftrightarrow> \<not> list_ex is_opt_rr rs"
  by (induction rs) (auto split: option.splits)

lemma sample_edns0_documented: "edns0_documented sample_lib"
  using last_opt_index_Some last_opt_index_None
  by (auto simp: edns0_documented_def sample_lib_def)

lemma sample_reply_documented: "reply_documented sample_lib"
  by (simp add: reply_documented_def sample_lib_def blank_msg_def RcodeSuccess_def)

lemma sample_labels_documented: "labels_documented sample_lib"
  by (simp add: labels_documented_def sample_lib_def)

end
