(* ===== verification/Race.thy ===== *)
theory Race
  imports Dns_Msg "HOL-Library.Multiset"
begin

text \<open>
  \<open>internal/client/resolver.go\<close>: \<open>RaceResolve\<close> sends a copy of the request to every upstream
  of a group at once and takes the best answer.

  Each upstream goroutine sends exactly one result into the buffered channel. What the select
  loop sees is the order in which results arrive and the moment the caller's context ends: a
  list of events. The end of the list is the five second timer, which the runtime always
  fires; so the loop always returns, and a list in which some upstream never arrives stands
  for an upstream that is slower than the timer.
\<close>

section \<open>The select loop\<close>

type_synonym dns_client = "msg \<Rightarrow> msg result"

datatype race_event = Arrive nat | CtxDone goerr

definition err_no_clients :: goerr where "err_no_clients = Errorf ''no upstream client'' []"
definition err_nil_response :: goerr where "err_nil_response = Errorf ''upstream returned an empty response'' []"
definition err_race_timeout :: goerr where "err_race_timeout = Errorf ''concurrent query timed out'' []"
definition err_unknown :: goerr where "err_unknown = Errorf ''unknown error: no response received'' []"

fun race_loop :: "(nat \<Rightarrow> msg result) \<Rightarrow> nat \<Rightarrow> msg option \<Rightarrow> goerr option \<Rightarrow> race_event list \<Rightarrow> msg result"
where
  "race_loop ans 0 bestFail lastErr evs =
     (case bestFail of
        Some m \<Rightarrow> (Some m, None)
      | None \<Rightarrow>
          (case lastErr of
             Some e \<Rightarrow> (None, Some (Wrapf ''all upstream queries failed'' e))
           | None \<Rightarrow> (None, Some err_unknown)))"
| "race_loop ans (Suc k) bestFail lastErr [] =
     (case bestFail of
        Some m \<Rightarrow> (Some m, None)
      | None \<Rightarrow> (None, Some err_race_timeout))"
| "race_loop ans (Suc k) bestFail lastErr (CtxDone e # evs) = (None, Some e)"
| "race_loop ans (Suc k) bestFail lastErr (Arrive i # evs) =
     (case ans i of
        (_, Some e) \<Rightarrow> race_loop ans k bestFail (Some e) evs
      | (None, None) \<Rightarrow> race_loop ans k bestFail (Some err_nil_response) evs
      | (Some m, None) \<Rightarrow>
          if Rcode m = RcodeSuccess then (Some m, None)
          else race_loop ans k (case bestFail of None \<Rightarrow> Some m | Some b \<Rightarrow> Some b) lastErr evs)"

definition RaceResolve :: "race_event list \<Rightarrow> msg \<Rightarrow> dns_client list \<Rightarrow> msg result" where
  "RaceResolve evs req clients =
     (if clients = [] then (None, Some err_no_clients)
      else race_loop (\<lambda>i. (clients ! i) req) (length clients) None None evs)"

text \<open>
  The schedules the channel can produce: every index is a client's and none sends twice; a
  context error is never nil, which the type already says.
\<close>

fun arrivals :: "race_event list \<Rightarrow> nat list" where
  "arrivals [] = []"
| "arrivals (Arrive i # evs) = i # arrivals evs"
| "arrivals (CtxDone e # evs) = arrivals evs"

definition valid_schedule :: "nat \<Rightarrow> race_event list \<Rightarrow> bool" where
  "valid_schedule n evs \<longleftrightarrow> distinct (arrivals evs) \<and> list_all (\<lambda>i. i < n) (arrivals evs)"

section \<open>What a race promises\<close>

text \<open>
  An abstract account of a race in which every upstream is heard: the first NOERROR wins; with
  none, the first other response; with none, an error that wraps the last failure.
\<close>

fun is_success :: "msg result \<Rightarrow> bool" where
  "is_success (Some m, None) = (Rcode m = RcodeSuccess)"
| "is_success _ = False"

fun is_response :: "msg result \<Rightarrow> bool" where
  "is_response (Some m, None) = True"
| "is_response _ = False"

fun failure_of :: "msg result \<Rightarrow> goerr" where
  "failure_of (_, Some e) = e"
| "failure_of (_, None) = err_nil_response"

definition race_spec :: "msg result list \<Rightarrow> msg result" where
  "race_spec rs =
     (case find is_success rs of
        Some r \<Rightarrow> r
      | None \<Rightarrow>
          (case find is_response rs of
             Some r \<Rightarrow> r
           | None \<Rightarrow> (None, Some (Wrapf ''all upstream queries failed'' (failure_of (last rs))))))"

text \<open>A result a caller can use: a response or an error, never both and never neither.\<close>

definition decided :: "msg result \<Rightarrow> bool" where
  "decided r \<longleftrightarrow> (fst r = None) = (snd r \<noteq> None)"

lemma decided_simps [simp]: "decided (Some m, None)" "decided (None, Some e)" "\<not> decided (None, None)"
  "\<not> decided (Some m, Some e)"
  by (simp_all add: decided_def)

lemma race_loop_decided: "decided (race_loop ans k bestFail lastErr evs)"
  by (induction ans k bestFail lastErr evs rule: race_loop.induct)
    (auto split: option.splits prod.splits)

lemma RaceResolve_decided: "decided (RaceResolve evs req clients)"
  by (simp add: RaceResolve_def race_loop_decided)

lemma race_loop_Arrive:
  "race_loop ans (Suc k) bestFail lastErr (Arrive i # evs) =
     (if is_success (ans i) then ans i
      else if is_response (ans i)
      then race_loop ans k (case bestFail of None \<Rightarrow> fst (ans i) | Some b \<Rightarrow> Some b) lastErr evs
      else race_loop ans k bestFail (Some (failure_of (ans i))) evs)"
  by (cases "ans i" rule: is_success.cases) (auto split: option.splits)

declare race_loop.simps(4) [simp del]
declare race_loop_Arrive [simp]

text \<open>Nothing but the first NOERROR ends the race while arrivals go on.\<close>

lemma race_loop_skip:
  assumes "list_all (\<lambda>i. \<not> is_success (ans i)) is" and "length is < k"
  shows "race_loop ans k bestFail lastErr (map Arrive is @ Arrive j # evs) = ans j
         \<or> \<not> is_success (ans j)"
  using assms
proof (induction "is" arbitrary: k bestFail lastErr)
  case Nil
  then show ?case by (cases k) auto
next
  case (Cons i "is")
  then obtain k' where k: "k = Suc k'" by (cases k) auto
  with Cons.prems have "length is < k'" and "list_all (\<lambda>i. \<not> is_success (ans i)) is" by auto
  from Cons.IH [OF this(2,1)] Cons.prems k show ?case by auto
qed

lemma race_loop_all:
  assumes "k = length is"
  shows "race_loop ans k bestFail lastErr (map Arrive is) =
     (case find is_success (map ans is) of
        Some r \<Rightarrow> r
      | None \<Rightarrow>
          (case bestFail of Some b \<Rightarrow> (Some b, None) | None \<Rightarrow>
          (case find is_response (map ans is) of
             Some r \<Rightarrow> r
           | None \<Rightarrow>
              (case (if is = [] then lastErr else Some (failure_of (ans (last is)))) of
                 Some e \<Rightarrow> (None, Some (Wrapf ''all upstream queries failed'' e))
               | None \<Rightarrow> (None, Some err_unknown)))))"
  using assms
proof (induction "is" arbitrary: k bestFail lastErr)
  case Nil
  then show ?case by (auto split: option.splits)
next
  case (Cons i "is")
  have resp: "is_response (ans i) \<Longrightarrow> \<exists>m. ans i = (Some m, None)"
    by (cases "ans i" rule: is_response.cases) auto
  show ?case
  proof (cases "is_success (ans i)")
    case True
    with Cons.prems show ?thesis by simp
  next
    case ns: False
    show ?thesis
    proof (cases "is_response (ans i)")
      case True
      with resp obtain m where "ans i = (Some m, None)" by blast
      with ns True Cons show ?thesis by (auto split: option.splits)
    next
      case False
      with ns Cons show ?thesis by (auto split: option.splits)
    qed
  qed
qed

lemma race_loop_answer:
  assumes "race_loop ans k bestFail lastErr evs = (Some m, None)"
  shows "bestFail = Some m \<or> (\<exists>i \<in> set (arrivals evs). ans i = (Some m, None))"
  using assms
proof (induction evs arbitrary: k bestFail lastErr)
  case Nil
  then show ?case by (cases k) (auto split: option.splits)
next
  case (Cons e evs)
  show ?case
  proof (cases k)
    case 0
    with Cons.prems show ?thesis by (auto split: option.splits)
  next
    case (Suc k')
    show ?thesis
    proof (cases e)
      case (CtxDone err)
      with Suc Cons.prems show ?thesis by simp
    next
      case (Arrive i)
      have resp: "is_response (ans i) \<Longrightarrow> ans i = (fst (ans i), None)"
        by (cases "ans i" rule: is_response.cases) auto
      show ?thesis
      proof (cases "is_success (ans i)")
        case True
        with Arrive Suc Cons.prems show ?thesis by auto
      next
        case False
        show ?thesis
        proof (cases "is_response (ans i)")
          case True
          with False Arrive Suc Cons.prems
          have "race_loop ans k' (case bestFail of None \<Rightarrow> fst (ans i) | Some b \<Rightarrow> Some b) lastErr evs = (Some m, None)"
            by simp
          from Cons.IH [OF this] resp [OF True] Arrive show ?thesis
            by (cases bestFail) auto
        next
          case nr: False
          with False Arrive Suc Cons.prems
          have "race_loop ans k' bestFail (Some (failure_of (ans i))) evs = (Some m, None)"
            by simp
          from Cons.IH [OF this] Arrive show ?thesis by auto
        qed
      qed
    qed
  qed
qed

lemma arrivals_append [simp]: "arrivals (xs @ ys) = arrivals xs @ arrivals ys"
  by (induction xs rule: arrivals.induct) auto

lemma arrivals_map_Arrive [simp]: "arrivals (map Arrive is) = is"
  by (induction "is") auto

lemma find_is_success_Some: "find is_success rs = Some r \<Longrightarrow> is_success r \<and> r \<in> set rs"
  by (auto simp: find_Some_iff)

lemma length_valid: "valid_schedule n evs \<Longrightarrow> length (arrivals evs) \<le> n"
proof -
  assume v: "valid_schedule n evs"
  then have "set (arrivals evs) \<subseteq> {..<n}" by (auto simp: valid_schedule_def list_all_iff)
  then have "card (set (arrivals evs)) \<le> n" using card_mono [of "{..<n}"] by fastforce
  with v show ?thesis by (simp add: valid_schedule_def distinct_card)
qed

lemma race_all_heard:
  assumes "mset is = mset [0..<length clients]" and "clients \<noteq> []"
  shows "RaceResolve (map Arrive is) req clients = race_spec (map (\<lambda>i. (clients ! i) req) is)"
proof -
  from assms(1) have len: "length clients = length is"
    by (metis length_upt minus_nat.diff_0 size_mset)
  with assms(2) have ne: "is \<noteq> []" by auto
  have "failure_of (last (map (\<lambda>i. (clients ! i) req) is)) = failure_of ((clients ! last is) req)"
    using ne by (simp add: last_map)
  with ne assms(2) show ?thesis
    by (simp add: RaceResolve_def race_loop_all [OF len] race_spec_def split: option.splits)
qed

section \<open>Properties\<close>

text \<open>
  A race never hands its caller \<open>(nil, nil)\<close> and never both a response and an error,
  whatever the upstreams answer (even \<open>(nil, nil)\<close>) and in whatever order: exactly one of
  the two components is non-nil.
\<close>

theorem race_never_nil_nil:
  "(fst (RaceResolve evs req clients) = None) = (snd (RaceResolve evs req clients) \<noteq> None)"
  using RaceResolve_decided by (simp add: decided_def)

text \<open>
  The first NOERROR to arrive wins: if no upstream heard before it answered NOERROR, no
  matter how many NXDOMAIN, SERVFAIL, empty or failed results came first, the race returns that
  upstream's response, and nothing that arrives afterwards matters.
\<close>

theorem race_first_success_wins:
  assumes "valid_schedule (length clients) (map Arrive is @ Arrive j # evs)"
    and "list_all (\<lambda>i. \<not> is_success ((clients ! i) req)) is"
    and "(clients ! j) req = (Some m, None)" and "Rcode m = RcodeSuccess"
  shows "RaceResolve (map Arrive is @ Arrive j # evs) req clients = (Some m, None)"
proof -
  from length_valid [OF assms(1)] have len: "length is < length clients" by simp
  then have "clients \<noteq> []" by auto
  moreover have "is_success ((clients ! j) req)" using assms(3,4) by simp
  ultimately show ?thesis
    using race_loop_skip [of "\<lambda>i. (clients ! i) req", OF assms(2) len, of None None j evs] assms(3)
    by (auto simp: RaceResolve_def)
qed

text \<open>
  C4: When every upstream is heard before the timer and before the caller gives up, the select
  loop computes the specification of a race on the results in their order of arrival: the first
  NOERROR, else the first other response, else an error wrapping the last failure.
\<close>

theorem race_refines_spec:
  assumes "mset is = mset [0..<length clients]" and "clients \<noteq> []"
  shows "RaceResolve (map Arrive is) req clients = race_spec (map (\<lambda>i. (clients ! i) req) is)"
  using assms by (rule race_all_heard)

text \<open>
  The order of arrival cannot turn a success into a failure: if all upstreams are heard and
  at least one answered NOERROR, every order of arrival yields a NOERROR response. A fast
  SERVFAIL never pre-empts a slower correct answer.
\<close>

theorem race_success_in_any_order:
  assumes "mset is = mset [0..<length clients]"
    and "c \<in> set clients" and "is_success (c req)"
  shows "is_success (RaceResolve (map Arrive is) req clients)"
proof -
  from assms(2) have ne: "clients \<noteq> []" by auto
  from assms(2) obtain i where i: "i < length clients" "clients ! i = c"
    by (auto simp: in_set_conv_nth)
  from assms(1) have "set is = {0..<length clients}" by (metis set_mset_mset set_upt)
  with i have "i \<in> set is" by simp
  with i assms(3) have "\<exists>r \<in> set (map (\<lambda>i. (clients ! i) req) is). is_success r" by auto
  then have "find is_success (map (\<lambda>i. (clients ! i) req) is) \<noteq> None"
    by (auto simp: find_None_iff)
  then show ?thesis
    by (auto simp: race_all_heard [OF assms(1) ne] race_spec_def
        dest: find_is_success_Some)
qed

text \<open>
  A race invents no answer: a response it returns is the response one of the upstreams of
  the group gave to a copy of the very request.
\<close>

theorem race_answer_is_an_upstreams:
  assumes "valid_schedule (length clients) evs"
    and "RaceResolve evs req clients = (Some m, None)"
  shows "\<exists>c. c \<in> set clients \<and> c req = (Some m, None)"
proof -
  from assms(2) have "clients \<noteq> []"
    and "race_loop (\<lambda>i. (clients ! i) req) (length clients) None None evs = (Some m, None)"
    by (auto simp: RaceResolve_def split: if_splits)
  from race_loop_answer [OF this(2)] obtain i
    where "i \<in> set (arrivals evs)" "(clients ! i) req = (Some m, None)" by auto
  moreover from this(1) assms(1) have "i < length clients"
    by (simp add: valid_schedule_def list_all_iff)
  ultimately show ?thesis by (metis nth_mem)
qed

section \<open>Witnesses\<close>

text \<open>Three upstreams: one fails, one answers SERVFAIL, one answers NOERROR.\<close>

definition sample_ok :: msg where "sample_ok = blank_msg\<lparr>Id := 7\<rparr>"
definition sample_servfail :: msg where "sample_servfail = blank_msg\<lparr>Id := 7, Rcode := RcodeServerFailure\<rparr>"

definition sample_clients :: "dns_client list" where
  "sample_clients = [(\<lambda>_. (None, Some (Errorf ''refused'' []))), (\<lambda>_. (Some sample_servfail, None)),
     (\<lambda>_. (Some sample_ok, None))]"

lemma sample_clients_simps:
  "length sample_clients = 3"
  "(sample_clients ! 0) req = (None, Some (Errorf ''refused'' []))"
  "(sample_clients ! 1) req = (Some sample_servfail, None)"
  "(sample_clients ! 2) req = (Some sample_ok, None)"
  "Rcode sample_ok = RcodeSuccess" "Rcode sample_servfail = RcodeServerFailure"
  by (simp_all add: sample_clients_def sample_ok_def sample_servfail_def blank_msg_def RcodeSuccess_def)

lemma sample_is_success:
  "\<not> is_success ((sample_clients ! 0) req)" "\<not> is_success ((sample_clients ! 1) req)"
  "is_success ((sample_clients ! 2) req)"
  using sample_clients_simps(2-6) by (simp_all add: dns_consts)

lemma sample_order: "mset [1, 0, 2] = mset [0..<length sample_clients]"
  by (simp add: sample_clients_simps(1) upt_rec)

theorem race_first_success_wins_witness:
  "RaceResolve (map Arrive [1, 0] @ [Arrive 2]) blank_msg sample_clients = (Some sample_ok, None)"
proof (rule race_first_success_wins)
  show "valid_schedule (length sample_clients) (map Arrive [1, 0] @ [Arrive 2])"
    by (simp add: valid_schedule_def sample_clients_simps(1))
  show "list_all (\<lambda>i. \<not> is_success ((sample_clients ! i) blank_msg)) [1, 0]"
    using sample_is_success by simp
qed (use sample_clients_simps in simp_all)

theorem race_refines_spec_witness:
  "RaceResolve (map Arrive [1, 0, 2]) blank_msg sample_clients
     = race_spec (map (\<lambda>i. (sample_clients ! i) blank_msg) [1, 0, 2])"
  by (rule race_refines_spec [OF sample_order]) (simp add: sample_clients_def)

theorem race_success_in_any_order_witness:
  "is_success (RaceResolve (map Arrive [1, 0, 2]) blank_msg sample_clients)"
  by (rule race_success_in_any_order [OF sample_order, of "sample_clients ! 2"])
    (use sample_is_success sample_clients_simps(1) in auto)

theorem race_answer_is_an_upstreams_witness:
  "\<exists>c. c \<in> set sample_clients \<and> c blank_msg = (Some sample_servfail, None)"
proof (rule race_answer_is_an_upstreams)
  show "valid_schedule (length sample_clients) [Arrive 0, Arrive 1]"
    by (simp add: valid_schedule_def sample_clients_simps(1))
  have "RaceResolve [Arrive 0, Arrive 1] blank_msg sample_clients
      = race_loop (\<lambda>i. (sample_clients ! i) blank_msg) (Suc (Suc (Suc 0))) None None [Arrive 0, Arrive 1]"
    by (simp add: RaceResolve_def sample_clients_def)
  then show "RaceResolve [Arrive 0, Arrive 1] blank_msg sample_clients = (Some sample_servfail, None)"
    using sample_is_success sample_clients_simps(2-6) by (simp add: dns_consts)
qed

end
