(* ===== verification/Ecs.thy ===== *)
theory Ecs
  imports Dns_Msg
begin

text \<open>
  EDNS client subnet: \<open>ensureECS\<close> of \<open>internal/client/client.go\<close>, which every upstream client
  applies to the request it is about to send, and \<open>ExtractECS\<close>, \<open>formatECS\<close> of
  \<open>internal/client/ecs.go\<close>, which render the subnet a downstream client sent for the query log.
\<close>

section \<open>Model\<close>

fun opt_options :: "rr \<Rightarrow> edns0 list" where
  "opt_options (RR_OPT _ os) = os"
| "opt_options _ = []"

fun set_opt_options :: "edns0 list \<Rightarrow> rr \<Rightarrow> rr" where
  "set_opt_options os (RR_OPT h _) = RR_OPT h os"
| "set_opt_options os r = r"

text \<open>The option \<open>ensureECS\<close> appends: /24 of an IPv4 address, /56 of an IPv6 address.\<close>

definition ecs_subnet :: "ip \<Rightarrow> edns0_subnet" where
  "ecs_subnet x =
     (case ip_To4 x of
        Some x4 \<Rightarrow> \<lparr>sn_Code = EDNS0SUBNET, sn_Family = 1, sn_SourceNetmask = 24,
                     sn_SourceScope = 0, sn_Address = Some x4\<rparr>
      | None \<Rightarrow> \<lparr>sn_Code = EDNS0SUBNET, sn_Family = 2, sn_SourceNetmask = 56,
                  sn_SourceScope = 0, sn_Address = Some x\<rparr>)"

definition without_subnets :: "edns0 list \<Rightarrow> edns0 list" where
  "without_subnets os = filter (\<lambda>opt. edns0_Option opt \<noteq> EDNS0SUBNET) os"

definition ensureECS :: "dns_lib \<Rightarrow> msg \<Rightarrow> string \<Rightarrow> msg" where
  "ensureECS L req ecsIP =
     (if ecsIP = [] then req
      else (case net_ParseIP ecsIP of
        None \<Rightarrow> req
      | Some x \<Rightarrow>
          (let req1 = (case lib_IsEdns0 L req of None \<Rightarrow> lib_SetEdns0 L req 4096 False | Some _ \<Rightarrow> req) in
           case lib_IsEdns0 L req1 of
             None \<Rightarrow> req1
           | Some i \<Rightarrow>
               (let newOptions = without_subnets (opt_options (Extra req1 ! i)) @ [EDNS0_SUBNET (ecs_subnet x)]
                in req1\<lparr>Extra := (Extra req1)[i := set_opt_options newOptions (Extra req1 ! i)]\<rparr>))))"

definition formatECS :: "edns0_subnet \<Rightarrow> string" where
  "formatECS sn =
     (case sn_Address sn of
        None \<Rightarrow> []
      | Some x \<Rightarrow>
          (let (x', bits) = (case ip_To4 x of Some x4 \<Rightarrow> (x4, 32) | None \<Rightarrow> (x, 128));
               p = (if bits < uint (sn_SourceNetmask sn) then bits else uint (sn_SourceNetmask sn))
           in case ip_Mask x' (net_CIDRMask p bits) of
                None \<Rightarrow> ip_String x'
              | Some masked \<Rightarrow> ip_String masked @ ''/'' @ strconv_Itoa p))"

fun first_subnet :: "edns0 list \<Rightarrow> edns0_subnet option" where
  "first_subnet [] = None"
| "first_subnet (EDNS0_SUBNET sn # os) = Some sn"
| "first_subnet (EDNS0_OTHER _ _ # os) = first_subnet os"

definition ExtractECS :: "dns_lib \<Rightarrow> msg \<Rightarrow> string" where
  "ExtractECS L req =
     (case lib_IsEdns0 L req of
        None \<Rightarrow> []
      | Some i \<Rightarrow>
          (case first_subnet (opt_options (Extra req ! i)) of
             None \<Rightarrow> []
           | Some sn \<Rightarrow> formatECS sn))"

section \<open>Lemmas\<close>

lemma opt_options_set [simp]: "is_opt_rr r \<Longrightarrow> opt_options (set_opt_options os r) = os"
  by (cases r) auto

lemma is_opt_set [simp]: "is_opt_rr (set_opt_options os r) = is_opt_rr r"
  by (cases r) auto

lemma set_opt_options_twice [simp]: "set_opt_options os (set_opt_options os' r) = set_opt_options os r"
  by (cases r) auto

lemma without_subnets_no_subnet: "opt \<in> set (without_subnets os) \<Longrightarrow> edns0_Option opt \<noteq> EDNS0SUBNET"
  by (simp add: without_subnets_def)

lemma without_subnets_idem [simp]: "without_subnets (without_subnets os) = without_subnets os"
  by (simp add: without_subnets_def)

lemma without_subnets_append_subnet [simp]:
  "without_subnets (os @ [EDNS0_SUBNET sn]) = without_subnets os"
  by (simp add: without_subnets_def)

lemma first_subnet_without: "first_subnet (without_subnets os @ [EDNS0_SUBNET sn]) = Some sn"
proof (induction os)
  case Nil
  then show ?case by (simp add: without_subnets_def)
next
  case (Cons opt os)
  then show ?case by (cases opt) (simp_all add: without_subnets_def)
qed

text \<open>The request \<open>ensureECS\<close> works on once it has made sure that there is an OPT record.\<close>

definition with_opt :: "dns_lib \<Rightarrow> msg \<Rightarrow> msg" where
  "with_opt L req = (case lib_IsEdns0 L req of None \<Rightarrow> lib_SetEdns0 L req 4096 False | Some _ \<Rightarrow> req)"

lemma with_opt_index:
  assumes "edns0_documented L"
  obtains i where "lib_IsEdns0 L (with_opt L req) = Some i" "i < length (Extra (with_opt L req))"
    "is_opt_rr (Extra (with_opt L req) ! i)"
proof -
  have "lib_IsEdns0 L (with_opt L req) \<noteq> None"
  proof (cases "lib_IsEdns0 L req")
    case None
    from assms obtain h where "lib_SetEdns0 L req 4096 False = req\<lparr>Extra := Extra req @ [RR_OPT h []]\<rparr>"
      unfolding edns0_documented_def by blast
    then have "list_ex is_opt_rr (Extra (with_opt L req))" using None by (simp add: with_opt_def)
    with assms show ?thesis unfolding edns0_documented_def by blast
  next
    case (Some i)
    then show ?thesis by (simp add: with_opt_def)
  qed
  with assms that show thesis unfolding edns0_documented_def by blast
qed

lemma ensureECS_eq:
  assumes "net_ParseIP ecsIP = Some x" and "lib_IsEdns0 L (with_opt L req) = Some i"
  shows "ensureECS L req ecsIP =
     (let r = with_opt L req in
      r\<lparr>Extra := (Extra r)[i := set_opt_options
         (without_subnets (opt_options (Extra r ! i)) @ [EDNS0_SUBNET (ecs_subnet x)]) (Extra r ! i)]\<rparr>)"
proof -
  from assms(1) have "ecsIP \<noteq> []" by (auto simp: net_ParseIP_def)
  with assms show ?thesis by (simp add: ensureECS_def with_opt_def Let_def)
qed

text \<open>With at most one OPT record, as RFC 6891 demands, the index of the OPT record is unique.\<close>

definition one_opt :: "msg \<Rightarrow> bool" where
  "one_opt m \<longleftrightarrow> length (filter is_opt_rr (Extra m)) \<le> 1"

lemma one_opt_unique:
  "length (filter P xs) \<le> 1 \<Longrightarrow> i < length xs \<Longrightarrow> j < length xs \<Longrightarrow> P (xs ! i) \<Longrightarrow> P (xs ! j) \<Longrightarrow> i = j"
proof -
  assume len: "length (filter P xs) \<le> 1" and ij: "i < length xs" "j < length xs" "P (xs ! i)" "P (xs ! j)"
  let ?S = "{k. k < length xs \<and> P (xs ! k)}"
  from len have "card ?S \<le> Suc 0" by (simp add: length_filter_conv_card)
  moreover have "finite ?S" by simp
  moreover have "i \<in> ?S" "j \<in> ?S" using ij by auto
  ultimately show "i = j" using card_le_Suc0_iff_eq by blast
qed

lemma is_opt_list_update:
  "i < length xs \<Longrightarrow> is_opt_rr (xs ! i) \<Longrightarrow> is_opt_rr y \<Longrightarrow>
     map is_opt_rr (xs[i := y]) = map is_opt_rr xs"
  by (simp add: map_update list_update_same_conv)

lemma IsEdns0_same_index:
  assumes "edns0_documented L" "one_opt m" "map is_opt_rr (Extra m') = map is_opt_rr (Extra m)"
    and "lib_IsEdns0 L m = Some i"
  shows "lib_IsEdns0 L m' = Some i"
proof -
  have len: "length (Extra m') = length (Extra m)" using assms(3) by (metis length_map)
  have opt: "is_opt_rr (Extra m' ! k) = is_opt_rr (Extra m ! k)" if "k < length (Extra m)" for k
    using assms(3) that len by (metis nth_map)
  from assms(1,4) have i: "i < length (Extra m)" "is_opt_rr (Extra m ! i)"
    unfolding edns0_documented_def by blast+
  with opt len have "list_ex is_opt_rr (Extra m')" by (metis list_ex_iff nth_mem)
  with assms(1) obtain j where j: "lib_IsEdns0 L m' = Some j"
    unfolding edns0_documented_def by blast
  with assms(1) have "j < length (Extra m')" "is_opt_rr (Extra m' ! j)"
    unfolding edns0_documented_def by blast+
  with i opt len assms(2) have "j = i"
    unfolding one_opt_def by (metis one_opt_unique)
  with j show ?thesis by simp
qed

lemma with_opt_one_opt:
  assumes "edns0_documented L" "one_opt req"
  shows "one_opt (with_opt L req)"
proof (cases "lib_IsEdns0 L req")
  case None
  from assms obtain h where "lib_SetEdns0 L req 4096 False = req\<lparr>Extra := Extra req @ [RR_OPT h []]\<rparr>"
    unfolding edns0_documented_def by blast
  moreover from None assms(1) have "filter is_opt_rr (Extra req) = []"
    unfolding edns0_documented_def by (auto simp: filter_empty_conv list_ex_iff)
  ultimately show ?thesis using None by (simp add: with_opt_def one_opt_def)
next
  case (Some i)
  with assms show ?thesis by (simp add: with_opt_def)
qed

lemma ensureECS_IsEdns0:
  assumes "edns0_documented L" "one_opt req" "net_ParseIP ecsIP = Some x"
    and "lib_IsEdns0 L (with_opt L req) = Some i"
  shows "lib_IsEdns0 L (ensureECS L req ecsIP) = Some i"
proof (rule IsEdns0_same_index [OF assms(1) with_opt_one_opt [OF assms(1,2)] _ assms(4)])
  from assms(1,4) have "i < length (Extra (with_opt L req))" "is_opt_rr (Extra (with_opt L req) ! i)"
    unfolding edns0_documented_def by blast+
  then show "map is_opt_rr (Extra (ensureECS L req ecsIP)) = map is_opt_rr (Extra (with_opt L req))"
    by (simp add: ensureECS_eq [OF assms(3,4)] Let_def is_opt_list_update)
qed

lemma ecs_cidr_24: "cidr_bytes 4 24 = replicate 3 255 @ replicate 1 0"
  by code_simp

lemma ecs_cidr_56: "cidr_bytes 16 56 = replicate 7 255 @ replicate 9 0"
  by code_simp

lemma itoa_prefix_lengths: "strconv_Itoa 24 = ''24''" "strconv_Itoa 56 = ''56''"
  by code_simp+

lemma byte_and_255 [simp]: "(b :: 8 word) AND 255 = b"
proof -
  have "(255 :: 8 word) = - 1" by simp
  then show ?thesis by (simp only: bit.conj_one_right)
qed

lemma map2_and_prefix:
  "length x = n + m \<Longrightarrow> map2 (AND) x (replicate n (255 :: 8 word) @ replicate m 0) = take n x @ replicate m 0"
proof (induction n arbitrary: x)
  case 0
  then show ?case
  proof (induction m arbitrary: x)
    case (Suc m)
    then show ?case by (cases x) auto
  qed simp
next
  case (Suc n)
  then show ?case by (cases x) auto
qed

lemma formatECS_ecs_subnet:
  assumes "net_ParseIP ecsIP = Some x"
  shows "formatECS (ecs_subnet x) =
     (case ip_To4 x of
        Some x4 \<Rightarrow> ip_String (take 3 x4 @ [0]) @ ''/24''
      | None \<Rightarrow> ip_String (take 7 x @ replicate 9 0) @ ''/56'')"
proof (cases "ip_To4 x")
  case (Some x4)
  then have len: "length x4 = 4" by (rule ip_To4_length)
  have "ip_Mask x4 (net_CIDRMask 24 32) = Some (map2 (AND) x4 (cidr_bytes 4 24))"
    using ip_Mask_CIDR [of x4 32 24] len by simp
  also have "map2 (AND) x4 (cidr_bytes 4 24) = map2 (AND) x4 (replicate 3 255 @ replicate 1 0)"
    by (simp only: ecs_cidr_24)
  also have "map2 (AND) x4 (replicate 3 255 @ replicate 1 0) = take 3 x4 @ [0]"
    using map2_and_prefix [of x4 3 1] len by simp
  finally show ?thesis
    using Some by (simp add: formatECS_def ecs_subnet_def itoa_prefix_lengths)
next
  case None
  from assms have len: "length x = 16" by (rule net_ParseIP_length)
  have "ip_Mask x (net_CIDRMask 56 128) = Some (map2 (AND) x (cidr_bytes 16 56))"
    using ip_Mask_CIDR [of x 128 56] len by simp
  also have "map2 (AND) x (cidr_bytes 16 56) = map2 (AND) x (replicate 7 255 @ replicate 9 0)"
    by (simp only: ecs_cidr_56)
  also have "map2 (AND) x (replicate 7 255 @ replicate 9 0) = take 7 x @ replicate 9 0"
    using map2_and_prefix [of x 7 9] len by simp
  finally show ?thesis
    using None by (simp add: formatECS_def ecs_subnet_def itoa_prefix_lengths)
qed

section \<open>Properties\<close>

text \<open>
  C34: After \<open>ensureECS\<close> the request carries exactly the configured client subnet: the address with
  family 1 and a prefix of 24 bits for IPv4, with family 2 and 56 bits for IPv6. It is the only
  option of a new OPT record at the end, or in an existing OPT record the last option after all
  those that are no client subnet, in their order; nothing else of the message changes.
\<close>

theorem ensureECS_sets_subnet:
  assumes "edns0_documented L" and "net_ParseIP ecsIP = Some x" and "out = ensureECS L req ecsIP"
    and "e = (case ip_To4 x of
           Some x4 \<Rightarrow> \<lparr>sn_Code = EDNS0SUBNET, sn_Family = 1, sn_SourceNetmask = 24, sn_SourceScope = 0, sn_Address = Some x4\<rparr>
         | None \<Rightarrow> \<lparr>sn_Code = EDNS0SUBNET, sn_Family = 2, sn_SourceNetmask = 56, sn_SourceScope = 0, sn_Address = Some x\<rparr>)"
  shows "out\<lparr>Extra := Extra req\<rparr> = req
    \<and> (case lib_IsEdns0 L req of
         None \<Rightarrow> \<exists>h. Extra out = Extra req @ [RR_OPT h [EDNS0_SUBNET e]]
       | Some i \<Rightarrow> \<exists>h os. Extra req ! i = RR_OPT h os
           \<and> Extra out = (Extra req)[i := RR_OPT h (filter (\<lambda>opt. edns0_Option opt \<noteq> EDNS0SUBNET) os @ [EDNS0_SUBNET e])])"
proof -
  have e: "e = ecs_subnet x" by (simp add: assms(4) ecs_subnet_def)
  obtain i where i: "lib_IsEdns0 L (with_opt L req) = Some i" "i < length (Extra (with_opt L req))"
    "is_opt_rr (Extra (with_opt L req) ! i)"
    using with_opt_index [OF assms(1)] by blast
  note eq = ensureECS_eq [OF assms(2) i(1), folded assms(3) e]
  show ?thesis
  proof (cases "lib_IsEdns0 L req")
    case None
    from assms(1) obtain h where h: "lib_SetEdns0 L req 4096 False = req\<lparr>Extra := Extra req @ [RR_OPT h []]\<rparr>"
      unfolding edns0_documented_def by blast
    have w: "with_opt L req = req\<lparr>Extra := Extra req @ [RR_OPT h []]\<rparr>" using None h by (simp add: with_opt_def)
    have "\<not> is_opt_rr (Extra req ! k)" if "k < length (Extra req)" for k
      using None assms(1) that unfolding edns0_documented_def by (metis list_ex_length)
    with i(2,3) have "i = length (Extra req)" by (auto simp: w nth_append split: if_splits)
    with eq None show ?thesis by (simp add: w Let_def without_subnets_def)
  next
    case (Some j)
    then have w: "with_opt L req = req" by (simp add: with_opt_def)
    with i Some have "j = i" by simp
    moreover obtain h os where "Extra req ! i = RR_OPT h os" using i(3) by (cases "Extra req ! i") (auto simp: w)
    ultimately show ?thesis using eq Some by (simp add: w Let_def without_subnets_def)
  qed
qed

text \<open>
  What an upstream is told about the client: reading the subnet back from a request that
  went through \<open>ensureECS\<close> gives the first three bytes of the configured IPv4 address with
  \<open>/24\<close>, or the first seven of the IPv6 address with \<open>/56\<close>; the host part is always zero.
\<close>

theorem ExtractECS_ensureECS:
  assumes "edns0_documented L" and "one_opt req" and "net_ParseIP ecsIP = Some x"
  shows "ExtractECS L (ensureECS L req ecsIP) =
     (case ip_To4 x of
        Some x4 \<Rightarrow> ip_String (take 3 x4 @ [0]) @ ''/24''
      | None \<Rightarrow> ip_String (take 7 x @ replicate 9 0) @ ''/56'')"
proof -
  obtain i where i: "lib_IsEdns0 L (with_opt L req) = Some i" "i < length (Extra (with_opt L req))"
    "is_opt_rr (Extra (with_opt L req) ! i)"
    using with_opt_index [OF assms(1)] by blast
  have "lib_IsEdns0 L (ensureECS L req ecsIP) = Some i"
    by (rule ensureECS_IsEdns0 [OF assms i(1)])
  moreover have "opt_options (Extra (ensureECS L req ecsIP) ! i)
      = without_subnets (opt_options (Extra (with_opt L req) ! i)) @ [EDNS0_SUBNET (ecs_subnet x)]"
    using i by (simp add: ensureECS_eq [OF assms(3) i(1)] Let_def)
  ultimately have "ExtractECS L (ensureECS L req ecsIP) = formatECS (ecs_subnet x)"
    by (simp add: ExtractECS_def first_subnet_without)
  then show ?thesis by (simp add: formatECS_ecs_subnet [OF assms(3)])
qed

text \<open>
  \<open>ensureECS\<close> is idempotent: resending a request through a client (or through a second
  client with the same setting) does not pile up subnet options.
\<close>

theorem ensureECS_idempotent:
  assumes "edns0_documented L" and "one_opt req"
  shows "ensureECS L (ensureECS L req ecsIP) ecsIP = ensureECS L req ecsIP"
proof (cases "net_ParseIP ecsIP")
  case None
  then show ?thesis by (simp add: ensureECS_def)
next
  case (Some x)
  obtain i where i: "lib_IsEdns0 L (with_opt L req) = Some i" "i < length (Extra (with_opt L req))"
    "is_opt_rr (Extra (with_opt L req) ! i)"
    using with_opt_index [OF assms(1)] by blast
  let ?r = "ensureECS L req ecsIP"
  have idx: "lib_IsEdns0 L ?r = Some i" by (rule ensureECS_IsEdns0 [OF assms Some i(1)])
  then have wo: "with_opt L ?r = ?r" by (simp add: with_opt_def)
  show ?thesis
    using ensureECS_eq [OF Some, of L ?r i] idx i
    by (simp add: wo) (simp add: ensureECS_eq [OF Some i(1)] Let_def)
qed

text \<open>
  The subnet written to the query log reveals exactly the announced prefix: for an IPv4
  option the text is a four byte address followed by the prefix length clamped to 32, and bit
  \<open>i\<close> of that address is the client's bit for \<open>i\<close> below the prefix and zero from there on;
  for an IPv6 option likewise with sixteen bytes and 128.
\<close>

theorem formatECS_masks:
  assumes "sn_Address sn = Some x" and "length x = 4 \<or> length x = 16"
  shows "\<exists>y p. formatECS sn = ip_String y @ ''/'' @ strconv_Itoa p \<and>
     p = min (uint (sn_SourceNetmask sn)) (8 * int (length y)) \<and>
     y = map2 (AND) (case ip_To4 x of Some x4 \<Rightarrow> x4 | None \<Rightarrow> x) (cidr_bytes (length y) (nat p)) \<and>
     (\<forall>i. i < 8 * length y \<longrightarrow>
        addr_bit y i = (int i < p \<and> addr_bit (case ip_To4 x of Some x4 \<Rightarrow> x4 | None \<Rightarrow> x) i))"
proof -
  define x' where "x' = (case ip_To4 x of Some x4 \<Rightarrow> x4 | None \<Rightarrow> x)"
  define bits :: int where "bits = (case ip_To4 x of Some _ \<Rightarrow> 32 | None \<Rightarrow> 128)"
  define p where "p = (if bits < uint (sn_SourceNetmask sn) then bits else uint (sn_SourceNetmask sn))"
  have shape: "length x' = 4 \<and> bits = 32 \<or> length x' = 16 \<and> bits = 128"
    using assms(2) by (auto simp: x'_def bits_def ip_To4_def split: option.splits if_splits)
  have p: "0 \<le> p" "p \<le> bits" by (auto simp: p_def bits_def split: option.splits)
  define y where "y = map2 (AND) x' (cidr_bytes (length x') (nat p))"
  have m: "ip_Mask x' (net_CIDRMask p bits) = Some y"
    unfolding y_def by (rule ip_Mask_CIDR [OF shape p])
  have len: "length y = length x'" by (simp add: y_def)
  have pair: "(case ip_To4 x of Some x4 \<Rightarrow> (x4, 32) | None \<Rightarrow> (x, 128)) = (x', bits)"
    by (simp add: x'_def bits_def split: option.splits)
  have f: "formatECS sn = ip_String y @ ''/'' @ strconv_Itoa p"
    using m assms(1) by (simp add: formatECS_def pair p_def [symmetric])
  have pmin: "p = min (uint (sn_SourceNetmask sn)) (8 * int (length y))"
    using shape by (auto simp: p_def len)
  have "addr_bit y i = (int i < p \<and> addr_bit x' i)" if "i < 8 * length y" for i
    using ip_Mask_CIDR_bits(2) [OF shape p m] that len by simp
  then have clear: "\<forall>i. i < 8 * length y \<longrightarrow> addr_bit y i = (int i < p \<and> addr_bit x' i)" by blast
  have "y = map2 (AND) x' (cidr_bytes (length y) (nat p))" unfolding len by (rule y_def)
  with f pmin clear show ?thesis unfolding x'_def [symmetric] by blast
qed

section \<open>Witnesses\<close>

definition sample_ecs_req :: msg where
  "sample_ecs_req = blank_msg\<lparr>Extra := [RR_OPT (sample_opt_header 1232 True)
     [EDNS0_OTHER 10 ''cookie'', EDNS0_SUBNET (ecs_subnet [1, 2, 3, 4])]]\<rparr>"

lemma sample_parse: "net_ParseIP ''114.114.114.114'' = Some (v4_in_v6_prefix @ [114, 114, 114, 114])"
  by code_simp

lemma sample_one_opt: "one_opt sample_ecs_req"
  by (simp add: one_opt_def sample_ecs_req_def)

text \<open>The old subnet goes, the cookie stays.\<close>

theorem ensureECS_sets_subnet_witness:
  "\<exists>h. Extra (ensureECS sample_lib sample_ecs_req ''114.114.114.114'') =
     [RR_OPT h [EDNS0_OTHER 10 ''cookie'',
        EDNS0_SUBNET \<lparr>sn_Code = EDNS0SUBNET, sn_Family = 1, sn_SourceNetmask = 24, sn_SourceScope = 0,
                      sn_Address = Some [114, 114, 114, 114]\<rparr>]]"
proof -
  have i: "lib_IsEdns0 sample_lib sample_ecs_req = Some 0" by (simp add: sample_lib_def sample_ecs_req_def)
  have four: "ip_To4 (v4_in_v6_prefix @ [114, 114, 114, 114]) = Some [114, 114, 114, 114]"
    by (simp add: ip_To4_def v4_in_v6_prefix_def)
  have ex: "Extra sample_ecs_req = [RR_OPT (sample_opt_header 1232 True)
     [EDNS0_OTHER 10 ''cookie'', EDNS0_SUBNET (ecs_subnet [1, 2, 3, 4])]]" by (simp add: sample_ecs_req_def)
  have codes: "filter (\<lambda>opt. edns0_Option opt \<noteq> EDNS0SUBNET) [EDNS0_OTHER 10 ''cookie'', EDNS0_SUBNET (ecs_subnet [1, 2, 3, 4])]
      = [EDNS0_OTHER 10 ''cookie'']"
    by (simp add: ecs_subnet_def ip_To4_def EDNS0SUBNET_def)
  show ?thesis
    using ensureECS_sets_subnet [OF sample_edns0_documented sample_parse refl refl, of sample_ecs_req]
    by (simp add: i four ex codes del: filter.simps)
qed

theorem ExtractECS_ensureECS_witness:
  "ExtractECS sample_lib (ensureECS sample_lib sample_ecs_req ''114.114.114.114'') = ''114.114.114.0/24''"
proof -
  have four: "ip_To4 (v4_in_v6_prefix @ [114, 114, 114, 114]) = Some [114, 114, 114, 114]"
    by (simp add: ip_To4_def v4_in_v6_prefix_def)
  have str: "ip_String [114, 114, 114, 0] = ''114.114.114.0''" by code_simp
  show ?thesis
    using ExtractECS_ensureECS [OF sample_edns0_documented sample_one_opt sample_parse]
    by (simp add: four str)
qed

theorem ensureECS_idempotent_witness:
  "ensureECS sample_lib (ensureECS sample_lib sample_ecs_req ''1.2.3.4'') ''1.2.3.4''
     = ensureECS sample_lib sample_ecs_req ''1.2.3.4''"
  by (rule ensureECS_idempotent [OF sample_edns0_documented sample_one_opt])

theorem formatECS_masks_witness:
  "\<exists>y p. formatECS ((ecs_subnet [203, 0, 113, 42])\<lparr>sn_SourceNetmask := 20\<rparr>)
     = ip_String y @ ''/'' @ strconv_Itoa p \<and> p = min 20 (8 * int (length y))"
proof -
  let ?sn = "(ecs_subnet [203, 0, 113, 42])\<lparr>sn_SourceNetmask := 20\<rparr>"
  have "sn_Address ?sn = Some [203, 0, 113, 42]"
    by (simp add: ecs_subnet_def ip_To4_def)
  moreover have "uint (sn_SourceNetmask ?sn) = 20" by simp
  ultimately show ?thesis using formatECS_masks [of ?sn "[203, 0, 113, 42]"] by fastforce
qed

end
