(* ===== verification/Config.thy ===== *)
theory Config
  imports Go_Net Go_Files
begin

text \<open>
  \<open>internal/config/config.go\<close>: the configuration types and the normalisation of the listen
  section. Reading and writing the files is the theory \<open>Config_Store\<close>.
\<close>

section \<open>Types\<close>

record tls_cert_config =
  tc_CertFile :: string
  tc_KeyFile :: string

record query_log_config =
  ql_Enabled :: bool
  ql_MaxHistory :: int
  ql_File :: string
  ql_MaxSizeMB :: int
  ql_SaveToFile :: bool

record webui_config =
  wu_Enabled :: bool
  wu_Address :: string
  wu_Username :: string
  wu_Password :: string
  wu_CertFile :: string
  wu_KeyFile :: string
  wu_GuestMode :: bool

record auto_cert_config =
  ac_Enabled :: bool
  ac_Email :: string
  ac_Domains :: "string list"
  ac_CertDir :: string

record listen_config =
  lc_Address :: string
  lc_DNSUDP :: string
  lc_DNSTCP :: string
  lc_DOH :: string
  lc_DoHPath :: string
  lc_DOT :: string
  lc_DOQ :: string

record upstream_server =
  us_Address :: string
  us_Protocol :: string
  us_ECSIP :: string
  us_EnablePipeline :: bool
  us_EnableH3 :: bool
  us_InsecureSkipVerify :: bool

record upstreams_config =
  uc_CN :: "upstream_server list"
  uc_Overseas :: "upstream_server list"

record geo_data_config =
  gd_GeoIPDat :: string
  gd_GeoSiteDat :: string
  gd_GeoIPDownloadURL :: string
  gd_GeoSiteDownloadURL :: string
  gd_AutoUpdate :: string

record config =
  cf_Listen :: listen_config
  cf_BootstrapDNS :: "string list"
  cf_Upstreams :: upstreams_config
  cf_Hosts :: "string gomap"
  cf_Rules :: "string gomap"
  cf_GeoData :: geo_data_config
  cf_AutoCert :: auto_cert_config
  cf_TLSCertificates :: "tls_cert_config list"
  cf_WebUI :: webui_config
  cf_QueryLog :: query_log_config
  cf_ConfigDir :: string

section \<open>Listen values\<close>

definition strings_Count :: "string \<Rightarrow> char \<Rightarrow> nat" where
  "strings_Count s c = length (filter (\<lambda>x. x = c) s)"

definition splitListenValue :: "string \<Rightarrow> string \<times> string" where
  "splitListenValue value0 =
     (let value = strings_TrimSpace value0 in
      if value = [] then ([], [])
      else if strings_HasPrefix value '':''
      then ([], strings_TrimSpace (strings_TrimPrefix value '':''))
      else if \<not> CHR '':'' \<in> set value then ([], value)
      else
        (case net_SplitHostPort value of
           Some (host, port) \<Rightarrow> (strings_TrimSpace host, strings_TrimSpace port)
         | None \<Rightarrow>
             if strings_Count value (CHR '':'') = 1
             then (strings_TrimSpace (takeWhile (\<lambda>c. c \<noteq> CHR '':'') value),
                   strings_TrimSpace (tl (dropWhile (\<lambda>c. c \<noteq> CHR '':'') value)))
             else ([], value)))"

definition resolveListenAddr :: "string \<Rightarrow> string \<Rightarrow> string" where
  "resolveListenAddr address value =
     (let port = snd (splitListenValue value) in
      if port = [] then []
      else
        (let host = strings_TrimSpace address in
         net_JoinHostPort (if host = [] then ''0.0.0.0'' else host) port))"

definition DNSUDPAddr :: "listen_config \<Rightarrow> string" where
  "DNSUDPAddr l = resolveListenAddr (lc_Address l) (lc_DNSUDP l)"
definition DNSTCPAddr :: "listen_config \<Rightarrow> string" where
  "DNSTCPAddr l = resolveListenAddr (lc_Address l) (lc_DNSTCP l)"
definition DOHAddr :: "listen_config \<Rightarrow> string" where
  "DOHAddr l = resolveListenAddr (lc_Address l) (lc_DOH l)"
definition DOTAddr :: "listen_config \<Rightarrow> string" where
  "DOTAddr l = resolveListenAddr (lc_Address l) (lc_DOT l)"
definition DOQAddr :: "listen_config \<Rightarrow> string" where
  "DOQAddr l = resolveListenAddr (lc_Address l) (lc_DOQ l)"

text \<open>
  The closure \<open>normalizePort\<close>: from the address, the inferred address so far and a port field to
  the new port field and the new inferred address.
\<close>

definition normalizePort :: "string \<Rightarrow> string \<Rightarrow> string \<Rightarrow> string \<times> string" where
  "normalizePort address inferred p =
     (case splitListenValue p of
        (host, port) \<Rightarrow>
          (if port \<noteq> [] then port else strings_TrimSpace p,
           if address = [] \<and> inferred = [] \<and> host \<noteq> [] then host else inferred))"

text \<open>The callers pass the address of a field, so the pointer is never nil.\<close>

definition normalizeListenConfig :: "listen_config \<Rightarrow> listen_config" where
  "normalizeListenConfig l =
     (let address = strings_TrimSpace (lc_Address l);
          (udp, i1) = normalizePort address [] (lc_DNSUDP l);
          (tcp, i2) = normalizePort address i1 (lc_DNSTCP l);
          (doh, i3) = normalizePort address i2 (lc_DOH l);
          (dot, i4) = normalizePort address i3 (lc_DOT l);
          (doq, i5) = normalizePort address i4 (lc_DOQ l)
      in l\<lparr>lc_Address := (if address = [] then i5 else address), lc_DNSUDP := udp, lc_DNSTCP := tcp,
           lc_DOH := doh, lc_DOT := dot, lc_DOQ := doq\<rparr>)"

section \<open>Lemmas\<close>

lemma splitListenValue_trim: "splitListenValue (strings_TrimSpace v) = splitListenValue v"
  by (simp add: splitListenValue_def)

lemma splitListenValue_no_colon:
  "CHR '':'' \<notin> set v \<Longrightarrow> strings_TrimSpace v = v \<Longrightarrow> splitListenValue v = ([], v)"
  by (cases v) (auto simp: splitListenValue_def Let_def strings_HasPrefix_def)

text \<open>A value that starts with a colon has no other one.\<close>

definition single_value :: "string \<Rightarrow> bool" where
  "single_value v \<longleftrightarrow>
     (strings_HasPrefix (strings_TrimSpace v) '':'' \<longrightarrow> CHR '':'' \<notin> set (tl (strings_TrimSpace v)))"

lemma TrimSpace_notin: "c \<notin> set s \<Longrightarrow> c \<notin> set (strings_TrimSpace s)"
  using strings_TrimSpace_set by fastforce

lemma count_one_tail:
  "strings_Count s c = 1 \<Longrightarrow> c \<notin> set (tl (dropWhile (\<lambda>x. x \<noteq> c) s))"
  by (induction s) (auto simp: strings_Count_def filter_empty_conv)

lemma splitListenValue_trimmed [simp]:
  "strings_TrimSpace (fst (splitListenValue v)) = fst (splitListenValue v)"
  "strings_TrimSpace (snd (splitListenValue v)) = snd (splitListenValue v)"
  by (auto simp: splitListenValue_def Let_def split: option.splits)

text \<open>Either the port has no colon, or the value is its own port.\<close>

lemma splitListenValue_cases:
  assumes "value = strings_TrimSpace v"
  obtains "value = []" "splitListenValue v = ([], [])"
  | s where "value = CHR '':'' # s" "splitListenValue v = ([], strings_TrimSpace s)"
  | "splitListenValue v = ([], value)"
  | h p where "net_SplitHostPort value = Some (h, p)"
      "splitListenValue v = (strings_TrimSpace h, strings_TrimSpace p)"
  | h where "strings_Count value (CHR '':'') = 1"
      "splitListenValue v = (h, strings_TrimSpace (tl (dropWhile (\<lambda>c. c \<noteq> CHR '':'') value)))"
proof (cases "value")
  case Nil
  with assms that(1) show ?thesis by (simp add: splitListenValue_def)
next
  case (Cons c s)
  have trim: "strings_TrimSpace v = value" by (rule assms [symmetric])
  show ?thesis
  proof (cases "c = CHR '':''")
    case True
    with Cons have "splitListenValue v = ([], strings_TrimSpace s)"
      by (simp add: splitListenValue_def trim strings_HasPrefix_def strings_TrimPrefix_def)
    with True Cons that(2) [of s] show ?thesis by simp
  next
    case False
    then have e: "splitListenValue v =
        (if CHR '':'' \<notin> set value then ([], value)
         else case net_SplitHostPort value of
           Some (host, port) \<Rightarrow> (strings_TrimSpace host, strings_TrimSpace port)
         | None \<Rightarrow>
             if strings_Count value (CHR '':'') = 1
             then (strings_TrimSpace (takeWhile (\<lambda>c. c \<noteq> CHR '':'') value),
                   strings_TrimSpace (tl (dropWhile (\<lambda>c. c \<noteq> CHR '':'') value)))
             else ([], value))"
      using Cons by (simp only: splitListenValue_def Let_def trim) (simp add: strings_HasPrefix_def)
    show ?thesis
    proof (cases "net_SplitHostPort value")
      case None
      with e that(3,5) show ?thesis by (auto split: if_splits)
    next
      case (Some hp)
      with e that(3,4) show ?thesis by (cases hp) (auto split: if_splits)
    qed
  qed
qed

lemma splitListenValue_port:
  assumes "single_value v"
  shows "CHR '':'' \<notin> set (snd (splitListenValue v)) \<or> splitListenValue v = ([], strings_TrimSpace v)"
  using refl [of "strings_TrimSpace v"]
proof (cases rule: splitListenValue_cases [of "strings_TrimSpace v" v])
  case (2 s)
  with assms have "CHR '':'' \<notin> set s" by (simp add: single_value_def strings_HasPrefix_def)
  with 2 show ?thesis using TrimSpace_notin by simp
next
  case (4 h p)
  then show ?thesis using TrimSpace_notin [OF net_SplitHostPort_port_no_colon [OF 4(1)]] by simp
next
  case (5 h)
  then show ?thesis using TrimSpace_notin [OF count_one_tail [OF 5(1)]] by simp
qed auto

lemma splitListenValue_again:
  assumes "single_value v" and "snd (splitListenValue v) \<noteq> []"
  shows "splitListenValue (snd (splitListenValue v)) = ([], snd (splitListenValue v))"
  using splitListenValue_port [OF assms(1)]
proof
  assume "CHR '':'' \<notin> set (snd (splitListenValue v))"
  then show ?thesis by (rule splitListenValue_no_colon) simp
next
  assume s: "splitListenValue v = ([], strings_TrimSpace v)"
  then have "snd (splitListenValue v) = strings_TrimSpace v" by simp
  then show ?thesis using s splitListenValue_trim [of v] by simp
qed

definition normal_port :: "string \<Rightarrow> string" where
  "normal_port v = (let port = snd (splitListenValue v) in if port \<noteq> [] then port else strings_TrimSpace v)"

lemma normalizePort_eq:
  "normalizePort a i v = (normal_port v,
     if a = [] \<and> i = [] \<and> fst (splitListenValue v) \<noteq> [] then fst (splitListenValue v) else i)"
  by (simp add: normalizePort_def normal_port_def Let_def split: prod.split)

lemma split_normal_port:
  assumes "single_value v"
  shows "snd (splitListenValue (normal_port v)) = snd (splitListenValue v)"
    and "normal_port (normal_port v) = normal_port v"
    and "fst (splitListenValue (normal_port v)) = [] \<or>
         fst (splitListenValue (normal_port v)) = fst (splitListenValue v)"
  using splitListenValue_again [OF assms]
  by (simp_all add: normal_port_def Let_def splitListenValue_trim)

fun first_host :: "string list \<Rightarrow> string" where
  "first_host [] = []"
| "first_host (v # vs) = (if fst (splitListenValue v) \<noteq> [] then fst (splitListenValue v) else first_host vs)"

definition listen_values :: "listen_config \<Rightarrow> string list" where
  "listen_values l = [lc_DNSUDP l, lc_DNSTCP l, lc_DOH l, lc_DOT l, lc_DOQ l]"

lemma normalizeListenConfig_eq:
  "normalizeListenConfig l =
     l\<lparr>lc_Address := (if strings_TrimSpace (lc_Address l) = [] then first_host (listen_values l)
                      else strings_TrimSpace (lc_Address l)),
       lc_DNSUDP := normal_port (lc_DNSUDP l), lc_DNSTCP := normal_port (lc_DNSTCP l),
       lc_DOH := normal_port (lc_DOH l), lc_DOT := normal_port (lc_DOT l), lc_DOQ := normal_port (lc_DOQ l)\<rparr>"
  by (simp add: normalizeListenConfig_def normalizePort_eq Let_def listen_values_def)

lemma first_host_trimmed [simp]: "strings_TrimSpace (first_host vs) = first_host vs"
  by (induction vs) auto

lemma first_host_normal:
  "list_all single_value vs \<Longrightarrow> first_host vs = [] \<Longrightarrow> first_host (map normal_port vs) = []"
proof (induction vs)
  case (Cons v vs)
  with split_normal_port(3) [of v] show ?case by (auto split: if_splits)
qed simp

lemma listen_values_normalize: "listen_values (normalizeListenConfig l) = map normal_port (listen_values l)"
  by (simp add: normalizeListenConfig_eq listen_values_def)

lemma normalizeListenConfig_fixed:
  assumes "strings_TrimSpace (lc_Address n) = lc_Address n"
    and "lc_Address n = [] \<Longrightarrow> first_host (listen_values n) = []"
    and "map normal_port (listen_values n) = listen_values n"
  shows "normalizeListenConfig n = n"
  using assms by (cases "lc_Address n = []") (simp_all add: normalizeListenConfig_eq listen_values_def)

lemma resolve_normal_port:
  "single_value v \<Longrightarrow> resolveListenAddr a (normal_port v) = resolveListenAddr a v"
  by (simp add: resolveListenAddr_def split_normal_port(1))

lemma normalizeListenConfig_idem:
  assumes "list_all single_value (listen_values l)"
  shows "normalizeListenConfig (normalizeListenConfig l) = normalizeListenConfig l"
proof -
  have v: "single_value (lc_DNSUDP l)" "single_value (lc_DNSTCP l)" "single_value (lc_DOH l)"
    "single_value (lc_DOT l)" "single_value (lc_DOQ l)"
    using assms by (simp_all add: listen_values_def)
  have h: "first_host (listen_values l) = [] \<Longrightarrow> first_host (listen_values (normalizeListenConfig l)) = []"
    unfolding listen_values_normalize by (rule first_host_normal [OF assms])
  show ?thesis
  proof (rule normalizeListenConfig_fixed)
    show "strings_TrimSpace (lc_Address (normalizeListenConfig l)) = lc_Address (normalizeListenConfig l)"
      by (simp add: normalizeListenConfig_eq)
    show "first_host (listen_values (normalizeListenConfig l)) = []"
      if "lc_Address (normalizeListenConfig l) = []"
      using that h by (simp add: normalizeListenConfig_eq [THEN arg_cong [of _ _ lc_Address]] split: if_splits)
    show "map normal_port (listen_values (normalizeListenConfig l)) = listen_values (normalizeListenConfig l)"
      unfolding listen_values_normalize by (simp add: listen_values_def split_normal_port(2) v)
  qed
qed

section \<open>Properties\<close>

text \<open>
  Normalising the listen section is idempotent, so a configuration that is loaded, saved and
  loaded again (each step normalises) does not drift, provided no listen value is a colon
  followed by something that contains another colon.
\<close>

theorem normalizeListenConfig_idempotent:
  assumes "list_all single_value (listen_values l)"
  shows "normalizeListenConfig (normalizeListenConfig l) = normalizeListenConfig l"
  using assms by (rule normalizeListenConfig_idem)

text \<open>
  Migrating old style \<open>host:port\<close> values loses no port and gives every listener the one
  common address: after normalisation each listener binds the port its value named before, on
  the address of the section if it has one, else on the first host any value named.
\<close>

theorem normalizeListenConfig_addresses:
  assumes "list_all single_value (listen_values l)"
    and "a = (if strings_TrimSpace (lc_Address l) = [] then first_host (listen_values l)
              else strings_TrimSpace (lc_Address l))"
  shows "DNSUDPAddr (normalizeListenConfig l) = resolveListenAddr a (lc_DNSUDP l)
    \<and> DNSTCPAddr (normalizeListenConfig l) = resolveListenAddr a (lc_DNSTCP l)
    \<and> DOHAddr (normalizeListenConfig l) = resolveListenAddr a (lc_DOH l)
    \<and> DOTAddr (normalizeListenConfig l) = resolveListenAddr a (lc_DOT l)
    \<and> DOQAddr (normalizeListenConfig l) = resolveListenAddr a (lc_DOQ l)"
  using assms(1)
  by (simp add: normalizeListenConfig_eq DNSUDPAddr_def DNSTCPAddr_def DOHAddr_def DOTAddr_def DOQAddr_def
      resolve_normal_port listen_values_def assms(2))

text \<open>
  A listen address is well formed: it is empty, which turns the listener off, exactly when
  the value names no port; otherwise splitting it gives back the port and the configured host,
  \<open>0.0.0.0\<close> when there is none, IPv6 hosts included.
\<close>

theorem resolveListenAddr_splits:
  assumes "port = snd (splitListenValue v)"
    and "CHR ''['' \<notin> set address" "CHR '']'' \<notin> set address"
    and "CHR '':'' \<notin> set port" "CHR ''['' \<notin> set port" "CHR '']'' \<notin> set port"
  shows "if port = [] then resolveListenAddr address v = []
    else net_SplitHostPort (resolveListenAddr address v)
      = Some (if strings_TrimSpace address = [] then ''0.0.0.0'' else strings_TrimSpace address, port)"
  using assms TrimSpace_notin [OF assms(2)] TrimSpace_notin [OF assms(3)]
  by (simp add: resolveListenAddr_def Let_def net_SplitHostPort_JoinHostPort)

section \<open>Witnesses\<close>

definition sample_listen :: listen_config where
  "sample_listen = \<lparr>lc_Address = [], lc_DNSUDP = ''127.0.0.1:11153'', lc_DNSTCP = ''11153'',
     lc_DOH = '':8443'', lc_DoHPath = ''/dns-query'', lc_DOT = [], lc_DOQ = []\<rparr>"

lemma sample_listen_single: "list_all single_value (listen_values sample_listen)"
  by code_simp

theorem normalizeListenConfig_idempotent_witness:
  "normalizeListenConfig (normalizeListenConfig sample_listen) = normalizeListenConfig sample_listen"
  by (rule normalizeListenConfig_idempotent [OF sample_listen_single])

theorem normalizeListenConfig_addresses_witness:
  "DOHAddr (normalizeListenConfig sample_listen) = ''127.0.0.1:8443''"
proof -
  have "resolveListenAddr (if strings_TrimSpace (lc_Address sample_listen) = []
      then first_host (listen_values sample_listen) else strings_TrimSpace (lc_Address sample_listen))
      (lc_DOH sample_listen) = ''127.0.0.1:8443''"
    by code_simp
  with normalizeListenConfig_addresses [OF sample_listen_single refl] show ?thesis by simp
qed

theorem resolveListenAddr_splits_witness:
  "net_SplitHostPort (resolveListenAddr ''::1'' '':853'') = Some (''::1'', ''853'')"
proof -
  have p: "snd (splitListenValue '':853'') = ''853''" "strings_TrimSpace ''::1'' = ''::1''" by code_simp+
  show ?thesis using resolveListenAddr_splits [of "''853''" "'':853''" "''::1''"] p by simp
qed

end
