(* ===== verification/Upstream.thy ===== *)
theory Upstream
  imports Complex_Main Race Config
begin

text \<open>
  Upstream clients: which client \<open>NewDNSClient\<close> (\<open>internal/client/client.go\<close>) makes for a
  configured upstream, and the statistics wrapper \<open>StatsClient\<close> (\<open>internal/client/stats.go\<close>).
\<close>

section \<open>The client of a protocol\<close>

datatype client_kind =
    UDPClient upstream_server
  | TCPClient upstream_server
  | DoTClient upstream_server
  | DoHClient upstream_server
  | DoQClient upstream_server

definition NewDNSClient :: "upstream_server \<Rightarrow> goerr + client_kind" where
  "NewDNSClient cfg =
     (if us_Protocol cfg = ''udp'' then Inr (UDPClient cfg)
      else if us_Protocol cfg = ''tcp'' then Inr (TCPClient cfg)
      else if us_Protocol cfg = ''dot'' then Inr (DoTClient cfg)
      else if us_Protocol cfg = ''doh'' then Inr (DoHClient cfg)
      else if us_Protocol cfg = ''doq'' then Inr (DoQClient cfg)
      else Inl (Errorf (''unsupported upstream protocol: '' @ us_Protocol cfg) []))"

section \<open>Statistics\<close>

text \<open>The wrapper's own fields; the wrapped client is an argument of \<open>Resolve\<close>. The durations are
  in microseconds.\<close>

record stats_client =
  sc_Address :: string
  sc_Protocol :: string
  sc_Group :: string
  sc_TotalQueries :: int
  sc_TotalErrors :: int
  sc_TotalCanceled :: int
  sc_TotalDuration :: int

record stats_view =
  sv_address :: string
  sv_protocol :: string
  sv_group :: string
  sv_total_queries :: int
  sv_total_errors :: int
  sv_total_canceled :: int
  sv_avg_duration_ms :: int

definition NewStatsClient :: "string \<Rightarrow> string \<Rightarrow> string \<Rightarrow> stats_client" where
  "NewStatsClient address protocol grp =
     \<lparr>sc_Address = address, sc_Protocol = protocol, sc_Group = grp,
      sc_TotalQueries = 0, sc_TotalErrors = 0, sc_TotalCanceled = 0, sc_TotalDuration = 0\<rparr>"

definition StatsClient_record :: "int \<Rightarrow> goerr option \<Rightarrow> stats_client \<Rightarrow> stats_client" where
  "StatsClient_record duration err s =
     (let s1 = s\<lparr>sc_TotalQueries := i64 (sc_TotalQueries s + 1),
                 sc_TotalDuration := i64 (sc_TotalDuration s + duration)\<rparr> in
      case err of
        None \<Rightarrow> s1
      | Some e \<Rightarrow>
          if errors_Is e ContextCanceled \<or> errors_Is e ContextDeadlineExceeded
          then s1\<lparr>sc_TotalCanceled := i64 (sc_TotalCanceled s1 + 1)\<rparr>
          else s1\<lparr>sc_TotalErrors := i64 (sc_TotalErrors s1 + 1)\<rparr>)"

definition StatsClient_Resolve ::
  "dns_client \<Rightarrow> int \<Rightarrow> msg \<Rightarrow> stats_client \<Rightarrow> stats_client \<times> msg result" where
  "StatsClient_Resolve client duration req s =
     (case client req of (resp, err) \<Rightarrow> (StatsClient_record duration err s, (resp, err)))"

definition StatsClient_GetStats :: "stats_client \<Rightarrow> stats_view" where
  "StatsClient_GetStats s =
     \<lparr>sv_address = sc_Address s, sv_protocol = sc_Protocol s, sv_group = sc_Group s,
      sv_total_queries = sc_TotalQueries s, sv_total_errors = sc_TotalErrors s,
      sv_total_canceled = sc_TotalCanceled s,
      sv_avg_duration_ms =
        (if 0 < sc_TotalQueries s then quot (quot (sc_TotalDuration s) (sc_TotalQueries s)) 1000 else 0)\<rparr>"

text \<open>A run of queries: the request, what the wrapped client did, and how long it took.\<close>

fun StatsClient_run :: "dns_client \<Rightarrow> (int \<times> msg) list \<Rightarrow> stats_client \<Rightarrow> stats_client \<times> msg result list" where
  "StatsClient_run client [] s = (s, [])"
| "StatsClient_run client ((d, req) # qs) s =
     (case StatsClient_Resolve client d req s of
        (s', r) \<Rightarrow> (case StatsClient_run client qs s' of (s'', rs) \<Rightarrow> (s'', r # rs)))"

definition is_cancel :: "goerr \<Rightarrow> bool" where
  "is_cancel e \<longleftrightarrow> errors_Is e ContextCanceled \<or> errors_Is e ContextDeadlineExceeded"

definition canceled_results :: "msg result list \<Rightarrow> nat" where
  "canceled_results rs = length (filter (\<lambda>r. case snd r of None \<Rightarrow> False | Some e \<Rightarrow> is_cancel e) rs)"

definition error_results :: "msg result list \<Rightarrow> nat" where
  "error_results rs = length (filter (\<lambda>r. case snd r of None \<Rightarrow> False | Some e \<Rightarrow> \<not> is_cancel e) rs)"

definition stats_ok :: "stats_client \<Rightarrow> nat \<Rightarrow> nat \<Rightarrow> nat \<Rightarrow> int \<Rightarrow> bool" where
  "stats_ok s q e c d \<longleftrightarrow> sc_TotalQueries s = int q \<and> sc_TotalErrors s = int e
     \<and> sc_TotalCanceled s = int c \<and> sc_TotalDuration s = d \<and> e + c \<le> q \<and> 0 \<le> d"

lemma StatsClient_record_ok:
  assumes "stats_ok s q e c d" and "q < 2 ^ 62" and "0 \<le> dur" and "d + dur < 2 ^ 63"
  shows "stats_ok (StatsClient_record dur err s) (Suc q)
    (e + (case err of None \<Rightarrow> 0 | Some x \<Rightarrow> if is_cancel x then 0 else 1))
    (c + (case err of None \<Rightarrow> 0 | Some x \<Rightarrow> if is_cancel x then 1 else 0)) (d + dur)"
proof -
  have w: "i64 (int n + 1) = int n + 1" if "n \<le> q" for n
    using that assms(2) by (intro i64_id) (simp add: in_i64_def)
  have "i64 (d + dur) = d + dur"
    using assms by (intro i64_id) (simp add: in_i64_def stats_ok_def)
  moreover have "e \<le> q" "c \<le> q" using assms(1) by (simp_all add: stats_ok_def)
  ultimately show ?thesis
    using assms w [of q] w [of e] w [of c]
    by (auto simp: stats_ok_def StatsClient_record_def Let_def is_cancel_def split: option.split)
qed

lemma StatsClient_run_ok:
  assumes "stats_ok s q e c d" and "q + length qs < 2 ^ 62" and "\<forall>(t, _) \<in> set qs. 0 \<le> t"
    and "d + sum_list (map fst qs) < 2 ^ 63"
    and "StatsClient_run client qs s = (s', rs)"
  shows "stats_ok s' (q + length qs) (e + error_results rs) (c + canceled_results rs) (d + sum_list (map fst qs))
    \<and> rs = map (\<lambda>(_, req). client req) qs"
  using assms
proof (induction qs arbitrary: s q e c d rs)
  case Nil
  then show ?case by (simp add: error_results_def canceled_results_def)
next
  case (Cons p qs)
  obtain t req where p: "p = (t, req)" by (cases p)
  obtain resp err where r: "client req = (resp, err)" by (cases "client req")
  obtain rs' where rs: "StatsClient_run client qs (StatsClient_record t err s) = (s', rs')" "rs = (resp, err) # rs'"
    using Cons.prems(5) p r by (auto simp: StatsClient_Resolve_def split: prod.splits)
  have nonneg: "0 \<le> sum_list (map fst qs)" using Cons.prems(3) by (intro sum_list_nonneg) auto
  have "stats_ok (StatsClient_record t err s) (Suc q)
    (e + (case err of None \<Rightarrow> 0 | Some x \<Rightarrow> if is_cancel x then 0 else 1))
    (c + (case err of None \<Rightarrow> 0 | Some x \<Rightarrow> if is_cancel x then 1 else 0)) (d + t)"
    using Cons.prems p nonneg by (intro StatsClient_record_ok) auto
  from Cons.IH [OF this _ _ _ rs(1)] Cons.prems(2,3,4) p r rs(2) show ?case
    by (auto simp: error_results_def canceled_results_def add.assoc split: option.splits)
qed

section \<open>Properties\<close>

text \<open>
  The statistics wrapper changes no answer and counts every query exactly once: after any
  run of queries its results are those of the wrapped client, the errors and the cancellations
  (a context error anywhere in the wrapping chain) are counted apart, their sum never exceeds the
  total, and the average shown is the true mean duration in whole milliseconds.
\<close>

theorem StatsClient_counts:
  assumes "StatsClient_run client qs (NewStatsClient a p g) = (s, rs)"
    and "length qs < 2 ^ 62" and "\<forall>(t, _) \<in> set qs. 0 \<le> t" and "sum_list (map fst qs) < 2 ^ 63"
    and "v = StatsClient_GetStats s"
  shows "rs = map (\<lambda>(_, req). client req) qs
    \<and> sv_total_queries v = int (length qs) \<and> sv_total_errors v = int (error_results rs)
    \<and> sv_total_canceled v = int (canceled_results rs)
    \<and> sv_total_errors v + sv_total_canceled v \<le> sv_total_queries v
    \<and> sv_avg_duration_ms v = (if qs = [] then 0 else sum_list (map fst qs) div (1000 * int (length qs)))"
proof -
  have "stats_ok (NewStatsClient a p g) 0 0 0 0" by (simp add: stats_ok_def NewStatsClient_def)
  from StatsClient_run_ok [OF this _ assms(3) _ assms(1)] assms(2,4)
  have ok: "stats_ok s (length qs) (error_results rs) (canceled_results rs) (sum_list (map fst qs))"
    and rs: "rs = map (\<lambda>(_, req). client req) qs" by auto
  have "sum_list (map fst qs) div int (length qs) div 1000 = sum_list (map fst qs) div (1000 * int (length qs))"
    by (simp add: div_mult2_eq mult.commute zdiv_zmult2_eq)
  with ok rs show ?thesis
    unfolding assms(5)
    by (auto simp: stats_ok_def StatsClient_GetStats_def quot_nonneg pos_imp_zdiv_nonneg_iff)
qed

section \<open>Witnesses\<close>

theorem StatsClient_counts_witness:
  "sv_total_canceled (StatsClient_GetStats (fst (StatsClient_run
     (\<lambda>_. (None, Some (Wrapf ''all upstream queries failed'' ContextCanceled)))
     [(1500, blank_msg), (2500, blank_msg)] (NewStatsClient [] [] [])))) = 2"
proof -
  let ?c = "\<lambda>_ :: msg. (None :: msg option, Some (Wrapf ''all upstream queries failed'' ContextCanceled))"
  let ?run = "StatsClient_run ?c [(1500, blank_msg), (2500, blank_msg)] (NewStatsClient [] [] [])"
  have "sv_total_canceled (StatsClient_GetStats (fst ?run)) = int (canceled_results (snd ?run))"
    and "snd ?run = map (\<lambda>(_, req). ?c req) [(1500 :: int, blank_msg), (2500, blank_msg)]"
    using StatsClient_counts [OF prod.collapse [symmetric, of ?run] _ _ _ refl] by simp_all
  then show ?thesis by (simp add: canceled_results_def is_cancel_def)
qed

end
