(* ===== verification/QueryLog.thy ===== *)
theory QueryLog
  imports Complex_Main Go_Prelude "HOL-Library.Multiset"
begin

text \<open>
  The in-memory part of \<open>internal/querylog/querylog.go\<close>: the bounded history of query log
  entries, kept in a ring buffer, with the per client and per domain counters, the lifetime
  totals and the sliding window the queries-per-second figure is computed from. The file the
  entries may also be written to is the theory \<open>LogFile\<close>.

  A \<open>time.Time\<close> is the number of nanoseconds since Go's zero time, so \<open>IsZero\<close> is \<open>t = 0\<close>;
  the current time is an argument. All operations run under the logger's mutex, so each is one
  atomic state transformer.
\<close>

section \<open>State\<close>

record answer_record =
  ar_Name :: string
  ar_Type :: string
  ar_Data :: string
  ar_TTL :: "32 word"

record log_entry =
  le_ID :: int
  le_Time :: int
  le_ClientIP :: string
  le_DownstreamECS :: string
  le_Domain :: string
  le_Type :: string
  le_Upstream :: string
  le_Answer :: string
  le_AnswerRecords :: "answer_record list"
  le_DurationMs :: int
  le_Status :: string

record log_stats =
  StartTime :: int
  TotalQueries :: int
  TotalCN :: int
  TotalOverseas :: int
  QPS :: rat
  TopClients :: "int gomap"
  TopDomains :: "int gomap"

text \<open>\<open>fileQueue\<close> is \<open>None\<close> for a nil channel, else its capacity and the entries in it.\<close>

record query_logger =
  enabled :: bool
  logs :: "log_entry list"
  logsStart :: nat
  maxSizeMB :: int
  maxHistory :: int
  nextID :: int
  filePath :: string
  saveToFile :: bool
  recentLogs :: "int list"
  recentStart :: nat
  stats :: log_stats
  persistedLogCount :: int
  fileQueue :: "(nat \<times> log_entry list) option"
  closed :: bool

definition defaultMaxMemoryLogs :: int where "defaultMaxMemoryLogs = 5000"
definition qpsWindow :: int where "qpsWindow = 10 * 1000000000"
definition maxFileWriteQueueSize :: int where "maxFileWriteQueueSize = 1024"

section \<open>Occurrence counters\<close>

text \<open>\<open>m[k]++\<close>, and the decrement that deletes a counter that reaches zero.\<close>

definition counter_get :: "int gomap \<Rightarrow> string \<Rightarrow> int" where
  "counter_get m k = (case map_of m k of None \<Rightarrow> 0 | Some v \<Rightarrow> v)"

definition counter_incr :: "string \<Rightarrow> int gomap \<Rightarrow> int gomap" where
  "counter_incr k m = AList.update k (i64 (counter_get m k + 1)) m"

definition counter_decr :: "string \<Rightarrow> int gomap \<Rightarrow> int gomap" where
  "counter_decr k m =
     (let cnt = i64 (counter_get m k - 1) in
      if 0 < cnt then AList.update k cnt m else AList.delete k m)"

text \<open>
  The interface the logger relies on: a counter map represents the multiset of the keys counted
  so far, absent keys stand for zero, and a window that slides by one key is tracked by one
  increment and one decrement.
\<close>

locale occurrence_counter =
  fixes incr :: "'k \<Rightarrow> 'm \<Rightarrow> 'm" and decr :: "'k \<Rightarrow> 'm \<Rightarrow> 'm"
    and get :: "'m \<Rightarrow> 'k \<Rightarrow> int" and keys :: "'m \<Rightarrow> 'k set" and limit :: nat
    and empty :: 'm
  assumes get_empty: "get empty k = 0" and keys_empty: "keys empty = {}"
    and get_incr: "get m k < int limit \<Longrightarrow> 0 \<le> get m k \<Longrightarrow>
      get (incr k m) k' = (if k' = k then get m k + 1 else get m k')"
    and keys_incr: "keys (incr k m) = insert k (keys m)"
    and get_decr: "0 < get m k \<Longrightarrow> get m k \<le> int limit \<Longrightarrow>
      get (decr k m) k' = (if k' = k then get m k - 1 else get m k')"
    and keys_decr: "0 < get m k \<Longrightarrow> get m k \<le> int limit \<Longrightarrow>
      keys (decr k m) = (if get m k = 1 then keys m - {k} else insert k (keys m))"
begin

definition counts :: "'m \<Rightarrow> 'k list \<Rightarrow> bool" where
  "counts m xs \<longleftrightarrow> (\<forall>k. get m k = int (count_list xs k)) \<and> keys m = set xs"

lemma counts_empty: "counts empty []"
  by (simp add: counts_def get_empty keys_empty)

lemma count_bound: "count_list xs k \<le> length xs"
  by (induction xs) auto

lemma counts_incr:
  assumes "counts m xs" and "length xs < limit"
  shows "counts (incr k m) (xs @ [k])"
proof -
  have "get m k < int limit" using assms count_bound [of xs k] by (simp add: counts_def)
  with assms show ?thesis by (auto simp: counts_def get_incr keys_incr)
qed

lemma counts_mset: "mset xs = mset ys \<Longrightarrow> counts m xs = counts m ys"
proof -
  assume m: "mset xs = mset ys"
  then have "count_list xs k = count_list ys k" for k by (simp flip: count_mset)
  moreover from m have "set xs = set ys" by (rule mset_eq_setD)
  ultimately show ?thesis by (simp add: counts_def)
qed

lemma counts_decr:
  assumes "counts m (k # xs)" and "length xs < limit"
  shows "counts (decr k m) xs"
proof -
  from assms(1) have g: "get m j = int (count_list (k # xs) j)" for j by (simp add: counts_def)
  from assms(1) have ks: "keys m = insert k (set xs)" by (simp add: counts_def)
  have pos: "0 < get m k" "get m k \<le> int limit"
    using g [of k] assms(2) count_bound [of xs k] by simp_all
  have "keys (decr k m) = set xs"
    using keys_decr [OF pos] ks g [of k] by (auto simp: count_list_0_iff)
  moreover have "get (decr k m) j = int (count_list xs j)" for j
    using get_decr [OF pos, of j] g [of j] g [of k] by auto
  ultimately show ?thesis by (simp add: counts_def)
qed

text \<open>Sliding a window: the new key in, the evicted one out.\<close>

lemma counts_slide:
  assumes "counts m xs" and "mset xs = mset (old # rest)" and "length xs < limit"
  shows "counts (decr old (incr new m)) (rest @ [new])"
proof -
  from arg_cong [OF assms(2), of size] have len: "length xs = Suc (length rest)" by simp
  have "counts (incr new m) (xs @ [new])" by (rule counts_incr [OF assms(1,3)])
  moreover have "mset (xs @ [new]) = mset (old # (rest @ [new]))" using assms(2) by simp
  ultimately have "counts (incr new m) (old # (rest @ [new]))" by (blast dest: counts_mset)
  with len assms(3) show ?thesis by (intro counts_decr) simp_all
qed

end

lemma counter_get_update: "counter_get (AList.update k v m) k' = (if k' = k then v else counter_get m k')"
  by (simp add: counter_get_def map_of_update)

lemma counter_get_delete: "counter_get (AList.delete k m) k' = (if k' = k then 0 else counter_get m k')"
  by (simp add: counter_get_def map_of_delete)

interpretation key_counter: occurrence_counter counter_incr counter_decr counter_get
  "\<lambda>m. fst ` set m" "2 ^ 63 - 1" "[]"
proof unfold_locales
  fix m :: "int gomap" and k k' :: string
  show "counter_get [] k = 0" by (simp add: counter_get_def)
  show "fst ` set ([] :: int gomap) = {}" by simp
  show "counter_get (counter_incr k m) k' = (if k' = k then counter_get m k + 1 else counter_get m k')"
    if "counter_get m k < int (2 ^ 63 - 1)" "0 \<le> counter_get m k"
    using that by (simp add: counter_incr_def counter_get_update i64_id in_i64_def)
  show "fst ` set (counter_incr k m) = insert k (fst ` set m)"
    by (simp add: counter_incr_def dom_map_of_conv_image_fst [symmetric] update_conv')
  assume pos: "0 < counter_get m k" "counter_get m k \<le> int (2 ^ 63 - 1)"
  then have i: "i64 (counter_get m k - 1) = counter_get m k - 1"
    by (intro i64_id) (simp add: in_i64_def)
  with pos show "counter_get (counter_decr k m) k' = (if k' = k then counter_get m k - 1 else counter_get m k')"
    by (auto simp: counter_decr_def Let_def counter_get_update counter_get_delete)
  from i pos show "fst ` set (counter_decr k m)
      = (if counter_get m k = 1 then fst ` set m - {k} else insert k (fst ` set m))"
    by (auto simp: counter_decr_def Let_def dom_map_of_conv_image_fst [symmetric] update_conv' delete_conv'
        split: if_splits)
qed

section \<open>Bounded histories\<close>

definition lastn :: "nat \<Rightarrow> 'a list \<Rightarrow> 'a list" where
  "lastn n xs = drop (length xs - n) xs"

lemma lastn_all [simp]: "length xs \<le> n \<Longrightarrow> lastn n xs = xs"
  by (simp add: lastn_def)

lemma length_lastn [simp]: "length (lastn n xs) = min n (length xs)"
  by (simp add: lastn_def)

lemma lastn_append_lastn: "lastn n (lastn n xs @ ys) = lastn n (xs @ ys)"
proof (cases "n \<le> length xs")
  case True
  then show ?thesis by (simp add: lastn_def) (cases "length ys \<le> n"; simp add: add.commute)
next
  case False
  then show ?thesis by simp
qed

lemma map_lastn: "map f (lastn n xs) = lastn n (map f xs)"
  by (simp add: lastn_def drop_map)

lemma set_lastn: "set (lastn n xs) \<subseteq> set xs"
  by (simp add: lastn_def set_drop_subset)

lemma sorted_wrt_lastn: "sorted_wrt P xs \<Longrightarrow> sorted_wrt P (lastn n xs)"
  by (simp add: lastn_def sorted_wrt_drop)

text \<open>
  The interface between the logger and its history: adding an entry keeps the newest
  \<open>capacity\<close> entries in their order. What follows from it for whole sequences of additions is
  proved here once.
\<close>

locale bounded_history =
  fixes add :: "'e \<Rightarrow> 'h \<Rightarrow> 'h" and contents :: "'h \<Rightarrow> 'e list"
    and capacity :: "'h \<Rightarrow> nat" and invar :: "'h \<Rightarrow> bool"
  assumes contents_add: "invar h \<Longrightarrow> contents (add e h) = lastn (capacity h) (contents h @ [e])"
    and capacity_add: "capacity (add e h) = capacity h"
    and invar_add: "invar h \<Longrightarrow> invar (add e h)"
    and contents_bound: "invar h \<Longrightarrow> length (contents h) \<le> capacity h"
begin

lemma invar_fold: "invar h \<Longrightarrow> invar (fold add es h)"
  by (induction es arbitrary: h) (auto intro: invar_add)

lemma capacity_fold: "capacity (fold add es h) = capacity h"
  by (induction es arbitrary: h) (auto simp: capacity_add)

lemma contents_fold: "invar h \<Longrightarrow> contents (fold add es h) = lastn (capacity h) (contents h @ es)"
proof (induction es arbitrary: h)
  case Nil
  then show ?case by (simp add: contents_bound)
next
  case (Cons e es)
  then have "contents (fold add (e # es) h)
      = lastn (capacity h) (lastn (capacity h) (contents h @ [e]) @ es)"
    by (simp add: invar_add capacity_add contents_add)
  then show ?case by (simp add: lastn_append_lastn)
qed

end

section \<open>The ring buffer\<close>

text \<open>\<open>logAt\<close>: the entry with logical index \<open>i\<close>, oldest first. It is called with \<open>i < len\<close> only.\<close>

definition logAt :: "query_logger \<Rightarrow> nat \<Rightarrow> log_entry" where
  "logAt l i = logs l ! ((logsStart l + i) mod length (logs l))"

definition decrementTopCounters :: "log_entry \<Rightarrow> query_logger \<Rightarrow> query_logger" where
  "decrementTopCounters entry l =
     l\<lparr>stats := (stats l)\<lparr>TopClients := counter_decr (le_ClientIP entry) (TopClients (stats l)),
                         TopDomains := counter_decr (le_Domain entry) (TopDomains (stats l))\<rparr>\<rparr>"

definition addToMemory :: "log_entry \<Rightarrow> query_logger \<Rightarrow> query_logger" where
  "addToMemory entry l =
     (let l1 = l\<lparr>stats := (stats l)\<lparr>TopClients := counter_incr (le_ClientIP entry) (TopClients (stats l)),
                                    TopDomains := counter_incr (le_Domain entry) (TopDomains (stats l))\<rparr>\<rparr> in
      if int (length (logs l1)) < maxHistory l1 then l1\<lparr>logs := logs l1 @ [entry]\<rparr>
      else if length (logs l1) = 0 then l1\<lparr>logs := logs l1 @ [entry]\<rparr>
      else
        (let evicted = logs l1 ! logsStart l1;
             l2 = l1\<lparr>logs := (logs l1)[logsStart l1 := entry]\<rparr>;
             l3 = l2\<lparr>logsStart := (logsStart l2 + 1) mod length (logs l2)\<rparr>
         in decrementTopCounters evicted l3))"

text \<open>Abstraction: the entries from oldest to newest.\<close>

definition history :: "query_logger \<Rightarrow> log_entry list" where
  "history l = map (logAt l) [0..<length (logs l)]"

definition ring_ok :: "query_logger \<Rightarrow> bool" where
  "ring_ok l \<longleftrightarrow> 0 < maxHistory l \<and> maxHistory l < 2 ^ 63 - 1 \<and> int (length (logs l)) \<le> maxHistory l \<and>
     (if int (length (logs l)) < maxHistory l then logsStart l = 0 else logsStart l < length (logs l)) \<and>
     key_counter.counts (TopClients (stats l)) (map le_ClientIP (logs l)) \<and>
     key_counter.counts (TopDomains (stats l)) (map le_Domain (logs l))"

lemma length_history [simp]: "length (history l) = length (logs l)"
  by (simp add: history_def)

lemma history_rotate:
  assumes "logsStart l < length (logs l) \<or> logsStart l = 0"
  shows "history l = drop (logsStart l) (logs l) @ take (logsStart l) (logs l)"
proof (rule nth_equalityI)
  show len: "length (history l) = length (drop (logsStart l) (logs l) @ take (logsStart l) (logs l))"
    using assms by auto
  fix i assume "i < length (history l)"
  then have i: "i < length (logs l)" by simp
  show "history l ! i = (drop (logsStart l) (logs l) @ take (logsStart l) (logs l)) ! i"
  proof (cases "logsStart l + i < length (logs l)")
    case True
    with i show ?thesis by (simp add: history_def logAt_def nth_append)
  next
    case False
    with i assms have st: "logsStart l < length (logs l)" by auto
    from False i st have "(logsStart l + i) mod length (logs l) = logsStart l + i - length (logs l)"
      by (simp add: le_mod_geq)
    with False i st show ?thesis by (auto simp: history_def logAt_def nth_append intro!: arg_cong [of _ _ "(!) (logs l)"])
  qed
qed

lemma mset_history:
  assumes "logsStart l < length (logs l) \<or> logsStart l = 0"
  shows "mset (history l) = mset (logs l)"
proof -
  have "mset (history l) = mset (take (logsStart l) (logs l) @ drop (logsStart l) (logs l))"
    unfolding history_rotate [OF assms] mset_append by (simp only: add.commute)
  then show ?thesis by (simp only: append_take_drop_id)
qed

lemma ring_start: "ring_ok l \<Longrightarrow> logsStart l < length (logs l) \<or> logsStart l = 0"
  by (auto simp: ring_ok_def split: if_splits)

lemma addToMemory_room:
  "int (length (logs l)) < maxHistory l \<Longrightarrow> logs (addToMemory e l) = logs l @ [e]
     \<and> logsStart (addToMemory e l) = logsStart l"
  by (simp add: addToMemory_def Let_def)

lemma addToMemory_full:
  "\<not> int (length (logs l)) < maxHistory l \<Longrightarrow> logs l \<noteq> [] \<Longrightarrow>
     logs (addToMemory e l) = (logs l)[logsStart l := e]
     \<and> logsStart (addToMemory e l) = (logsStart l + 1) mod length (logs l)"
  by (simp add: addToMemory_def Let_def decrementTopCounters_def)

lemma addToMemory_frame [simp]:
  "maxHistory (addToMemory e l) = maxHistory l" "nextID (addToMemory e l) = nextID l"
  "enabled (addToMemory e l) = enabled l" "closed (addToMemory e l) = closed l"
  "recentLogs (addToMemory e l) = recentLogs l" "recentStart (addToMemory e l) = recentStart l"
  "TotalQueries (stats (addToMemory e l)) = TotalQueries (stats l)"
  "TotalCN (stats (addToMemory e l)) = TotalCN (stats l)"
  "TotalOverseas (stats (addToMemory e l)) = TotalOverseas (stats l)"
  "saveToFile (addToMemory e l) = saveToFile l" "filePath (addToMemory e l) = filePath l"
  "fileQueue (addToMemory e l) = fileQueue l" "persistedLogCount (addToMemory e l) = persistedLogCount l"
  "maxSizeMB (addToMemory e l) = maxSizeMB l"
  by (simp_all add: addToMemory_def Let_def decrementTopCounters_def)

text \<open>Overwriting the slot of the oldest entry and moving the start drops it from the history.\<close>

lemma history_overwrite:
  assumes "logsStart l < length (logs l)"
    and "logs l' = (logs l)[logsStart l := e]" and "logsStart l' = (logsStart l + 1) mod length (logs l)"
  shows "history l' = tl (history l) @ [e]"
proof -
  let ?s = "logsStart l" and ?xs = "logs l"
  have h: "history l = drop ?s ?xs @ take ?s ?xs" using assms(1) by (intro history_rotate) simp
  have split: "?xs = take ?s ?xs @ ?xs ! ?s # drop (Suc ?s) ?xs"
    using assms(1) by (rule id_take_nth_drop)
  have new: "logs l' = take ?s ?xs @ e # drop (Suc ?s) ?xs"
    using assms(1,2) by (simp add: upd_conv_take_nth_drop)
  from assms(1) have "0 < length ?xs" by (cases ?xs) auto
  then have "logsStart l' < length (logs l')" unfolding assms(2,3) by simp
  then have h': "history l' = drop (logsStart l') (logs l') @ take (logsStart l') (logs l')"
    by (intro history_rotate) simp
  show ?thesis
  proof (cases "Suc ?s = length ?xs")
    case True
    then have "logsStart l' = 0" using assms(3) by simp
    with True h h' new assms(1) show ?thesis by (simp add: Cons_nth_drop_Suc [symmetric])
  next
    case False
    then have "logsStart l' = Suc ?s" using assms(1,3) by simp
    with h h' new assms(1) show ?thesis
      by (simp add: Cons_nth_drop_Suc [OF assms(1), symmetric])
  qed
qed

lemma history_addToMemory:
  assumes "ring_ok l"
  shows "history (addToMemory e l) = lastn (nat (maxHistory l)) (history l @ [e])"
proof (cases "int (length (logs l)) < maxHistory l")
  case True
  from assms True have "logsStart l = 0" by (simp add: ring_ok_def)
  with addToMemory_room [OF True, of e] True show ?thesis
    by (simp add: history_rotate lastn_def)
next
  case False
  with assms have st: "logsStart l < length (logs l)" and len: "int (length (logs l)) = maxHistory l"
    by (auto simp: ring_ok_def)
  from st have ne: "logs l \<noteq> []" by auto
  note f = addToMemory_full [OF False ne, of e]
  have "history (addToMemory e l) = tl (history l) @ [e]"
    using f by (intro history_overwrite [OF st]) simp_all
  moreover have "nat (maxHistory l) = length (history l)" using len by simp
  moreover have "history l \<noteq> []" using ne by (simp add: history_def)
  ultimately show ?thesis by (cases "history l") (simp_all add: lastn_def)
qed

lemma counts_addToMemory:
  assumes ok: "ring_ok l"
  shows "key_counter.counts (TopClients (stats (addToMemory e l))) (map le_ClientIP (logs (addToMemory e l)))
    \<and> key_counter.counts (TopDomains (stats (addToMemory e l))) (map le_Domain (logs (addToMemory e l)))"
proof (cases "int (length (logs l)) < maxHistory l")
  case True
  with ok have "length (logs l) < 2 ^ 63 - 1" by (simp add: ring_ok_def)
  with True ok show ?thesis
    by (simp add: addToMemory_def Let_def ring_ok_def key_counter.counts_incr)
next
  case False
  with ok have st: "logsStart l < length (logs l)" and len: "length (logs l) < 2 ^ 63 - 1"
    by (auto simp: ring_ok_def)
  let ?s = "logsStart l" and ?xs = "logs l"
  let ?rest = "take ?s ?xs @ drop (Suc ?s) ?xs"
  have perm: "mset ?xs = mset (?xs ! ?s # ?rest)"
    using arg_cong [OF id_take_nth_drop [OF st], of mset] by simp
  have new: "mset (?xs[?s := e]) = mset (?rest @ [e])"
    using st by (simp add: upd_conv_take_nth_drop)
  have slide: "key_counter.counts (counter_decr (f (?xs ! ?s)) (counter_incr (f e) m)) (map f (?xs[?s := e]))"
    if "key_counter.counts m (map f ?xs)" for f :: "log_entry \<Rightarrow> string" and m
  proof -
    have "mset (map f ?xs) = mset (f (?xs ! ?s) # map f ?rest)"
      using arg_cong [OF perm, of "image_mset f"] by simp
    from key_counter.counts_slide [OF that this] len
    have "key_counter.counts (counter_decr (f (?xs ! ?s)) (counter_incr (f e) m)) (map f ?rest @ [f e])"
      by simp
    moreover have "mset (map f (?xs[?s := e])) = mset (map f ?rest @ [f e])"
      using arg_cong [OF new, of "image_mset f"] by simp
    ultimately show ?thesis by (blast dest: key_counter.counts_mset)
  qed
  from False st ok slide show ?thesis
    by (auto simp: addToMemory_def Let_def decrementTopCounters_def ring_ok_def)
qed

lemma ring_ok_addToMemory [wf_intros]:
  assumes "ring_ok l"
  shows "ring_ok (addToMemory e l)"
proof (cases "int (length (logs l)) < maxHistory l")
  case True
  with assms addToMemory_room [OF True, of e] counts_addToMemory [OF assms, of e]
  show ?thesis by (auto simp: ring_ok_def)
next
  case False
  with assms have st: "logsStart l < length (logs l)" by (auto simp: ring_ok_def)
  then have ne: "logs l \<noteq> []" by auto
  then have "(logsStart l + 1) mod length (logs l) < length (logs l)" by simp
  with False assms addToMemory_full [OF False ne, of e] counts_addToMemory [OF assms, of e]
  show ?thesis by (auto simp: ring_ok_def)
qed

interpretation ring: bounded_history addToMemory history "\<lambda>l. nat (maxHistory l)" ring_ok
proof unfold_locales
  fix l e
  show "ring_ok l \<Longrightarrow> history (addToMemory e l) = lastn (nat (maxHistory l)) (history l @ [e])"
    by (rule history_addToMemory)
  show "nat (maxHistory (addToMemory e l)) = nat (maxHistory l)" by simp
  show "ring_ok l \<Longrightarrow> ring_ok (addToMemory e l)" by (rule ring_ok_addToMemory)
  show "ring_ok l \<Longrightarrow> length (history l) \<le> nat (maxHistory l)" by (auto simp: ring_ok_def)
qed

section \<open>Totals and the rate window\<close>

definition updateTotals :: "log_entry \<Rightarrow> query_logger \<Rightarrow> query_logger" where
  "updateTotals entry l =
     (let st = (stats l)\<lparr>TotalQueries := i64 (TotalQueries (stats l) + 1)\<rparr>;
          st' = (if strings_Contains (le_Upstream entry) ''CN''
                 then st\<lparr>TotalCN := i64 (TotalCN st + 1)\<rparr>
                 else if strings_Contains (le_Upstream entry) ''Overseas''
                 then st\<lparr>TotalOverseas := i64 (TotalOverseas st + 1)\<rparr>
                 else st)
      in l\<lparr>stats := st'\<rparr>)"

function advance_start :: "int list \<Rightarrow> int \<Rightarrow> nat \<Rightarrow> nat" where
  "advance_start ts cutoff i =
     (if i < length ts \<and> ts ! i < cutoff then advance_start ts cutoff (i + 1) else i)"
  by pat_completeness auto
termination
  by (relation "measure (\<lambda>(ts, cutoff, i). length ts - i)") auto

declare advance_start.simps [simp del]

definition recordRecentLog :: "int \<Rightarrow> query_logger \<Rightarrow> query_logger" where
  "recordRecentLog ts l =
     (let recent = recentLogs l @ [ts];
          start = advance_start recent (ts - qpsWindow) (recentStart l)
      in if 0 < start \<and> length recent \<le> start * 2
         then l\<lparr>recentLogs := drop start recent, recentStart := 0\<rparr>
         else l\<lparr>recentLogs := recent, recentStart := start\<rparr>)"

text \<open>The loop of \<open>currentQPS\<close>: the last argument is the index \<open>i\<close> of the source plus one.\<close>

fun count_recent :: "int list \<Rightarrow> int \<Rightarrow> nat \<Rightarrow> nat \<Rightarrow> nat" where
  "count_recent ts cutoff start 0 = 0"
| "count_recent ts cutoff start (Suc i) =
     (if start \<le> i then
        (if ts ! i < cutoff then 0 else Suc (count_recent ts cutoff start i))
      else 0)"

definition currentQPS :: "int \<Rightarrow> query_logger \<Rightarrow> rat" where
  "currentQPS now l =
     (if length (recentLogs l) \<le> recentStart l then 0
      else of_nat (count_recent (recentLogs l) (now - qpsWindow) (recentStart l) (length (recentLogs l))) / 10)"

section \<open>Operations\<close>

definition NewQueryLogger_mem :: "bool \<Rightarrow> int \<Rightarrow> int \<Rightarrow> string \<Rightarrow> bool \<Rightarrow> int \<Rightarrow> query_logger" where
  "NewQueryLogger_mem en maxHist maxMB path save now =
     \<lparr>enabled = en, logs = [], logsStart = 0,
      maxSizeMB = (if maxMB \<le> 0 then 1 else maxMB),
      maxHistory = (if maxHist \<le> 0 then defaultMaxMemoryLogs else maxHist),
      nextID = 1,
      filePath = (if en then path else []),
      saveToFile = (en \<and> save),
      recentLogs = [], recentStart = 0,
      stats = \<lparr>StartTime = now, TotalQueries = 0, TotalCN = 0, TotalOverseas = 0, QPS = 0,
               TopClients = [], TopDomains = []\<rparr>,
      persistedLogCount = 0, fileQueue = None, closed = False\<rparr>"

definition Enabled :: "query_logger option \<Rightarrow> bool" where
  "Enabled lo = (case lo of None \<Rightarrow> False | Some l \<Rightarrow> enabled l \<and> \<not> closed l)"

text \<open>
  The part of \<open>AddLog\<close> under the mutex: the entry is stamped with the next identifier and, if
  it has no time, with the current one. Returns the stamped entry as well.
\<close>

definition stamp :: "int \<Rightarrow> int \<Rightarrow> log_entry \<Rightarrow> log_entry" where
  "stamp ident now entry =
     entry\<lparr>le_ID := ident, le_Time := (if le_Time entry = 0 then now else le_Time entry)\<rparr>"

definition AddLog_locked :: "int \<Rightarrow> log_entry \<Rightarrow> query_logger \<Rightarrow> query_logger \<times> log_entry" where
  "AddLog_locked now entry l =
     (let entry' = stamp (nextID l) now entry;
          l1 = l\<lparr>nextID := i64 (nextID l + 1)\<rparr>;
          l2 = recordRecentLog (le_Time entry') l1;
          l3 = updateTotals entry' l2
      in (addToMemory entry' l3, entry'))"

definition AddLog_mem :: "int \<Rightarrow> log_entry \<Rightarrow> query_logger \<Rightarrow> query_logger" where
  "AddLog_mem now entry l = (if \<not> enabled l \<or> closed l then l else fst (AddLog_locked now entry l))"

definition log_matches :: "log_entry \<Rightarrow> string \<Rightarrow> bool" where
  "log_matches e q \<longleftrightarrow>
     q = [] \<or> strings_Contains (strings_ToLower (le_ClientIP e)) q
     \<or> strings_Contains (strings_ToLower (le_DownstreamECS e)) q
     \<or> strings_Contains (strings_ToLower (le_Domain e)) q
     \<or> strings_Contains (strings_ToLower (le_Type e)) q
     \<or> strings_Contains (strings_ToLower (le_Upstream e)) q
     \<or> strings_Contains (strings_ToLower (le_Answer e)) q
     \<or> strings_Contains (strings_ToLower (le_Status e)) q"

text \<open>The two loops of \<open>GetLogs\<close>; the number is the index \<open>i\<close> of the source plus one.\<close>

fun page_loop :: "query_logger \<Rightarrow> int \<Rightarrow> nat \<Rightarrow> log_entry list \<Rightarrow> log_entry list" where
  "page_loop l limit 0 result = result"
| "page_loop l limit (Suc i) result =
     (if int (length result) < limit then page_loop l limit i (result @ [logAt l i]) else result)"

fun search_loop :: "query_logger \<Rightarrow> int \<Rightarrow> int \<Rightarrow> string \<Rightarrow> nat \<Rightarrow> log_entry list \<Rightarrow> int \<Rightarrow> log_entry list \<times> int"
where
  "search_loop l offset limit q 0 result cnt = (result, cnt)"
| "search_loop l offset limit q (Suc i) result cnt =
     (let entry = logAt l i in
      if \<not> log_matches entry q then search_loop l offset limit q i result cnt
      else if offset \<le> cnt \<and> int (length result) < limit
      then search_loop l offset limit q i (result @ [entry]) (i64 (cnt + 1))
      else search_loop l offset limit q i result (i64 (cnt + 1)))"

text \<open>
  \<open>GetLogs\<close> from memory. \<open>None\<close> is the panic of \<open>make\<close> with a negative capacity, which a
  negative limit causes when a page of the unfiltered list is not empty.
\<close>

definition GetLogs_mem :: "int \<Rightarrow> int \<Rightarrow> string \<Rightarrow> query_logger \<Rightarrow> (log_entry list \<times> int) option" where
  "GetLogs_mem offset limit search l =
     (if \<not> enabled l then Some ([], 0)
      else if search = [] then
        (let total = int (length (logs l)) in
         if total = 0 \<or> total \<le> offset \<or> offset < 0 then Some ([], total)
         else if min limit (total - offset) < 0 then None
         else Some (page_loop l limit (nat (total - offset)) [], total))
      else Some (search_loop l offset limit (strings_ToLower search) (length (logs l)) [] 0))"

definition GetStats_mem :: "int \<Rightarrow> query_logger \<Rightarrow> log_stats" where
  "GetStats_mem now l = (stats l)\<lparr>QPS := currentQPS now l\<rparr>"

definition Clear :: "query_logger \<Rightarrow> query_logger" where
  "Clear l = l\<lparr>logs := [], logsStart := 0, recentLogs := [], recentStart := 0,
     stats := (stats l)\<lparr>TopClients := [], TopDomains := []\<rparr>\<rparr>"

text \<open>A whole run of additions: what the query path does over time.\<close>

fun AddLogs :: "(int \<times> log_entry) list \<Rightarrow> query_logger \<Rightarrow> query_logger" where
  "AddLogs [] l = l"
| "AddLogs ((now, e) # es) l = AddLogs es (AddLog_mem now e l)"

fun stamped :: "int \<Rightarrow> (int \<times> log_entry) list \<Rightarrow> log_entry list" where
  "stamped ident [] = []"
| "stamped ident ((now, e) # es) = stamp ident now e # stamped (i64 (ident + 1)) es"

section \<open>Lemmas on the operations\<close>

definition same_ring :: "query_logger \<Rightarrow> query_logger \<Rightarrow> bool" where
  "same_ring l l' \<longleftrightarrow> logs l = logs l' \<and> logsStart l = logsStart l' \<and> maxHistory l = maxHistory l'
     \<and> TopClients (stats l) = TopClients (stats l') \<and> TopDomains (stats l) = TopDomains (stats l')"

lemma same_ring_refl [simp]: "same_ring l l"
  by (simp add: same_ring_def)

lemma same_ring_history: "same_ring l l' \<Longrightarrow> history l = history l'"
  by (simp add: same_ring_def history_def logAt_def fun_eq_iff)

lemma same_ring_ok: "same_ring l l' \<Longrightarrow> ring_ok l = ring_ok l'"
  by (simp add: same_ring_def ring_ok_def)

lemma same_ring_add: "same_ring l l' \<Longrightarrow> same_ring (addToMemory e l) (addToMemory e l')"
  by (simp add: same_ring_def addToMemory_def decrementTopCounters_def Let_def)

lemma recordRecentLog_same_ring: "same_ring (recordRecentLog ts l) l"
  by (simp add: same_ring_def recordRecentLog_def Let_def)

lemma updateTotals_same_ring: "same_ring (updateTotals e l) l"
  by (simp add: same_ring_def updateTotals_def Let_def)

lemma recordRecentLog_frame [simp]:
  "stats (recordRecentLog ts l) = stats l" "nextID (recordRecentLog ts l) = nextID l"
  "enabled (recordRecentLog ts l) = enabled l" "closed (recordRecentLog ts l) = closed l"
  "maxHistory (recordRecentLog ts l) = maxHistory l" "saveToFile (recordRecentLog ts l) = saveToFile l"
  "filePath (recordRecentLog ts l) = filePath l" "fileQueue (recordRecentLog ts l) = fileQueue l"
  "persistedLogCount (recordRecentLog ts l) = persistedLogCount l"
  "maxSizeMB (recordRecentLog ts l) = maxSizeMB l"
  by (simp_all add: recordRecentLog_def Let_def)

lemma updateTotals_frame [simp]:
  "nextID (updateTotals e l) = nextID l" "enabled (updateTotals e l) = enabled l"
  "closed (updateTotals e l) = closed l" "maxHistory (updateTotals e l) = maxHistory l"
  "recentLogs (updateTotals e l) = recentLogs l" "recentStart (updateTotals e l) = recentStart l"
  "saveToFile (updateTotals e l) = saveToFile l" "filePath (updateTotals e l) = filePath l"
  "fileQueue (updateTotals e l) = fileQueue l" "persistedLogCount (updateTotals e l) = persistedLogCount l"
  "maxSizeMB (updateTotals e l) = maxSizeMB l"
  by (simp_all add: updateTotals_def Let_def)

lemma AddLog_same_ring:
  assumes "enabled l" "\<not> closed l" "same_ring l l'"
  shows "same_ring (AddLog_mem now e l) (addToMemory (stamp (nextID l) now e) l')"
proof -
  have "same_ring (updateTotals x (recordRecentLog ts (l\<lparr>nextID := n\<rparr>))) l'" for x ts n
    using assms(3) updateTotals_same_ring [of x "recordRecentLog ts (l\<lparr>nextID := n\<rparr>)"]
      recordRecentLog_same_ring [of ts "l\<lparr>nextID := n\<rparr>"]
    by (simp add: same_ring_def)
  with assms(1,2) show ?thesis by (simp add: AddLog_mem_def AddLog_locked_def Let_def same_ring_add)
qed

lemma AddLog_frame:
  "enabled (AddLog_mem now e l) = enabled l" "closed (AddLog_mem now e l) = closed l"
  "maxHistory (AddLog_mem now e l) = maxHistory l"
  "enabled l \<Longrightarrow> \<not> closed l \<Longrightarrow> nextID (AddLog_mem now e l) = i64 (nextID l + 1)"
  by (simp_all add: AddLog_mem_def AddLog_locked_def Let_def)

lemma AddLogs_frame:
  "enabled (AddLogs es l) = enabled l" "closed (AddLogs es l) = closed l"
  "maxHistory (AddLogs es l) = maxHistory l"
  by (induction es l rule: AddLogs.induct) (simp_all add: AddLog_frame)

lemma AddLogs_same_ring:
  assumes "enabled l" "\<not> closed l" "same_ring l l'"
  shows "same_ring (AddLogs es l) (fold addToMemory (stamped (nextID l) es) l')"
  using assms
proof (induction es arbitrary: l l')
  case Nil
  then show ?case by simp
next
  case (Cons p es)
  obtain now e where p: "p = (now, e)" by (cases p)
  from Cons.prems have "same_ring (AddLog_mem now e l) (addToMemory (stamp (nextID l) now e) l')"
    by (rule AddLog_same_ring)
  with Cons.IH [of "AddLog_mem now e l"] Cons.prems p show ?case by (simp add: AddLog_frame)
qed

lemma stamp_fields [simp]:
  "le_ClientIP (stamp n t e) = le_ClientIP e" "le_Domain (stamp n t e) = le_Domain e"
  "le_Upstream (stamp n t e) = le_Upstream e" "le_ID (stamp n t e) = n"
  by (simp_all add: stamp_def)

lemma length_stamped [simp]: "length (stamped n es) = length es"
  by (induction n es rule: stamped.induct) auto

lemma map_stamped:
  assumes "\<And>n t e. f (stamp n t e) = f e"
  shows "map f (stamped n es) = map (f \<circ> snd) es"
  using assms by (induction n es rule: stamped.induct) auto

lemma stamped_ids:
  "in_i64 n \<Longrightarrow> n + int (length es) < 2 ^ 63 \<Longrightarrow>
     map le_ID (stamped n es) = map (\<lambda>i. n + int i) [0..<length es]"
proof (induction n es rule: stamped.induct)
  case (2 n now e es)
  then have i: "i64 (n + 1) = n + 1" "in_i64 (n + 1)" by (auto simp: i64_id in_i64_def)
  with 2 have "map le_ID (stamped (n + 1) es) = map (\<lambda>i. n + 1 + int i) [0..<length es]" by simp
  with i show ?case by (simp add: upt_conv_Cons o_def algebra_simps flip: map_Suc_upt del: upt_Suc)
qed simp

lemma AddLogs_history:
  assumes "enabled l" "\<not> closed l" "ring_ok l"
  shows "history (AddLogs es l) = lastn (nat (maxHistory l)) (history l @ stamped (nextID l) es)"
  using same_ring_history [OF AddLogs_same_ring [OF assms(1,2) same_ring_refl, of es]]
    ring.contents_fold [OF assms(3)] by simp

lemma AddLogs_ring_ok:
  assumes "enabled l" "\<not> closed l" "ring_ok l"
  shows "ring_ok (AddLogs es l)"
  using same_ring_ok [OF AddLogs_same_ring [OF assms(1,2) same_ring_refl, of es]]
    ring.invar_fold [OF assms(3)] by simp

lemma ring_ok_New: "maxHist < 2 ^ 63 - 1 \<Longrightarrow> ring_ok (NewQueryLogger_mem en maxHist maxMB path save now)"
  by (simp add: ring_ok_def NewQueryLogger_mem_def defaultMaxMemoryLogs_def key_counter.counts_empty)

lemma history_New [simp]: "history (NewQueryLogger_mem en maxHist maxMB path save now) = []"
  by (simp add: history_def NewQueryLogger_mem_def)

lemma ring_ok_counts:
  assumes "ring_ok l"
  shows "counter_get (TopClients (stats l)) k = int (count_list (map le_ClientIP (history l)) k)"
    and "counter_get (TopDomains (stats l)) k = int (count_list (map le_Domain (history l)) k)"
    and "fst ` set (TopClients (stats l)) = le_ClientIP ` set (history l)"
    and "fst ` set (TopDomains (stats l)) = le_Domain ` set (history l)"
proof -
  have m: "mset (history l) = mset (logs l)" by (rule mset_history [OF ring_start [OF assms]])
  then have c: "mset (map f (logs l)) = mset (map f (history l))" for f :: "log_entry \<Rightarrow> string"
    using arg_cong [OF m, of "image_mset f"] by simp
  from assms have "key_counter.counts (TopClients (stats l)) (map le_ClientIP (history l))"
    "key_counter.counts (TopDomains (stats l)) (map le_Domain (history l))"
    using key_counter.counts_mset [OF c] by (auto simp: ring_ok_def)
  then show "counter_get (TopClients (stats l)) k = int (count_list (map le_ClientIP (history l)) k)"
    and "counter_get (TopDomains (stats l)) k = int (count_list (map le_Domain (history l)) k)"
    and "fst ` set (TopClients (stats l)) = le_ClientIP ` set (history l)"
    and "fst ` set (TopDomains (stats l)) = le_Domain ` set (history l)"
    by (simp_all add: key_counter.counts_def)
qed


subsection \<open>The rate window\<close>

definition window :: "query_logger \<Rightarrow> int list" where
  "window l = drop (recentStart l) (recentLogs l)"

lemma advance_start_drop:
  "i \<le> length ts \<Longrightarrow> drop (advance_start ts c i) ts = dropWhile (\<lambda>t. t < c) (drop i ts)
     \<and> advance_start ts c i \<le> length ts"
proof (induction ts c i rule: advance_start.induct)
  case (1 ts c i)
  show ?case
  proof (cases "i < length ts \<and> ts ! i < c")
    case True
    with 1 show ?thesis
      by (simp add: advance_start.simps [of ts c i] Cons_nth_drop_Suc [symmetric])
  next
    case False
    then have "drop i ts = dropWhile (\<lambda>t. t < c) (drop i ts)"
      by (cases "i < length ts") (simp_all add: Cons_nth_drop_Suc [symmetric])
    moreover from False have "advance_start ts c i = i"
      by (subst advance_start.simps) (rule if_not_P)
    ultimately show ?thesis using 1(2) by simp
  qed
qed

definition window_ok :: "query_logger \<Rightarrow> bool" where
  "window_ok l \<longleftrightarrow> recentStart l \<le> length (recentLogs l)
     \<and> length (recentLogs l) \<le> 2 * length (window l)"

lemma window_record:
  assumes "recentStart l \<le> length (recentLogs l)"
  shows "window (recordRecentLog ts l) = dropWhile (\<lambda>t. t < ts - qpsWindow) (window l @ [ts])"
    and "window_ok (recordRecentLog ts l)"
  using assms advance_start_drop [of "recentStart l" "recentLogs l @ [ts]" "ts - qpsWindow"]
  by (auto simp: window_def window_ok_def recordRecentLog_def Let_def)

lemma sorted_window:
  "sorted ts \<Longrightarrow> dropWhile (\<lambda>t. t < c) ts = filter (\<lambda>t. c \<le> (t :: int)) ts"
proof (induction ts)
  case (Cons t ts)
  then show ?case by (cases "t < c") (auto simp: filter_id_conv intro!: sym [OF filter_True])
qed simp

lemma record_times:
  assumes "sorted (T @ [t])" and "recentStart l \<le> length (recentLogs l)"
    and "window l = filter (\<lambda>u. c \<le> u) T" and "c \<le> t - qpsWindow"
  shows "window (recordRecentLog t l) = filter (\<lambda>u. t - qpsWindow \<le> u) (T @ [t])"
proof -
  have "sorted (filter (\<lambda>u. c \<le> u) T @ [t])"
    using assms(1) sorted_filter [of id T "\<lambda>u. c \<le> u"] by (auto simp: sorted_append)
  then have "window (recordRecentLog t l)
      = filter (\<lambda>u. t - qpsWindow \<le> u) (filter (\<lambda>u. c \<le> u) T @ [t])"
    unfolding window_record(1) [OF assms(2)] assms(3) by (rule sorted_window)
  moreover have "filter (\<lambda>u. t - qpsWindow \<le> u) (filter (\<lambda>u. c \<le> u) T) = filter (\<lambda>u. t - qpsWindow \<le> u) T"
    using assms(4) by (auto simp: intro!: filter_cong)
  ultimately show ?thesis by simp
qed

lemma count_recent_takeWhile:
  "start \<le> n \<Longrightarrow> n \<le> length ts \<Longrightarrow>
     count_recent ts c start n = length (takeWhile (\<lambda>t. c \<le> t) (rev (drop start (take n ts))))"
proof (induction n)
  case (Suc i)
  show ?case
  proof (cases "start \<le> i")
    case True
    then have "rev (drop start (take (Suc i) ts)) = ts ! i # rev (drop start (take i ts))"
      using Suc.prems by (simp add: take_Suc_conv_app_nth)
    with True Suc show ?thesis by simp
  next
    case False
    with Suc.prems show ?thesis by simp
  qed
qed simp

lemma sorted_rev_takeWhile:
  "sorted ts \<Longrightarrow> length (takeWhile (\<lambda>t. c \<le> t) (rev ts)) = length (filter (\<lambda>t. c \<le> (t :: int)) ts)"
proof (induction ts rule: rev_induct)
  case (snoc t ts)
  show ?case
  proof (cases "c \<le> t")
    case True
    with snoc show ?thesis by (simp add: sorted_append)
  next
    case False
    with snoc.prems show ?thesis by (auto simp: sorted_append filter_empty_conv)
  qed
qed simp

lemma currentQPS_window:
  assumes "recentStart l \<le> length (recentLogs l)" and "sorted (window l)"
  shows "currentQPS now l = of_nat (length (filter (\<lambda>t. now - qpsWindow \<le> t) (window l))) / 10"
proof -
  have "count_recent (recentLogs l) (now - qpsWindow) (recentStart l) (length (recentLogs l))
      = length (takeWhile (\<lambda>t. now - qpsWindow \<le> t) (rev (window l)))"
    using assms(1) by (simp add: count_recent_takeWhile window_def)
  then show ?thesis
    using assms(2) by (auto simp: currentQPS_def sorted_rev_takeWhile window_def)
qed


text \<open>The window holds what the ten seconds before the newest of the recorded times \<open>T\<close> contain.\<close>

definition recent_inv :: "int list \<Rightarrow> query_logger \<Rightarrow> bool" where
  "recent_inv T l \<longleftrightarrow> sorted T \<and> window_ok l \<and> window l = filter (\<lambda>u. last T - qpsWindow \<le> u) T"

lemma recent_inv_record:
  assumes "recent_inv T l" and "sorted (T @ [t])"
  shows "recent_inv (T @ [t]) (recordRecentLog t l)"
proof -
  have ok: "recentStart l \<le> length (recentLogs l)" using assms(1) by (simp add: recent_inv_def window_ok_def)
  have "\<exists>c. window l = filter (\<lambda>u. c \<le> u) T \<and> c \<le> t - qpsWindow"
  proof (cases "T = []")
    case True
    with assms(1) show ?thesis by (intro exI [of _ "t - qpsWindow"]) (simp add: recent_inv_def)
  next
    case False
    then have "last T \<le> t" using assms(2) by (simp add: sorted_append)
    with assms(1) show ?thesis by (intro exI [of _ "last T - qpsWindow"]) (simp add: recent_inv_def)
  qed
  then obtain c where "window l = filter (\<lambda>u. c \<le> u) T" "c \<le> t - qpsWindow" by blast
  from record_times [OF assms(2) ok this] assms(2) window_record(2) [OF ok, of t]
  show ?thesis by (simp add: recent_inv_def)
qed

lemma recent_inv_cong:
  assumes "recent_inv T l" and "recentLogs l' = recentLogs l \<and> recentStart l' = recentStart l"
  shows "recent_inv T l'"
proof -
  have "window l' = window l" using assms(2) by (simp add: window_def)
  moreover from this have "window_ok l' = window_ok l" using assms(2) by (simp add: window_ok_def)
  ultimately show ?thesis using assms(1) by (simp add: recent_inv_def)
qed

lemma AddLog_recent:
  "enabled l \<Longrightarrow> \<not> closed l \<Longrightarrow>
     recentLogs (AddLog_mem now e l) = recentLogs (recordRecentLog (le_Time (stamp (nextID l) now e)) l)
     \<and> recentStart (AddLog_mem now e l) = recentStart (recordRecentLog (le_Time (stamp (nextID l) now e)) l)"
  by (simp add: AddLog_mem_def AddLog_locked_def Let_def) (simp add: recordRecentLog_def Let_def)

lemma AddLog_recent_inv:
  assumes "enabled l" "\<not> closed l" "recent_inv T l"
    and "sorted (T @ [le_Time (stamp (nextID l) now e)])"
  shows "recent_inv (T @ [le_Time (stamp (nextID l) now e)]) (AddLog_mem now e l)"
  using recent_inv_record [OF assms(3,4)] AddLog_recent [OF assms(1,2), of now e]
  by (blast intro: recent_inv_cong)

lemma AddLogs_recent_inv:
  assumes "enabled l" "\<not> closed l" "recent_inv T l"
    and "sorted (T @ map le_Time (stamped (nextID l) es))"
  shows "recent_inv (T @ map le_Time (stamped (nextID l) es)) (AddLogs es l)"
  using assms
proof (induction es arbitrary: l T)
  case Nil
  then show ?case by simp
next
  case (Cons p es)
  obtain now e where p: "p = (now, e)" by (cases p)
  let ?t = "le_Time (stamp (nextID l) now e)"
  from Cons.prems(4) p have "sorted (T @ [?t])" by (auto simp: sorted_append)
  from AddLog_recent_inv [OF Cons.prems(1-3) this]
  have "recent_inv (T @ [?t]) (AddLog_mem now e l)" .
  with Cons.IH [of "AddLog_mem now e l" "T @ [?t]"] Cons.prems p show ?case by (simp add: AddLog_frame)
qed

lemma recent_inv_New: "recent_inv [] (NewQueryLogger_mem en maxHist maxMB path save now)"
  by (simp add: recent_inv_def window_ok_def window_def NewQueryLogger_mem_def)

subsection \<open>Totals\<close>

definition is_cn :: "log_entry \<Rightarrow> bool" where
  "is_cn e = strings_Contains (le_Upstream e) ''CN''"

definition is_overseas :: "log_entry \<Rightarrow> bool" where
  "is_overseas e \<longleftrightarrow> \<not> is_cn e \<and> strings_Contains (le_Upstream e) ''Overseas''"

definition totals_ok :: "log_entry list \<Rightarrow> log_stats \<Rightarrow> bool" where
  "totals_ok es s \<longleftrightarrow> TotalQueries s = int (length es) \<and> TotalCN s = int (length (filter is_cn es))
     \<and> TotalOverseas s = int (length (filter is_overseas es))"

lemma totals_step:
  assumes "totals_ok es (stats l)" and "length es < 2 ^ 63 - 1"
  shows "totals_ok (es @ [e]) (stats (updateTotals e l))"
proof -
  have w: "i64 (int n + 1) = int n + 1" if "n \<le> length es" for n
    using that assms(2) by (intro i64_id) (simp add: in_i64_def)
  have "i64 (int (length (filter P es)) + 1) = int (length (filter P es)) + 1" for P
    by (rule w) simp
  moreover have "i64 (int (length es) + 1) = int (length es) + 1" by (rule w) simp
  ultimately show ?thesis
    using assms(1)
    by (auto simp: totals_ok_def updateTotals_def Let_def is_cn_def is_overseas_def)
qed

lemma AddLog_totals:
  assumes "enabled l" "\<not> closed l" "totals_ok es (stats l)" "length es < 2 ^ 63 - 1"
  shows "totals_ok (es @ [e]) (stats (AddLog_mem now e l))"
proof -
  let ?l1 = "recordRecentLog (le_Time (stamp (nextID l) now e)) (l\<lparr>nextID := i64 (nextID l + 1)\<rparr>)"
  have "totals_ok es (stats ?l1)" using assms(3) by simp
  from totals_step [OF this assms(4), of "stamp (nextID l) now e"] assms(1,2) show ?thesis
    by (simp add: AddLog_mem_def AddLog_locked_def Let_def totals_ok_def is_cn_def is_overseas_def)
qed

lemma AddLogs_totals:
  assumes "enabled l" "\<not> closed l" "totals_ok old (stats l)" "length old + length es < 2 ^ 63"
  shows "totals_ok (old @ map snd es) (stats (AddLogs es l))"
  using assms
proof (induction es arbitrary: l old)
  case Nil
  then show ?case by simp
next
  case (Cons p es)
  obtain now e where p: "p = (now, e)" by (cases p)
  from Cons.prems have "totals_ok (old @ [e]) (stats (AddLog_mem now e l))" by (intro AddLog_totals) simp_all
  with Cons.IH [of "AddLog_mem now e l" "old @ [e]"] Cons.prems p show ?case by (simp add: AddLog_frame)
qed

subsection \<open>Reading pages\<close>

lemma rev_take_history:
  "Suc i \<le> length (logs l) \<Longrightarrow> rev (take (Suc i) (history l)) = logAt l i # rev (take i (history l))"
  by (simp add: take_Suc_conv_app_nth) (simp add: history_def)

lemma page_loop_take:
  "n \<le> length (logs l) \<Longrightarrow> page_loop l limit n result
     = result @ take (nat (limit - int (length result))) (rev (take n (history l)))"
proof (induction n arbitrary: result)
  case (Suc i)
  show ?case
  proof (cases "int (length result) < limit")
    case True
    then have "nat (limit - int (length result)) = Suc (nat (limit - int (length result) - 1))" by simp
    with True Suc show ?thesis by (simp add: rev_take_history algebra_simps)
  next
    case False
    then show ?thesis by simp
  qed
qed simp

lemma GetLogs_page:
  assumes "enabled l" and "0 \<le> offset" and "0 \<le> limit"
  shows "GetLogs_mem offset limit [] l
    = Some (take (nat limit) (drop (nat offset) (rev (history l))), int (length (history l)))"
proof (cases "int (length (logs l)) \<le> offset")
  case True
  then have "length (logs l) \<le> nat offset" by simp
  with True assms show ?thesis by (simp add: GetLogs_mem_def)
next
  case False
  define n where "n = nat (int (length (logs l)) - offset)"
  have n: "n \<le> length (logs l)" "n = length (logs l) - nat offset" using assms(2) by (auto simp: n_def)
  have r: "rev (take n (history l)) = drop (nat offset) (rev (history l))"
    unfolding n(2) by (simp add: rev_take)
      (use False assms(2) in \<open>simp add: nat_le_iff\<close>)
  have "page_loop l limit n [] = take (nat limit) (drop (nat offset) (rev (history l)))"
    using page_loop_take [OF n(1), of limit "[]"] r by simp
  with False assms show ?thesis by (simp add: GetLogs_mem_def n_def Let_def)
qed

lemma search_loop_filter:
  assumes "n \<le> length (logs l)" and "0 \<le> cnt" and "cnt + int n < 2 ^ 63" and "0 \<le> limit"
    and "int (length result) \<le> limit"
  shows "search_loop l offset limit q n result cnt =
    (result @ take (nat (limit - int (length result)))
        (drop (nat (offset - cnt)) (filter (\<lambda>e. log_matches e q) (rev (take n (history l))))),
     cnt + int (length (filter (\<lambda>e. log_matches e q) (take n (history l)))))"
  using assms
proof (induction n arbitrary: result cnt)
  case (Suc i)
  have rt: "rev (take (Suc i) (history l)) = logAt l i # rev (take i (history l))"
    using Suc.prems(1) by (rule rev_take_history)
  have len: "length (filter (\<lambda>e. log_matches e q) (take (Suc i) (history l)))
      = length (filter (\<lambda>e. log_matches e q) (logAt l i # rev (take i (history l))))"
    using arg_cong [OF rt, of "\<lambda>xs. length (filter (\<lambda>e. log_matches e q) xs)"]
    by (simp add: rev_filter [symmetric])
  have w: "i64 (cnt + 1) = cnt + 1" using Suc.prems by (intro i64_id) (simp add: in_i64_def)
  show ?case
  proof (cases "log_matches (logAt l i) q")
    case False
    with Suc rt len show ?thesis by (simp add: rev_filter [symmetric])
  next
    case True
    show ?thesis
    proof (cases "offset \<le> cnt \<and> int (length result) < limit")
      case take: True
      then have "int (length result) < limit" by simp
      then have "nat (limit - int (length result)) = Suc (nat (limit - int (length result) - 1))" by simp
      with take True Suc w rt len show ?thesis by (simp add: rev_filter [symmetric] algebra_simps)
    next
      case skip: False
      have "take (nat (limit - int (length result))) (drop (nat (offset - cnt)) (e # es))
          = take (nat (limit - int (length result))) (drop (nat (offset - (cnt + 1))) es)"
        for e :: log_entry and es
      proof (cases "offset \<le> cnt")
        case True
        with skip Suc.prems(5) show ?thesis by simp
      next
        case False
        then have "nat (offset - cnt) = Suc (nat (offset - (cnt + 1)))" by simp
        then show ?thesis by simp
      qed
      with skip True Suc w rt len show ?thesis
        by (auto simp: rev_filter [symmetric])
    qed
  qed
qed simp


lemma GetLogs_search:
  assumes "enabled l" and "search \<noteq> []" and "0 \<le> limit" and "int (length (history l)) < 2 ^ 63"
  shows "GetLogs_mem offset limit search l =
    (let found = filter (\<lambda>e. log_matches e (strings_ToLower search)) (rev (history l))
     in Some (take (nat limit) (drop (nat offset) found), int (length found)))"
proof -
  have "take (length (logs l)) (history l) = history l" by simp
  moreover have "length (filter P (history l)) = length (filter P (rev (history l)))" for P
    by (simp add: rev_filter [symmetric])
  ultimately show ?thesis
    using assms search_loop_filter [of "length (logs l)" l 0 limit "[]" offset "strings_ToLower search"]
    by (simp add: GetLogs_mem_def Let_def)
qed

lemma AddLogs_totals_New:
  assumes "length es < 2 ^ 63"
  shows "totals_ok (map snd es) (stats (AddLogs es (NewQueryLogger_mem True maxHist maxMB path save now)))"
  using AddLogs_totals [of "NewQueryLogger_mem True maxHist maxMB path save now" "[]" es] assms
  by (simp add: NewQueryLogger_mem_def totals_ok_def)

lemma New_fields [simp]:
  "enabled (NewQueryLogger_mem en maxHist maxMB path save now) = en"
  "\<not> closed (NewQueryLogger_mem en maxHist maxMB path save now)"
  "nextID (NewQueryLogger_mem en maxHist maxMB path save now) = 1"
  "maxHistory (NewQueryLogger_mem en maxHist maxMB path save now)
     = (if maxHist \<le> 0 then defaultMaxMemoryLogs else maxHist)"
  by (simp_all add: NewQueryLogger_mem_def)

lemma take_pages: "concat (map (\<lambda>k. take n (drop (k * n) xs)) [0..<m]) = take (m * n) xs"
proof (induction m)
  case (Suc m)
  have "take (m * n + n) xs = take (m * n) xs @ take n (drop (m * n) xs)" by (rule take_add)
  with Suc show ?case by (simp add: add.commute)
qed simp

section \<open>Properties\<close>

text \<open>
  C5: The ring buffer is a bounded log: however many queries an enabled logger has recorded, its
  entries, oldest first, are exactly the newest \<open>maxHistory\<close> of them in the order they were
  added, each stamped with its identifier and time; overwriting never loses a newer entry, keeps
  an evicted one or disturbs the order, and the buffer stays well formed for the next addition.
\<close>

theorem AddLogs_keeps_newest:
  assumes "enabled l" and "\<not> closed l" and "ring_ok l"
  shows "history (AddLogs es l) = lastn (nat (maxHistory l)) (history l @ stamped (nextID l) es)
    \<and> ring_ok (AddLogs es l)"
  using AddLogs_history [OF assms] AddLogs_ring_ok [OF assms] by blast

text \<open>
  C6: The top counters never drift from the buffer: after any run of additions to a fresh logger
  the counter of a client (domain) is the number of times it occurs among the newest
  \<open>maxHistory\<close> entries, and a client (domain) has a counter only while it occurs there, so the
  maps stay as small as the buffer.
\<close>

theorem top_counters_exact:
  assumes "maxHist < 2 ^ 63 - 1"
    and "l = AddLogs es (NewQueryLogger_mem True maxHist maxMB path save now)"
    and "recent = lastn (nat (if maxHist \<le> 0 then defaultMaxMemoryLogs else maxHist)) (map snd es)"
  shows "counter_get (TopClients (GetStats_mem t l)) k = int (count_list (map le_ClientIP recent) k)
    \<and> counter_get (TopDomains (GetStats_mem t l)) k = int (count_list (map le_Domain recent) k)
    \<and> fst ` set (TopClients (GetStats_mem t l)) = le_ClientIP ` set recent
    \<and> fst ` set (TopDomains (GetStats_mem t l)) = le_Domain ` set recent"
proof -
  let ?l0 = "NewQueryLogger_mem True maxHist maxMB path save now"
  have ok: "ring_ok ?l0" using assms(1) by (rule ring_ok_New)
  have h: "history l = lastn (nat (maxHistory ?l0)) (stamped 1 es)"
    using AddLogs_history [OF _ _ ok, of es] assms(2) by simp
  have f: "map f (history l) = map f recent" if "\<And>n t e. f (stamp n t e) = f e" for f :: "log_entry \<Rightarrow> string"
    unfolding h assms(3) by (simp add: map_lastn map_stamped [OF that])
  then have m: "map le_ClientIP (history l) = map le_ClientIP recent"
    "map le_Domain (history l) = map le_Domain recent" by simp_all
  have ok': "ring_ok l" unfolding assms(2) by (rule AddLogs_ring_ok [OF _ _ ok]) simp_all
  have "le_ClientIP ` set (history l) = le_ClientIP ` set recent"
    "le_Domain ` set (history l) = le_Domain ` set recent"
    using m by (metis list.set_map)+
  with ring_ok_counts [OF ok'] m show ?thesis by (simp add: GetStats_mem_def)
qed

text \<open>
  The lifetime totals are exact and independent of the buffer's size: after any run of
  additions the query total is the number of queries, the CN total the number whose upstream
  label contains \<open>CN\<close>, the overseas total the number of the others whose label contains
  \<open>Overseas\<close>; no query is counted on both sides, so the two never exceed the total.
\<close>

theorem totals_exact:
  assumes "length es < 2 ^ 63"
    and "s = GetStats_mem t (AddLogs es (NewQueryLogger_mem True maxHist maxMB path save now))"
  shows "TotalQueries s = int (length es)
    \<and> TotalCN s = int (length (filter is_cn (map snd es)))
    \<and> TotalOverseas s = int (length (filter is_overseas (map snd es)))
    \<and> TotalCN s + TotalOverseas s \<le> TotalQueries s"
proof -
  have "length (filter is_cn xs) + length (filter is_overseas xs) \<le> length xs" for xs
    by (induction xs) (auto simp: is_overseas_def)
  from this [of "map snd es"] AddLogs_totals_New [OF assms(1), of maxHist maxMB path save now]
  show ?thesis unfolding assms(2) by (simp add: totals_ok_def GetStats_mem_def)
qed

text \<open>
  Paging through the log with a fixed page size visits the entries newest first, each exactly
  once: the pages at offsets 0, limit, 2 limit, ... concatenate to the reversed history, and
  every page reports the number of entries as its total.
\<close>

theorem pages_cover_history:
  assumes "enabled l" and "0 \<le> limit" and "length (logs l) \<le> n * nat limit"
  shows "concat (map (\<lambda>k. fst (the (GetLogs_mem (int k * limit) limit [] l))) [0..<n]) = rev (history l)
    \<and> (\<forall>k. \<exists>page. GetLogs_mem (int k * limit) limit [] l = Some (page, int (length (logs l))))"
proof -
  have p: "GetLogs_mem (int k * limit) limit [] l
      = Some (take (nat limit) (drop (k * nat limit) (rev (history l))), int (length (logs l)))" for k
    using GetLogs_page [OF assms(1), of "int k * limit" limit] assms(2) by (simp add: nat_mult_distrib)
  with assms(3) show ?thesis by (simp add: take_pages)
qed

text \<open>
  A search returns the requested slice of exactly the matching entries, newest first, and the
  number of all matches, for every offset (negative ones included) and every non-negative limit.
\<close>

theorem search_returns_matches:
  assumes "enabled l" and "search \<noteq> []" and "0 \<le> limit" and "int (length (history l)) < 2 ^ 63"
  shows "GetLogs_mem offset limit search l =
    (let found = filter (\<lambda>e. log_matches e (strings_ToLower search)) (rev (history l))
     in Some (take (nat limit) (drop (nat offset) found), int (length found)))"
  using assms by (rule GetLogs_search)

text \<open>
  C39: The rate shown is the true one: if the entries' times do not decrease, the reported
  queries per second, times ten, is the number of recorded entries of the last ten seconds, no
  matter how often the window was compacted; and the expired prefix kept for that purpose is
  never longer than the live part of the window.
\<close>

theorem qps_counts_last_ten_seconds:
  assumes "l = AddLogs es (NewQueryLogger_mem True maxHist maxMB path save now)"
    and "sorted (map le_Time (stamped 1 es))"
    and "\<forall>e \<in> set (stamped 1 es). le_Time e \<le> t"
  shows "QPS (GetStats_mem t l) * 10
      = of_nat (length (filter (\<lambda>e. t - qpsWindow \<le> le_Time e) (stamped 1 es)))
    \<and> recentStart l \<le> length (recentLogs l) - recentStart l"
proof -
  let ?T = "map le_Time (stamped 1 es)"
  have inv: "recent_inv ?T l"
    using AddLogs_recent_inv [OF _ _ recent_inv_New, of True maxHist maxMB path save now es] assms(1,2) by simp
  then have ok: "recentStart l \<le> length (recentLogs l)" "length (recentLogs l) \<le> 2 * length (window l)"
    and w: "window l = filter (\<lambda>u. last ?T - qpsWindow \<le> u) ?T"
    unfolding recent_inv_def window_ok_def by blast+
  have "sorted (window l)" unfolding w using assms(2) sorted_filter [of id] by simp
  from currentQPS_window [OF ok(1) this, of t]
  have q: "currentQPS t l * 10 = of_nat (length (filter (\<lambda>u. t - qpsWindow \<le> u) (window l)))" by simp
  have "filter (\<lambda>u. t - qpsWindow \<le> u) (window l) = filter (\<lambda>u. t - qpsWindow \<le> u) ?T"
  proof (cases "?T = []")
    case False
    then have "last ?T \<in> le_Time ` set (stamped 1 es)" by (metis last_in_set list.set_map)
    moreover have "u \<le> t" if "u \<in> le_Time ` set (stamped 1 es)" for u using assms(3) that by auto
    ultimately have "last ?T \<le> t" by blast
    then show ?thesis unfolding w by (auto intro!: filter_cong)
  qed (simp add: w)
  with q ok show ?thesis by (simp add: GetStats_mem_def window_def filter_map o_def)
qed

section \<open>Witnesses\<close>

definition sample_entry :: "string \<Rightarrow> string \<Rightarrow> string \<Rightarrow> log_entry" where
  "sample_entry client domain upstream =
     \<lparr>le_ID = 0, le_Time = 0, le_ClientIP = client, le_DownstreamECS = [], le_Domain = domain,
      le_Type = ''A'', le_Upstream = upstream, le_Answer = [], le_AnswerRecords = [],
      le_DurationMs = 3, le_Status = ''NOERROR''\<rparr>"

definition sample_entries :: "(int \<times> log_entry) list" where
  "sample_entries =
     [(10, sample_entry ''c1'' ''a.cn.'' ''Rule(CN)''),
      (20, sample_entry ''c2'' ''b.com.'' ''Rule(Overseas)''),
      (30, sample_entry ''c1'' ''c.com.'' ''Hosts'')]"

definition sample_logger :: query_logger where
  "sample_logger = NewQueryLogger_mem True 2 1 [] False 5"

lemma sample_ring: "ring_ok sample_logger" "enabled sample_logger" "\<not> closed sample_logger"
  by (simp_all add: sample_logger_def ring_ok_New)

theorem AddLogs_keeps_newest_witness:
  "history (AddLogs sample_entries sample_logger) =
     [stamp 2 20 (sample_entry ''c2'' ''b.com.'' ''Rule(Overseas)''),
      stamp 3 30 (sample_entry ''c1'' ''c.com.'' ''Hosts'')]
   \<and> ring_ok (AddLogs sample_entries sample_logger)"
  using AddLogs_keeps_newest [OF sample_ring(2,3,1), of sample_entries]
  by (simp add: sample_entries_def sample_logger_def lastn_def i64_id in_i64_def)

theorem top_counters_exact_witness:
  "counter_get (TopClients (GetStats_mem 40 (AddLogs sample_entries
       (NewQueryLogger_mem True 2 1 [] False 5)))) ''c1'' = 1"
  using top_counters_exact [OF _ refl refl, of 2 40 sample_entries 1 "[]" False 5 "''c1''"]
  by (simp add: sample_entries_def sample_entry_def lastn_def)

theorem totals_exact_witness:
  "TotalQueries (GetStats_mem 40 (AddLogs sample_entries (NewQueryLogger_mem True 2 1 [] False 5))) = 3
   \<and> TotalCN (GetStats_mem 40 (AddLogs sample_entries (NewQueryLogger_mem True 2 1 [] False 5))) = 1"
proof -
  have "is_cn (sample_entry c d ''Rule(CN)'')" "\<not> is_cn (sample_entry c d ''Rule(Overseas)'')"
    "\<not> is_cn (sample_entry c d ''Hosts'')" for c d
    by (simp_all add: is_cn_def sample_entry_def) code_simp+
  then show ?thesis
    using totals_exact [OF _ refl, of sample_entries 40 2 1 "[]" False 5]
    by (simp add: sample_entries_def)
qed

theorem pages_cover_history_witness:
  "concat (map (\<lambda>k. fst (the (GetLogs_mem (int k * 1) 1 [] (AddLogs sample_entries sample_logger)))) [0..<2])
     = rev (history (AddLogs sample_entries sample_logger))"
proof (rule pages_cover_history [THEN conjunct1])
  have "length (history (AddLogs sample_entries sample_logger)) \<le> 2 * nat 1"
    unfolding AddLogs_history [OF sample_ring(2,3,1)] by (simp add: sample_logger_def)
  then show "length (logs (AddLogs sample_entries sample_logger)) \<le> 2 * nat 1" by simp
qed (simp_all add: AddLogs_frame sample_ring)

theorem search_returns_matches_witness:
  "GetLogs_mem 0 5 ''zz'' sample_logger = Some ([], 0)"
  using search_returns_matches [of sample_logger "''zz''" 5 0] sample_ring(2)
  by (simp add: sample_logger_def)

theorem qps_counts_last_ten_seconds_witness:
  "QPS (GetStats_mem 40 (AddLogs sample_entries (NewQueryLogger_mem True 2 1 [] False 5))) * 10 = 3"
  using qps_counts_last_ten_seconds [OF refl, of sample_entries 40 2 1 "[]" False 5]
  by (simp add: sample_entries_def stamp_def sample_entry_def i64_id in_i64_def qpsWindow_def)

end
