(* ===== verification/LogFile.thy ===== *)
theory LogFile
  imports QueryLog Go_Files
begin

text \<open>
  The log file of \<open>internal/querylog/querylog.go\<close>: appending and pruning, restoring the totals at
  start, reading pages backwards, and the writer goroutine with its queue. JSON is a parameter:
  \<open>json_Marshal\<close> and \<open>json_Unmarshal\<close> of an entry, \<open>None\<close> for an error. The file is its bytes; all
  accesses hold \<open>fileMu\<close>.
\<close>

record json_lib =
  json_Marshal :: "log_entry \<Rightarrow> string option"
  json_Unmarshal :: "string \<Rightarrow> log_entry option"

text \<open>Documented: an encoded entry is a JSON object on one line, and decoding gives the entry back.\<close>

definition json_line :: "json_lib \<Rightarrow> log_entry \<Rightarrow> string \<Rightarrow> bool" where
  "json_line J e s \<longleftrightarrow> json_Marshal J e = Some s \<and> json_Unmarshal J s = Some e \<and> LF \<notin> set s \<and> s \<noteq> [] \<and> last s = CHR ''}''"

section \<open>Appending and pruning\<close>

text \<open>
  What the system calls answer: an error of \<open>Stat\<close> other than a missing file, the failure of a
  pruning step (none of them changes the file: the copy goes to a temporary file that is renamed
  at the end), the failure of opening for append, and a failing write with the bytes written.
\<close>

record file_faults =
  ff_stat :: "goerr option"
  ff_prune :: "goerr option"
  ff_open :: "goerr option"
  ff_write :: "(nat \<times> goerr) option"

text \<open>
  \<open>int64(float64(limitBytes) * 0.8)\<close> for the limits that occur, multiples of 1 MB: in integers,
  which differs from the product of floats only beyond 8 PB.
\<close>

definition prune_target :: "int \<Rightarrow> int" where
  "prune_target limitBytes = quot (limitBytes * 4) 5"

text \<open>The new content and the number of lines in it, which the counting writer counts.\<close>

definition pruneLogFile :: "int \<Rightarrow> string \<Rightarrow> int \<Rightarrow> string \<times> int" where
  "pruneLogFile limitBytes content persisted =
     (let targetSize = prune_target limitBytes;
          fileSize = int (length content)
      in if fileSize \<le> targetSize then (content, persisted)
         else
           (let startPos = nat (fileSize - targetSize);
                buf = take 1024 (drop startPos content);
                copyStart = (case index_byte buf LF of None \<Rightarrow> startPos | Some i \<Rightarrow> startPos + i + 1);
                copied = drop copyStart content
            in (copied, int (length (filter (\<lambda>c. c = LF) copied)))))"

definition appendToFile ::
  "json_lib \<Rightarrow> file_faults \<Rightarrow> int \<Rightarrow> log_entry \<Rightarrow> string option \<times> int \<Rightarrow> string option \<times> int" where
  "appendToFile J faults maxMB entry file =
     (case json_Marshal J entry of
        None \<Rightarrow> file
      | Some line \<Rightarrow>
          (let data = line @ [LF];
               limitBytes = i64 (maxMB * 1024 * 1024)
           in if ff_stat faults \<noteq> None then file
              else
                (let pruned =
                   (case fst file of
                      None \<Rightarrow> file
                    | Some content \<Rightarrow>
                        if i64 (int (length content) + int (length data)) > limitBytes \<and> ff_prune faults = None
                        then (case pruneLogFile limitBytes content (snd file) of (c, n) \<Rightarrow> (Some c, n))
                        else file)
                 in if ff_open faults \<noteq> None then pruned
                    else
                      (let old = (case fst pruned of None \<Rightarrow> [] | Some c \<Rightarrow> c) in
                       case ff_write faults of
                         Some (n, _) \<Rightarrow> (Some (old @ take n data), snd pruned)
                       | None \<Rightarrow> (Some (old @ data), i64 (snd pruned + 1))))))"

section \<open>Restoring\<close>

definition restore_line :: "json_lib \<Rightarrow> string \<Rightarrow> query_logger \<Rightarrow> query_logger" where
  "restore_line J text l =
     (let l1 = l\<lparr>persistedLogCount := i64 (persistedLogCount l + 1)\<rparr> in
      case json_Unmarshal J text of
        None \<Rightarrow> l1
      | Some entry \<Rightarrow>
          (let l2 = updateTotals entry l1 in
           if nextID l2 \<le> le_ID entry then l2\<lparr>nextID := i64 (le_ID entry + 1)\<rparr> else l2))"

definition restoreStatsFromFile :: "json_lib \<Rightarrow> opened \<Rightarrow> query_logger \<Rightarrow> query_logger" where
  "restoreStatsFromFile J f l =
     (case f of Inl e \<Rightarrow> l | Inr c \<Rightarrow> fold (restore_line J) (fst (bufio_lines c)) l)"

definition startFileWriter :: "query_logger \<Rightarrow> query_logger" where
  "startFileWriter l =
     (let q1 = (if maxHistory l > maxFileWriteQueueSize then maxFileWriteQueueSize else maxHistory l);
          queueSize = (if q1 < 64 then 64 else q1)
      in l\<lparr>fileQueue := Some (nat queueSize, [])\<rparr>)"

definition NewQueryLogger ::
  "json_lib \<Rightarrow> opened \<Rightarrow> bool \<Rightarrow> int \<Rightarrow> int \<Rightarrow> string \<Rightarrow> bool \<Rightarrow> int \<Rightarrow> query_logger" where
  "NewQueryLogger J f en maxHist maxMB path save now =
     (let l = NewQueryLogger_mem en maxHist maxMB path save now in
      if en \<and> save \<and> path \<noteq> [] then startFileWriter (restoreStatsFromFile J f l) else l)"

section \<open>Reading backwards\<close>

definition parseReverseLine :: "json_lib \<Rightarrow> string \<Rightarrow> log_entry option" where
  "parseReverseLine J reversed = json_Unmarshal J (rev reversed)"

text \<open>The variables of the loop: the bytes of the current line, last first, the result, the
  number of matches, and whether \<open>processLine\<close> has asked to stop.\<close>

record read_state =
  rd_line :: string
  rd_result :: "log_entry list"
  rd_matches :: int
  rd_stop :: bool

record read_query =
  rq_offset :: int
  rq_limit :: int
  rq_search :: string
  rq_stopAfter :: int
  rq_totalHint :: int

definition processLine :: "json_lib \<Rightarrow> read_query \<Rightarrow> read_state \<Rightarrow> read_state" where
  "processLine J q st =
     (case parseReverseLine J (rd_line st) of
        None \<Rightarrow> st
      | Some entry \<Rightarrow>
          if \<not> log_matches entry (rq_search q) then st
          else
            (let st1 = (if rq_offset q \<le> rd_matches st \<and> int (length (rd_result st)) < rq_limit q
                        then st\<lparr>rd_result := rd_result st @ [entry]\<rparr> else st);
                 st2 = st1\<lparr>rd_matches := i64 (rd_matches st1 + 1)\<rparr>
             in st2\<lparr>rd_stop := 0 < rq_stopAfter q \<and> 0 \<le> rq_totalHint q \<and> rq_search q = []
                               \<and> rq_stopAfter q \<le> rd_matches st2\<rparr>))"

fun read_bytes :: "json_lib \<Rightarrow> read_query \<Rightarrow> string \<Rightarrow> read_state \<Rightarrow> read_state" where
  "read_bytes J q [] st = st"
| "read_bytes J q (b # bs) st =
     (if b = LF then
        (if rd_line st \<noteq> [] then
           (let st' = processLine J q st in
            if rd_stop st' then st' else read_bytes J q bs (st'\<lparr>rd_line := []\<rparr>))
         else read_bytes J q bs st)
      else read_bytes J q bs (st\<lparr>rd_line := rd_line st @ [b]\<rparr>))"

text \<open>The loop over chunks of at most 4096 bytes; \<open>pos\<close> bytes are still to be read.\<close>

function read_chunks :: "json_lib \<Rightarrow> read_query \<Rightarrow> string \<Rightarrow> nat \<Rightarrow> read_state \<Rightarrow> read_state" where
  "read_chunks J q content pos st =
     (if pos = 0 then st
      else
        (let readSize = (if pos < 4096 then pos else 4096);
             pos' = pos - readSize;
             st' = read_bytes J q (rev (take readSize (drop pos' content))) st
         in if rd_stop st' then st' else read_chunks J q content pos' st'))"
  by pat_completeness auto
termination
  by (relation "measure (\<lambda>(J, q, content, pos, st). pos)") (auto simp: Let_def)

declare read_chunks.simps [simp del]

text \<open>
  The whole reading. Opening and \<open>Stat\<close> may fail; a read error in the middle of the file, after which
  the code returns what it has, is not modelled.
\<close>

definition readLogsFromFileBackwards ::
  "json_lib \<Rightarrow> string \<Rightarrow> int \<Rightarrow> int \<Rightarrow> string \<Rightarrow> int \<Rightarrow> int \<Rightarrow> log_entry list \<times> int" where
  "readLogsFromFileBackwards J content offset limit search stopAfter totalHint =
     (let q = \<lparr>rq_offset = offset, rq_limit = limit, rq_search = strings_ToLower search,
               rq_stopAfter = stopAfter, rq_totalHint = totalHint\<rparr>;
          st = read_chunks J q content (length content) \<lparr>rd_line = [], rd_result = [], rd_matches = 0, rd_stop = False\<rparr>
      in if rd_stop st then (rd_result st, totalHint)
         else
           (let st' = (if rd_line st \<noteq> [] then processLine J q st else st) in
            if rd_stop st' then (rd_result st', totalHint)
            else if 0 \<le> totalHint \<and> strings_ToLower search = [] then (rd_result st', totalHint)
            else (rd_result st', rd_matches st')))"

text \<open>\<open>GetLogs\<close>: the file if the log is saved and can be opened, else the memory.\<close>

definition GetLogs ::
  "json_lib \<Rightarrow> (goerr + string) \<Rightarrow> int \<Rightarrow> int \<Rightarrow> string \<Rightarrow> query_logger \<Rightarrow> (log_entry list \<times> int) option" where
  "GetLogs J file offset limit search l =
     (if \<not> enabled l then Some ([], 0)
      else if saveToFile l \<and> filePath l \<noteq> [] then
        (case file of
           Inr content \<Rightarrow>
             Some (readLogsFromFileBackwards J content offset limit search
                     (if search = [] then i64 (offset + limit) else 0)
                     (if search = [] then persistedLogCount l else - 1))
         | Inl e \<Rightarrow> GetLogs_mem offset limit search l)
      else GetLogs_mem offset limit search l)"

section \<open>Lemmas on reading backwards\<close>

text \<open>What a file holds, newest first: the lines that decode, last line first.\<close>

definition file_entries :: "json_lib \<Rightarrow> string \<Rightarrow> log_entry list" where
  "file_entries J content =
     List.map_filter (json_Unmarshal J) (rev (filter (\<lambda>l. l \<noteq> []) (strings_Split content LF)))"

subsection \<open>Chunks\<close>

lemma processLine_None: "parseReverseLine J (rd_line st) = None \<Longrightarrow> processLine J q st = st"
  by (simp add: processLine_def)

lemma read_bytes_append:
  "\<not> rd_stop st \<Longrightarrow> read_bytes J q (xs @ ys) st =
     (let st' = read_bytes J q xs st in if rd_stop st' then st' else read_bytes J q ys st')"
  by (induction J q xs st rule: read_bytes.induct) (simp_all add: Let_def)

text \<open>The chunked loop is one pass over the bytes from the last to the first.\<close>

lemma read_chunks_bytes:
  "pos \<le> length content \<Longrightarrow> \<not> rd_stop st \<Longrightarrow>
     read_chunks J q content pos st = read_bytes J q (rev (take pos content)) st"
proof (induction J q content pos st rule: read_chunks.induct)
  case (1 J q content pos st)
  show ?case
  proof (cases "pos = 0")
    case True
    then show ?thesis by (simp add: read_chunks.simps)
  next
    case False
    define n where "n = (if pos < 4096 then pos else 4096)"
    define p where "p = pos - n"
    define s' where "s' = read_bytes J q (rev (take n (drop p content))) st"
    have pos: "pos = p + n" by (simp add: p_def n_def)
    have step: "read_chunks J q content pos st = (if rd_stop s' then s' else read_chunks J q content p s')"
      using False by (simp add: read_chunks.simps [of J q content pos] s'_def p_def n_def Let_def)
    have "rev (take pos content) = rev (take n (drop p content)) @ rev (take p content)"
      by (simp only: pos take_add rev_append)
    then have bytes: "read_bytes J q (rev (take pos content)) st
        = (if rd_stop s' then s' else read_bytes J q (rev (take p content)) s')"
      using "1.prems" by (simp add: read_bytes_append s'_def Let_def)
    have "read_chunks J q content p s' = read_bytes J q (rev (take p content)) s'" if "\<not> rd_stop s'"
      using "1.IH" [OF False n_def p_def s'_def that] "1.prems" pos that by simp
    with step bytes show ?thesis by simp
  qed
qed

subsection \<open>Lines\<close>

definition finish_read :: "json_lib \<Rightarrow> read_query \<Rightarrow> read_state \<Rightarrow> read_state" where
  "finish_read J q st = (if \<not> rd_stop st \<and> rd_line st \<noteq> [] then processLine J q st else st)"

fun run_lines :: "json_lib \<Rightarrow> read_query \<Rightarrow> string list \<Rightarrow> read_state \<Rightarrow> read_state" where
  "run_lines J q [] st = st"
| "run_lines J q (l # ls) st =
     (if l = [] then run_lines J q ls st
      else
        (let st' = (processLine J q (st\<lparr>rd_line := l\<rparr>))\<lparr>rd_line := []\<rparr> in
         if rd_stop st' then st' else run_lines J q ls st'))"

lemma processLine_line [simp]: "rd_line (processLine J q st) = rd_line st"
  by (simp add: processLine_def Let_def split: option.splits)

lemma read_bytes_lines:
  "\<not> rd_stop st \<Longrightarrow> LF \<notin> set (rd_line st) \<Longrightarrow>
     (finish_read J q (read_bytes J q bs st))\<lparr>rd_line := []\<rparr>
       = run_lines J q (strings_Split (rd_line st @ bs) LF) (st\<lparr>rd_line := []\<rparr>)"
proof (induction bs arbitrary: st)
  case Nil
  then show ?case
    by (cases "rd_line st = []") (simp_all add: strings_Split_of_no_sep finish_read_def Let_def)
next
  case (Cons b bs)
  show ?case
  proof (cases "b = LF")
    case False
    with Cons.prems Cons.IH [of "st\<lparr>rd_line := rd_line st @ [b]\<rparr>"] show ?thesis by simp
  next
    case True
    show ?thesis
    proof (cases "rd_line st = []")
      case True
      with Cons \<open>b = LF\<close> show ?thesis by simp
    next
      case ne: False
      let ?s = "processLine J q st"
      show ?thesis
      proof (cases "rd_stop ?s")
        case True
        with \<open>b = LF\<close> ne Cons.prems show ?thesis
          by (simp add: strings_Split_append_sep finish_read_def)
      next
        case False
        with \<open>b = LF\<close> ne Cons.prems Cons.IH [of "?s\<lparr>rd_line := []\<rparr>"] show ?thesis
          by (simp add: strings_Split_append_sep)
      qed
    qed
  qed
qed

subsection \<open>Entries\<close>

text \<open>What one matching entry does to the result, and the whole run over matching entries.\<close>

definition take_entry :: "read_query \<Rightarrow> log_entry \<Rightarrow> read_state \<Rightarrow> read_state" where
  "take_entry q e st =
     st\<lparr>rd_result := (if rq_offset q \<le> rd_matches st \<and> int (length (rd_result st)) < rq_limit q
                     then rd_result st @ [e] else rd_result st),
        rd_matches := i64 (rd_matches st + 1),
        rd_stop := 0 < rq_stopAfter q \<and> 0 \<le> rq_totalHint q \<and> rq_search q = []
                   \<and> rq_stopAfter q \<le> i64 (rd_matches st + 1)\<rparr>"

fun run_entries :: "read_query \<Rightarrow> log_entry list \<Rightarrow> read_state \<Rightarrow> read_state" where
  "run_entries q [] st = st"
| "run_entries q (e # es) st =
     (let st' = take_entry q e st in if rd_stop st' then st' else run_entries q es st')"

lemma processLine_take:
  "(processLine J q (st\<lparr>rd_line := l\<rparr>))\<lparr>rd_line := []\<rparr> =
     (case json_Unmarshal J (rev l) of
        None \<Rightarrow> st\<lparr>rd_line := []\<rparr>
      | Some e \<Rightarrow> if log_matches e (rq_search q) then (take_entry q e st)\<lparr>rd_line := []\<rparr> else st\<lparr>rd_line := []\<rparr>)"
  by (simp add: processLine_def parseReverseLine_def take_entry_def Let_def split: option.splits)

lemma take_entry_line [simp]: "rd_line (take_entry q e st) = rd_line st"
  by (simp add: take_entry_def)

lemma run_lines_entries:
  "rd_line st = [] \<Longrightarrow> \<not> rd_stop st \<Longrightarrow>
     run_lines J q ls st = run_entries q
       (filter (\<lambda>e. log_matches e (rq_search q))
         (List.map_filter (\<lambda>l. json_Unmarshal J (rev l)) (filter (\<lambda>l. l \<noteq> []) ls))) st"
proof (induction ls arbitrary: st)
  case Nil
  then show ?case by (simp add: map_filter_simps)
next
  case (Cons l ls)
  have id: "s\<lparr>rd_line := []\<rparr> = s" if "rd_line s = []" for s :: read_state
    using that by (cases s) simp
  show ?case
  proof (cases "l = []")
    case True
    with Cons show ?thesis by simp
  next
    case False
    show ?thesis
    proof (cases "json_Unmarshal J (rev l)")
      case None
      with False Cons show ?thesis
        by (simp add: processLine_take map_filter_simps Let_def id)
    next
      case (Some e)
      have te: "(take_entry q e st)\<lparr>rd_line := []\<rparr> = take_entry q e st"
        using Cons.prems(1) by (intro id) simp
      show ?thesis
      proof (cases "log_matches e (rq_search q)")
        case True
        with False Some Cons.prems Cons.IH [of "take_entry q e st"] show ?thesis
          by (simp add: processLine_take map_filter_simps Let_def te)
      next
        case no: False
        with False Some Cons.prems Cons.IH [of st] show ?thesis
          by (simp add: processLine_take map_filter_simps Let_def id)
      qed
    qed
  qed
qed

text \<open>After the matching entries \<open>seen\<close>: the requested slice of them, and their number.\<close>

definition slice :: "int \<Rightarrow> int \<Rightarrow> 'a list \<Rightarrow> 'a list" where
  "slice offset limit xs = take (nat limit) (drop (nat offset) xs)"

lemma slice_snoc:
  "slice off lmt (xs @ [x]) =
     (if off \<le> int (length xs) \<and> int (length (slice off lmt xs)) < lmt then slice off lmt xs @ [x] else slice off lmt xs)"
proof (cases "off \<le> int (length xs)")
  case True
  then have "drop (nat off) (xs @ [x]) = drop (nat off) xs @ [x]" by simp
  with True show ?thesis by (auto simp: slice_def)
next
  case False
  then show ?thesis by (simp add: slice_def)
qed

lemma slice_prefix:
  assumes "off + lmt \<le> int (length xs)" "0 \<le> off" "0 \<le> lmt"
  shows "slice off lmt (xs @ ys) = slice off lmt xs"
proof -
  from assms have "nat off \<le> length xs" "nat lmt \<le> length xs - nat off" by auto
  then show ?thesis by (simp add: slice_def)
qed

definition read_ok :: "read_query \<Rightarrow> log_entry list \<Rightarrow> read_state \<Rightarrow> bool" where
  "read_ok q seen st \<longleftrightarrow> rd_matches st = int (length seen) \<and> rd_result st = slice (rq_offset q) (rq_limit q) seen"

lemma read_ok_take:
  assumes "read_ok q seen st" and "int (length seen) < 2 ^ 63 - 1"
  shows "read_ok q (seen @ [e]) (take_entry q e st)"
proof -
  have "i64 (int (length seen) + 1) = int (length seen) + 1"
    using assms(2) by (intro i64_id) (simp add: in_i64_def)
  with assms show ?thesis by (simp add: read_ok_def take_entry_def slice_snoc)
qed

lemma run_entries_slice:
  assumes "read_ok q seen st" "\<not> rd_stop st" "int (length (seen @ es)) < 2 ^ 63 - 1"
    and "rq_offset q + rq_limit q \<le> rq_stopAfter q \<or> rq_search q \<noteq> []" "0 \<le> rq_offset q" "0 \<le> rq_limit q"
  shows "rd_result (run_entries q es st) = slice (rq_offset q) (rq_limit q) (seen @ es)
    \<and> (rq_search q \<noteq> [] \<longrightarrow> rd_matches (run_entries q es st) = int (length (seen @ es))
        \<and> \<not> rd_stop (run_entries q es st))"
  using assms
proof (induction es arbitrary: seen st)
  case Nil
  then show ?case by (simp add: read_ok_def)
next
  case (Cons e es)
  let ?st = "take_entry q e st"
  have ok: "read_ok q (seen @ [e]) ?st" using Cons.prems by (intro read_ok_take) simp_all
  show ?case
  proof (cases "rd_stop ?st")
    case False
    with Cons.IH [OF ok] Cons.prems show ?thesis by simp
  next
    case True
    then have s: "rq_search q = []" "rq_stopAfter q \<le> rd_matches ?st" by (simp_all add: take_entry_def)
    with Cons.prems ok have len: "rq_offset q + rq_limit q \<le> int (length (seen @ [e]))"
      by (simp add: read_ok_def)
    have "slice (rq_offset q) (rq_limit q) ((seen @ [e]) @ es) = slice (rq_offset q) (rq_limit q) (seen @ [e])"
      using len Cons.prems(5,6) by (rule slice_prefix)
    with True s ok show ?thesis by (simp add: read_ok_def)
  qed
qed

subsection \<open>The whole file\<close>

lemma strings_Split_append:
  "strings_Split (s @ sep # t) sep = strings_Split s sep @ strings_Split t sep"
  by (induction s) (auto split: list.splits)

lemma strings_Split_rev: "strings_Split (rev s) sep = rev (map rev (strings_Split s sep))"
proof (induction "length s" arbitrary: s rule: less_induct)
  case less
  show ?case
  proof (cases "sep \<in> set s")
    case False
    then show ?thesis by (simp add: strings_Split_of_no_sep)
  next
    case True
    then obtain u t where s: "s = u @ sep # t" by (auto dest: split_list)
    then have "strings_Split (rev s) sep = strings_Split (rev t) sep @ strings_Split (rev u) sep"
      by (simp add: strings_Split_append)
    also have "\<dots> = rev (map rev (strings_Split t sep)) @ rev (map rev (strings_Split u sep))"
      using less [of t] less [of u] s by simp
    finally show ?thesis by (simp add: s strings_Split_append)
  qed
qed

lemma length_strings_Split: "length (strings_Split s sep) \<le> Suc (length s)"
  by (induction s) (auto split: list.splits)

lemma length_map_filter: "length (List.map_filter f xs) \<le> length xs"
  by (induction xs) (auto simp: map_filter_simps split: option.splits)

lemma map_filter_rev_lines:
  "List.map_filter (\<lambda>l. f (rev l)) (filter (\<lambda>l. l \<noteq> []) (rev (map rev ls)))
     = List.map_filter f (rev (filter (\<lambda>l. l \<noteq> []) ls))"
  by (induction ls rule: rev_induct) (simp_all add: map_filter_simps split: option.splits)

lemma length_file_entries: "length (file_entries J content) \<le> Suc (length content)"
proof -
  have "length (file_entries J content) \<le> length (filter (\<lambda>l. l \<noteq> []) (strings_Split content LF))"
    unfolding file_entries_def by (rule order_trans [OF length_map_filter]) simp
  also have "\<dots> \<le> length (strings_Split content LF)" by (rule length_filter_le)
  also have "\<dots> \<le> Suc (length content)" by (rule length_strings_Split)
  finally show ?thesis .
qed

text \<open>The state at the end of the backwards pass, the unfinished first line included.\<close>

lemma finish_read_chunks:
  fixes st0 defines "st0 \<equiv> \<lparr>rd_line = [], rd_result = [], rd_matches = 0, rd_stop = False\<rparr>"
  shows "(finish_read J q (read_chunks J q content (length content) st0))\<lparr>rd_line := []\<rparr>
    = run_entries q (filter (\<lambda>e. log_matches e (rq_search q)) (file_entries J content)) st0"
proof -
  have "(finish_read J q (read_bytes J q (rev content) st0))\<lparr>rd_line := []\<rparr>
      = run_lines J q (strings_Split (rd_line st0 @ rev content) LF) (st0\<lparr>rd_line := []\<rparr>)"
    by (intro read_bytes_lines) (simp_all add: st0_def)
  then show ?thesis
    by (simp add: st0_def read_chunks_bytes run_lines_entries strings_Split_rev
        map_filter_rev_lines file_entries_def)
qed

lemma readLogsFromFileBackwards_slice:
  assumes "int (length content) < 2 ^ 62" "0 \<le> offset" "0 \<le> limit"
    and "if search = [] then 0 \<le> totalHint \<and> offset + limit \<le> stopAfter else totalHint < 0"
  shows "readLogsFromFileBackwards J content offset limit search stopAfter totalHint =
    (let found = filter (\<lambda>e. log_matches e (strings_ToLower search)) (file_entries J content)
     in (slice offset limit found, if search = [] then totalHint else int (length found)))"
proof -
  define q where "q = \<lparr>rq_offset = offset, rq_limit = limit, rq_search = strings_ToLower search,
               rq_stopAfter = stopAfter, rq_totalHint = totalHint\<rparr>"
  define st0 :: read_state where "st0 = \<lparr>rd_line = [], rd_result = [], rd_matches = 0, rd_stop = False\<rparr>"
  define found where "found = filter (\<lambda>e. log_matches e (strings_ToLower search)) (file_entries J content)"
  define st where "st = finish_read J q (read_chunks J q content (length content) st0)"
  have run: "st\<lparr>rd_line := []\<rparr> = run_entries q found st0"
    using finish_read_chunks [of J q content] by (simp add: st_def st0_def found_def q_def)
  have "length found \<le> Suc (length content)"
    using length_filter_le length_file_entries unfolding found_def by (rule order_trans)
  then have "int (length ([] @ found)) < 2 ^ 63 - 1" using assms(1) by simp
  then have res: "rd_result (run_entries q found st0) = slice offset limit found"
    "search \<noteq> [] \<longrightarrow> rd_matches (run_entries q found st0) = int (length found)
      \<and> \<not> rd_stop (run_entries q found st0)"
    using run_entries_slice [of q "[]" st0 found] assms
    by (auto simp: q_def st0_def read_ok_def slice_def split: if_splits)
  have fields: "rd_result st = rd_result (run_entries q found st0)"
    "rd_matches st = rd_matches (run_entries q found st0)" "rd_stop st = rd_stop (run_entries q found st0)"
    by (simp_all flip: run)
  have "readLogsFromFileBackwards J content offset limit search stopAfter totalHint
      = (if rd_stop st \<or> 0 \<le> totalHint \<and> search = [] then (rd_result st, totalHint)
         else (rd_result st, rd_matches st))"
    unfolding readLogsFromFileBackwards_def st_def q_def [symmetric] st0_def [symmetric] finish_read_def Let_def
    by auto
  with res fields assms(4) show ?thesis by (auto simp: Let_def found_def [symmetric])
qed

section \<open>Lemmas on appending and pruning\<close>

definition no_faults :: file_faults where
  "no_faults = \<lparr>ff_stat = None, ff_prune = None, ff_open = None, ff_write = None\<rparr>"

text \<open>A short line fits, with its newline, into the buffer the pruning looks for a newline in.\<close>

definition short_line :: "string \<Rightarrow> bool" where
  "short_line l \<longleftrightarrow> LF \<notin> set l \<and> length l < 1024"

lemma unlines_simps [simp]:
  "unlines [] = []" "unlines (l # ls) = l @ LF # unlines ls" "unlines (ls @ ms) = unlines ls @ unlines ms"
  by (simp_all add: unlines_def)

lemma count_unlines:
  "list_all (\<lambda>l. LF \<notin> set l) ls \<Longrightarrow> length (filter (\<lambda>c. c = LF) (unlines ls)) = length ls"
proof (induction ls)
  case (Cons l ls)
  then have "filter (\<lambda>c. c = LF) l = []" by (auto simp: filter_empty_conv)
  with Cons show ?case by simp
qed simp

lemma index_byte_line: "LF \<notin> set t \<Longrightarrow> index_byte (t @ LF # s) LF = Some (length t)"
  by (induction t) (auto simp: index_byte_def)

text \<open>Any position inside the content lies in some line, the rest of which comes first.\<close>

lemma drop_unlines:
  "p < length (unlines ls) \<Longrightarrow> list_all short_line ls \<Longrightarrow>
     \<exists>k t. k < length ls \<and> drop p (unlines ls) = t @ LF # unlines (drop (Suc k) ls) \<and> short_line t"
proof (induction ls arbitrary: p)
  case (Cons l ls)
  show ?case
  proof (cases "p \<le> length l")
    case True
    with Cons.prems have "drop p (unlines (l # ls)) = drop p l @ LF # unlines (drop (Suc 0) (l # ls))"
      and "short_line (drop p l)"
      by (auto simp: short_line_def dest: in_set_dropD)
    then show ?thesis by (intro exI [of _ 0] exI [of _ "drop p l"]) simp
  next
    case False
    then obtain r where r: "p = Suc (length l + r)" using less_imp_Suc_add not_le by metis
    with Cons.prems have "r < length (unlines ls)" "list_all short_line ls" by simp_all
    from Cons.IH [OF this] obtain k t where "k < length ls"
      "drop r (unlines ls) = t @ LF # unlines (drop (Suc k) ls)" "short_line t" by blast
    with r show ?thesis by (intro exI [of _ "Suc k"] exI [of _ t]) simp
  qed
qed simp

text \<open>Pruning keeps a suffix of whole lines, within the target and at most one line below it.\<close>

lemma pruneLogFile_lines:
  assumes short: "list_all short_line ls" and lmt: "2 \<le> limitBytes"
  shows "\<exists>k \<le> length ls. pruneLogFile limitBytes (unlines ls) (int (length ls))
            = (unlines (drop k ls), int (length (drop k ls)))
      \<and> int (length (unlines (drop k ls))) \<le> prune_target limitBytes
      \<and> (k \<noteq> 0 \<longrightarrow> prune_target limitBytes - 1024 \<le> int (length (unlines (drop k ls))))"
proof -
  let ?c = "unlines ls" and ?target = "prune_target limitBytes"
  have tpos: "0 < ?target" using lmt by (simp add: prune_target_def quot_nonneg)
  show ?thesis
  proof (cases "int (length ?c) \<le> ?target")
    case True
    then show ?thesis by (intro exI [of _ 0]) (simp add: pruneLogFile_def)
  next
    case False
    define p where "p = nat (int (length ?c) - ?target)"
    have p: "int p = int (length ?c) - ?target" "p < length ?c" using False tpos by (simp_all add: p_def)
    from drop_unlines [OF p(2) short] obtain k t
      where kt: "k < length ls" "drop p ?c = t @ LF # unlines (drop (Suc k) ls)" "short_line t" by blast
    then have t: "length t < 1024" "LF \<notin> set t" by (simp_all add: short_line_def)
    then have "take 1024 (drop p ?c) = t @ LF # take (1023 - length t) (unlines (drop (Suc k) ls))"
      by (simp add: kt(2) take_Cons')
    with t have idx: "index_byte (take 1024 (drop p ?c)) LF = Some (length t)" by (simp add: index_byte_line)
    have copied: "drop (p + length t + 1) ?c = unlines (drop (Suc k) ls)"
    proof -
      have "drop (p + length t + 1) ?c = drop (length t + 1) (drop p ?c)" by (simp add: add.commute)
      then show ?thesis by (simp only: kt(2)) simp
    qed
    have "list_all (\<lambda>l. LF \<notin> set l) (drop (Suc k) ls)"
      using short by (auto simp: list_all_iff short_line_def dest: in_set_dropD)
    then have "pruneLogFile limitBytes ?c (int (length ls))
        = (unlines (drop (Suc k) ls), int (length (drop (Suc k) ls)))"
      using False idx copied p_def
      by (simp add: pruneLogFile_def Let_def count_unlines del: drop_drop)
    moreover from kt(2) p have "int (length (unlines (drop (Suc k) ls))) = ?target - int (length t) - 1"
    proof -
      have "length (drop p ?c) = length t + Suc (length (unlines (drop (Suc k) ls)))" by (simp add: kt(2))
      then show ?thesis using p by simp
    qed
    ultimately show ?thesis using kt(1) t by (intro exI [of _ "Suc k"]) simp
  qed
qed

lemma appendToFile_lines:
  assumes "json_Marshal J e = Some l" and "short_line l" and short: "list_all short_line ls"
    and mb: "1 \<le> maxMB" "maxMB < 2 ^ 42" and len: "int (length (unlines ls)) \<le> maxMB * 1024 * 1024"
    and fl: "fl = (Some (unlines ls), int (length ls)) \<or> fl = (None, 0) \<and> ls = []"
  shows "\<exists>k \<le> length ls. appendToFile J no_faults maxMB e fl
       = (Some (unlines (drop k ls @ [l])), int (length (drop k ls @ [l])))
     \<and> int (length (unlines (drop k ls @ [l]))) \<le> maxMB * 1024 * 1024
     \<and> (k \<noteq> 0 \<longrightarrow> maxMB * 1024 * 1024 < int (length (unlines (ls @ [l]))))"
proof -
  let ?limit = "maxMB * 1024 * 1024"
  have limit: "i64 ?limit = ?limit" using mb by (intro i64_id) (simp add: in_i64_def)
  have l: "length l < 1024" using assms(2) by (simp add: short_line_def)
  have target: "prune_target ?limit + 1024 \<le> ?limit"
    using mb by (simp add: prune_target_def quot_nonneg)
  have n: "length ls \<le> length (unlines ls)" by (induction ls) simp_all
  have inc: "i64 (int m + 1) = int m + 1" if "m \<le> length ls" for m
    using that n len mb by (intro i64_id) (simp add: in_i64_def)
  have sum: "i64 (int (length (unlines ls)) + int (length (l @ [LF]))) = int (length (unlines (ls @ [l])))"
    using l len mb by (subst i64_id) (simp_all add: in_i64_def)
  show ?thesis
  proof (cases "int (length (unlines (ls @ [l]))) \<le> ?limit")
    case True
    with assms(1) fl sum limit inc [of "length ls"]
    have "appendToFile J no_faults maxMB e fl = (Some (unlines (ls @ [l])), int (length (ls @ [l])))"
      using inc [of 0] by (auto simp: appendToFile_def no_faults_def Let_def)
    with True show ?thesis by (intro exI [of _ 0]) simp
  next
    case False
    with l mb fl have f: "fl = (Some (unlines ls), int (length ls))" by auto
    have "2 \<le> ?limit" using mb by simp
    from pruneLogFile_lines [OF short this] obtain k
      where k: "k \<le> length ls" "pruneLogFile ?limit (unlines ls) (int (length ls))
          = (unlines (drop k ls), int (length (drop k ls)))"
        and kept: "int (length (unlines (drop k ls))) \<le> prune_target ?limit" by blast
    have "int (length (drop k ls)) + 1 = i64 (int (length (drop k ls)) + 1)" by (simp add: inc)
    with assms(1) f k(2) sum limit False
    have "appendToFile J no_faults maxMB e fl
        = (Some (unlines (drop k ls @ [l])), int (length (drop k ls @ [l])))"
      by (simp add: appendToFile_def no_faults_def Let_def)
    with k(1) kept l target False show ?thesis by (intro exI [of _ k]) simp
  qed
qed

text \<open>A run of appends to a log file, and what the lines of the file then are.\<close>

definition appendAll :: "json_lib \<Rightarrow> int \<Rightarrow> log_entry list \<Rightarrow> string option \<times> int \<Rightarrow> string option \<times> int" where
  "appendAll J maxMB es fl = fold (appendToFile J no_faults maxMB) es fl"

definition json_short :: "json_lib \<Rightarrow> (log_entry \<Rightarrow> string) \<Rightarrow> log_entry \<Rightarrow> bool" where
  "json_short J enc e \<longleftrightarrow> json_line J e (enc e) \<and> length (enc e) < 1024"

lemma json_shortD:
  assumes "json_short J enc e"
  shows "json_Marshal J e = Some (enc e)" "json_Unmarshal J (enc e) = Some e" "short_line (enc e)" "enc e \<noteq> []"
  using assms by (simp_all add: json_short_def json_line_def short_line_def)

definition file_holds :: "(log_entry \<Rightarrow> string) \<Rightarrow> log_entry list \<Rightarrow> string option \<times> int \<Rightarrow> bool" where
  "file_holds enc es fl \<longleftrightarrow>
     fl = (Some (unlines (map enc es)), int (length es)) \<or> fl = (None, 0) \<and> es = []"

lemma appendAll_suffix:
  assumes "list_all (json_short J enc) (es @ new)" and mb: "1 \<le> maxMB" "maxMB < 2 ^ 42"
    and "file_holds enc es fl" and "int (length (unlines (map enc es))) \<le> maxMB * 1024 * 1024"
  shows "\<exists>k. (es @ new \<noteq> [] \<longrightarrow> k < length (es @ new)) \<and> file_holds enc (drop k (es @ new)) (appendAll J maxMB new fl)
     \<and> int (length (unlines (map enc (drop k (es @ new))))) \<le> maxMB * 1024 * 1024
     \<and> (k \<noteq> 0 \<longrightarrow> maxMB * 1024 * 1024 < int (length (unlines (map enc (es @ new)))))"
  using assms
proof (induction new arbitrary: es fl)
  case Nil
  then show ?case by (intro exI [of _ 0]) (simp add: appendAll_def)
next
  case (Cons e new)
  have "list_all short_line (map enc es)" using Cons.prems(1) by (auto simp: list_all_iff dest: json_shortD)
  moreover have js: "json_short J enc e" using Cons.prems(1) by simp
  moreover have "fl = (Some (unlines (map enc es)), int (length (map enc es))) \<or> fl = (None, 0) \<and> map enc es = []"
    using Cons.prems(4) by (simp add: file_holds_def)
  ultimately obtain j where j: "j \<le> length (map enc es)"
    and app: "appendToFile J no_faults maxMB e fl
        = (Some (unlines (drop j (map enc es) @ [enc e])), int (length (drop j (map enc es) @ [enc e])))"
    and len: "int (length (unlines (drop j (map enc es) @ [enc e]))) \<le> maxMB * 1024 * 1024"
    and why: "j \<noteq> 0 \<longrightarrow> maxMB * 1024 * 1024 < int (length (unlines (map enc es @ [enc e])))"
    using appendToFile_lines [OF json_shortD(1) [OF js] json_shortD(3) [OF js] _ mb Cons.prems(5)] by blast
  let ?es = "drop j es @ [e]" and ?fl = "appendToFile J no_faults maxMB e fl"
  have "file_holds enc ?es ?fl" using app by (simp add: file_holds_def drop_map)
  moreover have "list_all (json_short J enc) (?es @ new)"
    using Cons.prems(1) by (auto simp: list_all_iff dest: in_set_dropD)
  moreover have "int (length (unlines (map enc ?es))) \<le> maxMB * 1024 * 1024" using len by (simp add: drop_map)
  ultimately obtain k where k: "k < length (?es @ new)"
    "file_holds enc (drop k (?es @ new)) (appendAll J maxMB new ?fl)"
    "int (length (unlines (map enc (drop k (?es @ new))))) \<le> maxMB * 1024 * 1024"
    "k \<noteq> 0 \<longrightarrow> maxMB * 1024 * 1024 < int (length (unlines (map enc (?es @ new))))"
    using Cons.IH [of ?es ?fl] mb by blast
  have all: "drop k (?es @ new) = drop (j + k) (es @ e # new)" using j by (simp add: add.commute)
  have "map enc es = map enc (take j es) @ map enc (drop j es)" by (simp flip: map_append)
  then have "length (unlines (map enc (drop j es))) \<le> length (unlines (map enc es))"
    using unlines_simps(3) [of "map enc (take j es)" "map enc (drop j es)"] by simp
  then have "j + k \<noteq> 0 \<longrightarrow> maxMB * 1024 * 1024 < int (length (unlines (map enc (es @ e # new))))"
    using k(4) why by auto
  moreover have "appendAll J maxMB (e # new) fl = appendAll J maxMB new ?fl" by (simp add: appendAll_def)
  ultimately show ?case using k(1,2,3) j unfolding all by (intro exI [of _ "j + k"]) simp
qed

lemma file_entries_unlines:
  "list_all (json_short J enc) es \<Longrightarrow> file_entries J (unlines (map enc es)) = rev es"
proof -
  assume ok: "list_all (json_short J enc) es"
  then have "list_all (\<lambda>l. LF \<notin> set l) (map enc es)" and ne: "\<forall>e \<in> set es. enc e \<noteq> []"
    by (auto simp: list_all_iff json_short_def json_line_def)
  then have "filter (\<lambda>l. l \<noteq> []) (strings_Split (unlines (map enc es)) LF) = map enc es"
    by (simp add: strings_Split_unlines filter_id_conv)
  then have "file_entries J (unlines (map enc es)) = List.map_filter (json_Unmarshal J) (map enc (rev es))"
    by (simp add: file_entries_def rev_map)
  also have "\<dots> = rev es"
    using ok by (induction es rule: rev_induct) (auto simp: map_filter_simps json_shortD(2))
  finally show ?thesis .
qed

section \<open>Lemmas on restoring\<close>

definition restored :: "log_entry list \<Rightarrow> query_logger \<Rightarrow> bool" where
  "restored es l \<longleftrightarrow> persistedLogCount l = int (length es) \<and> totals_ok es (stats l)
     \<and> 1 \<le> nextID l \<and> (\<forall>e \<in> set es. le_ID e < nextID l)"

lemma restore_line_step:
  assumes "restored es l" "json_Unmarshal J s = Some e" "le_ID e < 2 ^ 63 - 1" "length es < 2 ^ 62"
  shows "restored (es @ [e]) (restore_line J s l)"
proof -
  define l1 where "l1 = l\<lparr>persistedLogCount := i64 (persistedLogCount l + 1)\<rparr>"
  have count: "i64 (int (length es) + 1) = int (length es) + 1"
    using assms(4) by (intro i64_id) (simp add: in_i64_def)
  have "totals_ok es (stats l1)" using assms(1) by (simp add: restored_def l1_def)
  then have tot: "totals_ok (es @ [e]) (stats (updateTotals e l1))"
    using assms(4) by (intro totals_step) simp_all
  have r: "restore_line J s l
      = (if nextID l \<le> le_ID e then (updateTotals e l1)\<lparr>nextID := i64 (le_ID e + 1)\<rparr> else updateTotals e l1)"
    by (simp add: restore_line_def assms(2) l1_def)
  have p: "persistedLogCount (updateTotals e l1) = int (length es) + 1"
    using assms(1) count by (simp add: updateTotals_def Let_def l1_def restored_def)
  show ?thesis
  proof (cases "nextID l \<le> le_ID e")
    case True
    with assms(1,3) have "i64 (le_ID e + 1) = le_ID e + 1"
      by (intro i64_id) (auto simp: in_i64_def restored_def)
    with True r p tot assms(1) show ?thesis by (fastforce simp: restored_def)
  next
    case False
    with r p tot assms(1) show ?thesis by (auto simp: restored_def l1_def)
  qed
qed

lemma restore_lines:
  assumes "restored old l" "list_all (json_short J enc) es" "\<forall>e \<in> set es. le_ID e < 2 ^ 63 - 1"
    and "length old + length es < 2 ^ 62"
  shows "restored (old @ es) (fold (restore_line J) (map enc es) l)"
  using assms
proof (induction es arbitrary: old l)
  case Nil
  then show ?case by simp
next
  case (Cons e es)
  then have "restored (old @ [e]) (restore_line J (enc e) l)"
    by (intro restore_line_step) (auto dest: json_shortD(2))
  with Cons.IH [of "old @ [e]" "restore_line J (enc e) l"] Cons.prems show ?case by simp
qed

lemma restore_frame:
  "maxHistory (fold (restore_line J) ls l) = maxHistory l" "logs (fold (restore_line J) ls l) = logs l"
  "enabled (fold (restore_line J) ls l) = enabled l" "closed (fold (restore_line J) ls l) = closed l"
  "saveToFile (fold (restore_line J) ls l) = saveToFile l" "filePath (fold (restore_line J) ls l) = filePath l"
  by (induction ls arbitrary: l) (simp_all add: restore_line_def Let_def updateTotals_def split: option.splits)

lemma plain_lines:
  assumes "list_all (json_short J enc) es"
  shows "list_all plain_line (map enc es)"
proof -
  have "CHR ''}'' \<noteq> CR" by (simp add: CR_def char_of_def)
  with assms show ?thesis
    by (auto simp: list_all_iff plain_line_def json_short_def json_line_def MaxScanTokenSize_def)
qed

lemma startFileWriter_frame [simp]:
  "persistedLogCount (startFileWriter l) = persistedLogCount l" "stats (startFileWriter l) = stats l"
  "nextID (startFileWriter l) = nextID l" "logs (startFileWriter l) = logs l"
  "enabled (startFileWriter l) = enabled l" "saveToFile (startFileWriter l) = saveToFile l"
  "filePath (startFileWriter l) = filePath l" "closed (startFileWriter l) = closed l"
  by (simp_all add: startFileWriter_def Let_def)

lemma NewQueryLogger_restored:
  assumes "list_all (json_short J enc) es" "\<forall>e \<in> set es. le_ID e < 2 ^ 63 - 1" "length es < 2 ^ 62"
    and "path \<noteq> []"
  shows "restored es (NewQueryLogger J (Inr (unlines (map enc es), None)) True maxHist maxMB path True now)"
proof -
  let ?l = "NewQueryLogger_mem True maxHist maxMB path True now"
  have "restored [] ?l" by (simp add: restored_def NewQueryLogger_mem_def totals_ok_def)
  from restore_lines [OF this assms(1,2)] assms(3)
  have "restored es (fold (restore_line J) (map enc es) ?l)" by simp
  then show ?thesis
    using assms(4) bufio_lines_unlines [OF plain_lines [OF assms(1)]]
    by (simp add: NewQueryLogger_def restoreStatsFromFile_def restored_def)
qed

section \<open>Properties of the log file\<close>

text \<open>
  C11: Reading backwards in chunks of 4096 bytes, with early termination, gives the requested slice
  of the matching entries of the file, newest first, whatever the file holds: the result is the
  same as filtering and slicing the decoded non-empty lines from last to first. The total is the
  persisted count, or the number of matches of a search. Entries across chunk borders, a partial
  last line and lines that do not decode are covered.
\<close>

theorem GetLogs_reads_newest_first:
  assumes "enabled l" "saveToFile l" "filePath l \<noteq> []" "0 \<le> persistedLogCount l"
    and "int (length content) < 2 ^ 62" "0 \<le> offset" "0 \<le> limit" "offset + limit < 2 ^ 63"
  shows "GetLogs J (Inr content) offset limit search l =
    (let found = filter (\<lambda>e. log_matches e (strings_ToLower search)) (file_entries J content)
     in Some (take (nat limit) (drop (nat offset) found),
              if search = [] then persistedLogCount l else int (length found)))"
proof -
  have "i64 (offset + limit) = offset + limit" using assms by (intro i64_id) (simp add: in_i64_def)
  with assms show ?thesis
    by (simp add: GetLogs_def readLogsFromFileBackwards_slice slice_def Let_def)
qed

text \<open>
  C12: Writing entries to a fresh log file keeps, as whole lines and in order, the newest of them:
  pruning drops the oldest lines only, only when the file would exceed its limit, and never
  leaves it above the limit; and the persisted count is the exact number of lines. Lines are
  shorter than the 1024 bytes pruning looks ahead.
\<close>

theorem log_file_keeps_newest:
  assumes "list_all (json_short J enc) es" "1 \<le> maxMB" "maxMB < 2 ^ 42" "es \<noteq> []"
  shows "\<exists>k. let kept = drop k es in
      appendAll J maxMB es (None, 0) = (Some (unlines (map enc kept)), int (length kept))
      \<and> int (length (unlines (map enc kept))) \<le> maxMB * 1024 * 1024
      \<and> (int (length (unlines (map enc es))) \<le> maxMB * 1024 * 1024 \<longrightarrow> kept = es)
      \<and> last es \<in> set kept \<and> file_entries J (unlines (map enc kept)) = rev kept"
proof -
  have "file_holds enc [] (None, 0)" by (simp add: file_holds_def)
  with appendAll_suffix [of J enc "[]" es maxMB "(None, 0)"] assms obtain k where k: "k < length es"
    "file_holds enc (drop k es) (appendAll J maxMB es (None, 0))"
    "int (length (unlines (map enc (drop k es)))) \<le> maxMB * 1024 * 1024"
    "k \<noteq> 0 \<longrightarrow> maxMB * 1024 * 1024 < int (length (unlines (map enc es)))" by auto
  then have "drop k es \<noteq> []" "last es = last (drop k es)" by simp_all
  then have "last es \<in> set (drop k es)" by (metis last_in_set)
  moreover have "list_all (json_short J enc) (drop k es)"
    using assms(1) by (auto simp: list_all_iff dest: in_set_dropD)
  ultimately show ?thesis
    using k by (intro exI [of _ k]) (auto simp: file_holds_def file_entries_unlines)
qed

text \<open>
  Restarting with an existing log file continues it: the persisted count and the totals are
  those of the entries in the file, every new identifier is above all of theirs, and a page read
  through the new logger shows them newest first.
\<close>

theorem restart_continues_log:
  assumes "list_all (json_short J enc) es" "\<forall>e \<in> set es. le_ID e < 2 ^ 63 - 1"
    and "int (length (unlines (map enc es))) < 2 ^ 62" "path \<noteq> []" "0 \<le> offset" "0 \<le> limit" "offset + limit < 2 ^ 63"
  shows "let content = unlines (map enc es);
             l = NewQueryLogger J (Inr (content, None)) True maxHist maxMB path True now
         in persistedLogCount l = int (length es) \<and> totals_ok es (stats l)
            \<and> (\<forall>e \<in> set es. le_ID e < nextID l)
            \<and> GetLogs J (Inr content) offset limit [] l
                = Some (take (nat limit) (drop (nat offset) (rev es)), int (length es))"
proof -
  define l where "l = NewQueryLogger J (Inr (unlines (map enc es), None)) True maxHist maxMB path True now"
  have "length es \<le> length (unlines (map enc es))" by (induction es) simp_all
  with assms(3) have r: "restored es l"
    unfolding l_def by (intro NewQueryLogger_restored assms) simp
  have "enabled l" "saveToFile l" "filePath l \<noteq> []"
    using assms(4) by (simp_all add: l_def NewQueryLogger_def restoreStatsFromFile_def restore_frame
        NewQueryLogger_mem_def split: sum.splits)
  moreover have "i64 (offset + limit) = offset + limit"
    using assms by (intro i64_id) (simp add: in_i64_def)
  ultimately have "GetLogs J (Inr (unlines (map enc es))) offset limit [] l
      = Some (take (nat limit) (drop (nat offset) (rev es)), int (length es))"
    using assms r
    by (simp add: GetLogs_def readLogsFromFileBackwards_slice slice_def file_entries_unlines
        log_matches_def restored_def Let_def)
  with r show ?thesis by (simp add: restored_def l_def Let_def)
qed

section \<open>Witnesses\<close>

text \<open>A library for entries that differ in their domain only, and two entries.\<close>

definition sample_enc :: "log_entry \<Rightarrow> string" where
  "sample_enc e = ''{'' @ le_Domain e @ ''}''"

definition sample_json :: json_lib where
  "sample_json = \<lparr>json_Marshal = \<lambda>e. Some (sample_enc e),
     json_Unmarshal = \<lambda>s. if take 1 s = ''{'' then Some (sample_entry ''10.0.0.1'' (butlast (tl s)) ''Rule(CN)'') else None\<rparr>"

definition entry_a :: log_entry where "entry_a = sample_entry ''10.0.0.1'' ''a.example'' ''Rule(CN)''"
definition entry_b :: log_entry where "entry_b = sample_entry ''10.0.0.1'' ''b.example'' ''Rule(CN)''"

lemma sample_short: "list_all (json_short sample_json sample_enc) [entry_a, entry_b]"
  by (simp add: json_short_def json_line_def sample_json_def sample_enc_def entry_a_def entry_b_def
      sample_entry_def LF_def char_of_def)

definition sample_file_logger :: query_logger where
  "sample_file_logger = NewQueryLogger sample_json (Inr (unlines (map sample_enc [entry_a, entry_b]), None))
     True 10 1 ''q.log'' True 0"

theorem GetLogs_reads_newest_first_witness:
  "GetLogs sample_json (Inr (unlines [sample_enc entry_a, ''broken'', sample_enc entry_b] @ ''{''))
     0 5 ''a.EX'' (sample_file_logger\<lparr>persistedLogCount := 3\<rparr>) = Some ([entry_a], 1)"
proof -
  let ?c = "unlines [sample_enc entry_a, ''broken'', sample_enc entry_b] @ ''{''"
  have "enabled sample_file_logger" "saveToFile sample_file_logger" "filePath sample_file_logger \<noteq> []"
    by (simp_all add: sample_file_logger_def NewQueryLogger_def restoreStatsFromFile_def restore_frame
        NewQueryLogger_mem_def split: sum.splits)
  moreover have "length ?c < 2 ^ 10" by code_simp
  moreover have "filter (\<lambda>e. log_matches e (strings_ToLower ''a.EX'')) (file_entries sample_json ?c) = [entry_a]"
    by code_simp
  ultimately show ?thesis
    using GetLogs_reads_newest_first [of "sample_file_logger\<lparr>persistedLogCount := 3\<rparr>" ?c 0 5 sample_json "''a.EX''"]
    by (simp add: Let_def)
qed

theorem log_file_keeps_newest_witness:
  "\<exists>k. let kept = drop k [entry_a, entry_b] in
      appendAll sample_json 1 [entry_a, entry_b] (None, 0)
        = (Some (unlines (map sample_enc kept)), int (length kept))
      \<and> last [entry_a, entry_b] \<in> set kept"
  using log_file_keeps_newest [OF sample_short, of 1] by (auto simp: Let_def)

theorem restart_continues_log_witness:
  "let l = NewQueryLogger sample_json (Inr (unlines (map sample_enc [entry_a, entry_b]), None)) True 10 1 ''q.log'' True 0
   in persistedLogCount l = 2 \<and> TotalCN (stats l) = 2
      \<and> GetLogs sample_json (Inr (unlines (map sample_enc [entry_a, entry_b]))) 0 1 [] l = Some ([entry_b], 2)"
proof -
  have "length (unlines (map sample_enc [entry_a, entry_b])) < 2 ^ 10" by code_simp
  moreover have "is_cn entry_a" "is_cn entry_b" by code_simp+
  moreover have "le_ID entry_a = 0" "le_ID entry_b = 0" by (simp_all add: entry_a_def entry_b_def sample_entry_def)
  ultimately show ?thesis
    using restart_continues_log [OF sample_short, of "''q.log''" 0 1 10 1 0] by (simp add: Let_def totals_ok_def)
qed

end
