(* ===== verification/LogWriter.thy ===== *)
theory LogWriter
  imports LogFile "HOL-Library.Multiset"
begin

text \<open>
  How entries get into the log file (\<open>internal/querylog/querylog.go\<close>): calls of \<open>AddLog\<close>, the
  queue, the writer goroutine and \<open>Close\<close>, as interleaved atomic steps. A step is a section under
  the logger's mutex, a section under the file mutex, one channel operation or one access of
  \<open>closed\<close>. Every call of \<open>AddLog\<close> is an element of a list with the point it has reached.
\<close>

section \<open>State\<close>

datatype call_state =
    Unchecked log_entry
  | Sending log_entry
  | QueueFull log_entry
  | Returned

datatype writer_state =
    Receiving
  | Appending log_entry
  | Draining
  | DrainAppending log_entry
  | WriterDone

text \<open>
  The channels \<open>stopWriter\<close> and \<open>writerDone\<close> are closed or not: \<open>ws_stop\<close>, and \<open>WriterDone\<close>. The
  last three fields record what happened: the entries to be persisted, the appends with what the
  system calls answered, and the entries \<open>enqueueFileWrite\<close> discarded.
\<close>

record wstate =
  ws_logger :: query_logger
  ws_content :: "string option"
  ws_calls :: "call_state list"
  ws_writer :: writer_state
  ws_stop :: bool
  ws_accepted :: "log_entry list"
  ws_appended :: "(file_faults \<times> log_entry) list"
  ws_dropped :: "log_entry list"

definition queue :: "wstate \<Rightarrow> log_entry list" where
  "queue s = (case fileQueue (ws_logger s) of None \<Rightarrow> [] | Some (cap, q) \<Rightarrow> q)"

definition set_queue :: "log_entry list \<Rightarrow> query_logger \<Rightarrow> query_logger" where
  "set_queue q l = l\<lparr>fileQueue := map_option (\<lambda>(cap, _). (cap, q)) (fileQueue l)\<rparr>"

definition winit :: "query_logger \<Rightarrow> string option \<Rightarrow> wstate" where
  "winit l content = \<lparr>ws_logger = l, ws_content = content, ws_calls = [], ws_writer = Receiving, ws_stop = False,
     ws_accepted = [], ws_appended = [], ws_dropped = []\<rparr>"

section \<open>Operations\<close>

definition cloneEntry :: "log_entry \<Rightarrow> log_entry" where "cloneEntry entry = entry"

definition shouldPersist :: "query_logger \<Rightarrow> bool" where
  "shouldPersist l \<longleftrightarrow> saveToFile l \<and> filePath l \<noteq> [] \<and> fileQueue l \<noteq> None"

text \<open>\<open>AddLog\<close> up to the end of the section under the mutex.\<close>

definition AddLog_enter :: "int \<Rightarrow> log_entry \<Rightarrow> wstate \<Rightarrow> wstate" where
  "AddLog_enter now entry s =
     (let l = ws_logger s in
      if \<not> enabled l \<or> closed l then s\<lparr>ws_calls := ws_calls s @ [Returned]\<rparr>
      else
        (case AddLog_locked now entry l of
           (l', entry') \<Rightarrow>
             if shouldPersist l'
             then s\<lparr>ws_logger := l', ws_calls := ws_calls s @ [Unchecked (cloneEntry entry')],
                    ws_accepted := ws_accepted s @ [cloneEntry entry']\<rparr>
             else s\<lparr>ws_logger := l', ws_calls := ws_calls s @ [Returned]\<rparr>))"

text \<open>\<open>enqueueFileWrite\<close>: the guard, the \<open>select\<close>, and the synchronous append of a full queue.\<close>

definition enqueueFileWrite_guard :: "nat \<Rightarrow> log_entry \<Rightarrow> wstate \<Rightarrow> wstate" where
  "enqueueFileWrite_guard i entry s =
     (if fileQueue (ws_logger s) = None \<or> closed (ws_logger s)
      then s\<lparr>ws_calls := (ws_calls s)[i := Returned], ws_dropped := ws_dropped s @ [entry]\<rparr>
      else s\<lparr>ws_calls := (ws_calls s)[i := Sending entry]\<rparr>)"

definition enqueueFileWrite_select :: "nat \<Rightarrow> log_entry \<Rightarrow> wstate \<Rightarrow> wstate" where
  "enqueueFileWrite_select i entry s =
     (case fileQueue (ws_logger s) of
        Some (cap, q) \<Rightarrow>
          if length q < cap
          then s\<lparr>ws_logger := set_queue (q @ [entry]) (ws_logger s), ws_calls := (ws_calls s)[i := Returned]\<rparr>
          else s\<lparr>ws_calls := (ws_calls s)[i := QueueFull entry]\<rparr>
      | None \<Rightarrow> s\<lparr>ws_calls := (ws_calls s)[i := QueueFull entry]\<rparr>)"

definition append_entry :: "json_lib \<Rightarrow> file_faults \<Rightarrow> log_entry \<Rightarrow> wstate \<Rightarrow> wstate" where
  "append_entry J faults entry s =
     (case appendToFile J faults (maxSizeMB (ws_logger s)) entry (ws_content s, persistedLogCount (ws_logger s)) of
        (c, n) \<Rightarrow> s\<lparr>ws_content := c, ws_logger := (ws_logger s)\<lparr>persistedLogCount := n\<rparr>,
                    ws_appended := ws_appended s @ [(faults, entry)]\<rparr>)"

text \<open>The writer goroutine: receiving in the outer and in the draining \<open>select\<close>, and appending.\<close>

definition writer_receive :: "log_entry \<Rightarrow> log_entry list \<Rightarrow> wstate \<Rightarrow> wstate" where
  "writer_receive entry q s =
     s\<lparr>ws_logger := set_queue q (ws_logger s),
       ws_writer := (if ws_writer s = Receiving then Appending entry else DrainAppending entry)\<rparr>"

definition writer_append :: "json_lib \<Rightarrow> file_faults \<Rightarrow> wstate \<Rightarrow> wstate" where
  "writer_append J faults s =
     (case ws_writer s of
        Appending entry \<Rightarrow> (append_entry J faults entry s)\<lparr>ws_writer := Receiving\<rparr>
      | DrainAppending entry \<Rightarrow> (append_entry J faults entry s)\<lparr>ws_writer := Draining\<rparr>
      | _ \<Rightarrow> s)"

inductive wstep :: "json_lib \<Rightarrow> wstate \<Rightarrow> wstate \<Rightarrow> bool" for J :: json_lib where
  add: "wstep J s (AddLog_enter now entry s)"
| guard: "i < length (ws_calls s) \<Longrightarrow> ws_calls s ! i = Unchecked entry \<Longrightarrow> wstep J s (enqueueFileWrite_guard i entry s)"
| send: "i < length (ws_calls s) \<Longrightarrow> ws_calls s ! i = Sending entry \<Longrightarrow> wstep J s (enqueueFileWrite_select i entry s)"
| sync: "i < length (ws_calls s) \<Longrightarrow> ws_calls s ! i = QueueFull entry \<Longrightarrow>
    wstep J s ((append_entry J faults entry s)\<lparr>ws_calls := (ws_calls s)[i := Returned]\<rparr>)"
| receive: "ws_writer s = Receiving \<or> ws_writer s = Draining \<Longrightarrow> queue s = entry # q \<Longrightarrow>
    wstep J s (writer_receive entry q s)"
| finish: "ws_writer s = Appending entry \<or> ws_writer s = DrainAppending entry \<Longrightarrow> wstep J s (writer_append J faults s)"
| stop: "ws_writer s = Receiving \<Longrightarrow> ws_stop s \<Longrightarrow> wstep J s (s\<lparr>ws_writer := Draining\<rparr>)"
| leave: "ws_writer s = Draining \<Longrightarrow> queue s = [] \<Longrightarrow> wstep J s (s\<lparr>ws_writer := WriterDone\<rparr>)"
| close_flag: "wstep J s (s\<lparr>ws_logger := (ws_logger s)\<lparr>closed := True\<rparr>\<rparr>)"
| close_stop: "closed (ws_logger s) \<Longrightarrow> wstep J s (s\<lparr>ws_stop := True\<rparr>)"

section \<open>Invariants\<close>

text \<open>Where an entry that is to be persisted can be before it is appended.\<close>

fun call_holds :: "call_state \<Rightarrow> log_entry list" where
  "call_holds (Unchecked e) = [e]"
| "call_holds (Sending e) = [e]"
| "call_holds (QueueFull e) = [e]"
| "call_holds Returned = []"

fun writer_holds :: "writer_state \<Rightarrow> log_entry list" where
  "writer_holds (Appending e) = [e]"
| "writer_holds (DrainAppending e) = [e]"
| "writer_holds _ = []"

definition in_flight :: "wstate \<Rightarrow> log_entry multiset" where
  "in_flight s = mset (concat (map call_holds (ws_calls s))) + mset (queue s) + mset (writer_holds (ws_writer s))"

definition conserved :: "wstate \<Rightarrow> bool" where
  "conserved s \<longleftrightarrow>
     mset (ws_accepted s) = mset (map snd (ws_appended s)) + mset (ws_dropped s) + in_flight s"

definition file_state :: "wstate \<Rightarrow> string option \<times> int" where
  "file_state s = (ws_content s, persistedLogCount (ws_logger s))"

definition replay :: "json_lib \<Rightarrow> int \<Rightarrow> (file_faults \<times> log_entry) list \<Rightarrow> string option \<times> int \<Rightarrow> string option \<times> int" where
  "replay J maxMB ops file = fold (\<lambda>(faults, e). appendToFile J faults maxMB e) ops file"

text \<open>The rest: the file is what the appends in their order make of it, and the flags.\<close>

definition writer_side :: "json_lib \<Rightarrow> query_logger \<Rightarrow> string option \<Rightarrow> wstate \<Rightarrow> bool" where
  "writer_side J l0 content s \<longleftrightarrow>
     file_state s = replay J (maxSizeMB l0) (ws_appended s) (content, persistedLogCount l0)
     \<and> maxSizeMB (ws_logger s) = maxSizeMB l0
     \<and> map_option fst (fileQueue (ws_logger s)) = map_option fst (fileQueue l0)
     \<and> (\<forall>cap q. fileQueue (ws_logger s) = Some (cap, q) \<longrightarrow> length q \<le> cap)
     \<and> (ws_dropped s \<noteq> [] \<longrightarrow> closed (ws_logger s))
     \<and> (ws_stop s \<longrightarrow> closed (ws_logger s))
     \<and> (ws_writer s = Draining \<or> ws_writer s = WriterDone \<or> ws_writer s \<in> range DrainAppending \<longrightarrow> ws_stop s)"

lemma queue_set_queue: "fileQueue l \<noteq> None \<Longrightarrow>
    (case fileQueue (set_queue q l) of None \<Rightarrow> [] | Some (cap, q) \<Rightarrow> q) = q"
  by (auto simp: set_queue_def)

lemma set_queue_frame [simp]:
  "closed (set_queue q l) = closed l" "maxSizeMB (set_queue q l) = maxSizeMB l"
  "persistedLogCount (set_queue q l) = persistedLogCount l"
  "map_option fst (fileQueue (set_queue q l)) = map_option fst (fileQueue l)"
  by (simp_all add: set_queue_def option.map_comp comp_def case_prod_unfold)

lemma AddLog_locked_frame:
  assumes "AddLog_locked now e l = (l', e')"
  shows "fileQueue l' = fileQueue l" "closed l' = closed l" "maxSizeMB l' = maxSizeMB l"
    "persistedLogCount l' = persistedLogCount l"
proof -
  from assms have "l' = fst (AddLog_locked now e l)" by simp
  then show "fileQueue l' = fileQueue l" "closed l' = closed l" "maxSizeMB l' = maxSizeMB l"
    "persistedLogCount l' = persistedLogCount l"
    by (simp_all add: AddLog_locked_def Let_def)
qed

lemma append_entry_fields:
  "file_state (append_entry J faults e s) =
     appendToFile J faults (maxSizeMB (ws_logger s)) e (file_state s)"
  "ws_appended (append_entry J faults e s) = ws_appended s @ [(faults, e)]"
  "ws_calls (append_entry J faults e s) = ws_calls s" "ws_writer (append_entry J faults e s) = ws_writer s"
  "ws_stop (append_entry J faults e s) = ws_stop s" "ws_accepted (append_entry J faults e s) = ws_accepted s"
  "ws_dropped (append_entry J faults e s) = ws_dropped s"
  "fileQueue (ws_logger (append_entry J faults e s)) = fileQueue (ws_logger s)"
  "closed (ws_logger (append_entry J faults e s)) = closed (ws_logger s)"
  "maxSizeMB (ws_logger (append_entry J faults e s)) = maxSizeMB (ws_logger s)"
  by (simp_all add: append_entry_def file_state_def split: prod.splits)

lemma append_entry_queue [simp]: "queue (append_entry J faults e s) = queue s"
  by (simp add: queue_def append_entry_fields)

text \<open>Every step keeps the entries: what it takes from one place it puts into another.\<close>

lemma conserved_step:
  assumes "wstep J s s'" and "conserved s"
  shows "conserved s'"
  using assms
proof cases
  case (add now entry)
  obtain l' e' where a: "AddLog_locked now entry (ws_logger s) = (l', e')" by fastforce
  note f = AddLog_locked_frame [OF a]
  from add assms(2) f show ?thesis
    by (auto simp: conserved_def in_flight_def AddLog_enter_def Let_def a queue_def cloneEntry_def)
next
  case (guard i entry)
  from mset_concat_update [OF guard(2), of call_holds Returned]
    mset_concat_update [OF guard(2), of call_holds "Sending entry"] guard assms(2) show ?thesis
    by (auto simp: conserved_def in_flight_def enqueueFileWrite_guard_def queue_def)
next
  case (send i entry)
  show ?thesis
  proof (cases "fileQueue (ws_logger s)")
    case None
    with mset_concat_update [OF send(2), of call_holds "QueueFull entry"] send assms(2) show ?thesis
      by (simp add: conserved_def in_flight_def enqueueFileWrite_select_def queue_def)
  next
    case (Some cq)
    with mset_concat_update [OF send(2), of call_holds "QueueFull entry"]
      mset_concat_update [OF send(2), of call_holds Returned] send assms(2) show ?thesis
      by (cases cq) (auto simp: conserved_def in_flight_def enqueueFileWrite_select_def queue_def set_queue_def)
  qed
next
  case (sync i entry faults)
  from mset_concat_update [OF sync(2), of call_holds Returned] sync assms(2) show ?thesis
    by (simp add: conserved_def in_flight_def append_entry_fields queue_def)
next
  case (receive entry q)
  then show ?thesis using assms(2)
    by (auto simp: conserved_def in_flight_def writer_receive_def queue_def set_queue_def split: option.splits)
next
  case (finish entry faults)
  then show ?thesis using assms(2)
    by (auto simp: conserved_def in_flight_def writer_append_def append_entry_fields queue_def)
next
  case stop
  then show ?thesis using assms(2) by (simp add: conserved_def in_flight_def queue_def)
next
  case leave
  then show ?thesis using assms(2) by (simp add: conserved_def in_flight_def queue_def)
next
  case close_flag
  then show ?thesis using assms(2) by (simp add: conserved_def in_flight_def queue_def)
next
  case close_stop
  then show ?thesis using assms(2) by (simp add: conserved_def in_flight_def queue_def)
qed

lemma replay_snoc [simp]:
  "replay J mb (ops @ [(faults, e)]) file = appendToFile J faults mb e (replay J mb ops file)"
  by (simp add: replay_def)

lemma queue_none: "map_option fst x = Some c \<Longrightarrow> x \<noteq> None"
  by auto

lemma wstate_update_same:
  "ws_writer s = w \<Longrightarrow> s\<lparr>ws_calls := cs, ws_writer := w\<rparr> = s\<lparr>ws_calls := cs\<rparr>"
  "ws_calls s = cs \<Longrightarrow> s\<lparr>ws_calls := cs, ws_writer := w\<rparr> = s\<lparr>ws_writer := w\<rparr>"
  by (cases s; simp)+

lemma writer_side_append:
  assumes "writer_side J l0 content s"
    and "w = ws_writer s \<or> w = Receiving \<or> w = Draining \<and> ws_stop s"
  shows "writer_side J l0 content ((append_entry J faults e s)\<lparr>ws_calls := cs, ws_writer := w\<rparr>)"
  using assms append_entry_fields [of J faults e s]
  unfolding writer_side_def file_state_def by auto

lemma writer_side_step:
  assumes "wstep J s s'" and "writer_side J l0 content s" and has: "fileQueue l0 \<noteq> None"
  shows "writer_side J l0 content s'"
  using assms(1)
proof cases
  case (add now entry)
  obtain l' e' where a: "AddLog_locked now entry (ws_logger s) = (l', e')" by fastforce
  from add assms(2) AddLog_locked_frame [OF a] show ?thesis
    by (auto simp: writer_side_def file_state_def AddLog_enter_def Let_def a)
next
  case (guard i entry)
  from assms(2) has have "fileQueue (ws_logger s) \<noteq> None" by (auto simp: writer_side_def)
  with guard assms(2) show ?thesis
    by (auto simp: writer_side_def file_state_def enqueueFileWrite_guard_def)
next
  case (send i entry)
  from assms(2) has obtain cap q where "fileQueue (ws_logger s) = Some (cap, q)"
    by (cases "fileQueue (ws_logger s)") (auto simp: writer_side_def)
  with send assms(2) show ?thesis
    by (auto simp: writer_side_def file_state_def enqueueFileWrite_select_def set_queue_def)
next
  case (sync i entry faults)
  then show ?thesis
    using writer_side_append [where w = "ws_writer s" and cs = "(ws_calls s)[i := Returned]" and faults = faults
        and e = entry, OF assms(2)]
    by (simp add: append_entry_fields wstate_update_same)
next
  case (receive entry q)
  then show ?thesis using assms(2)
    by (auto simp: writer_side_def file_state_def writer_receive_def set_queue_def queue_def split: option.splits)
next
  case (finish entry faults)
  have "ws_stop s" if "ws_writer s = DrainAppending entry" using that assms(2) by (auto simp: writer_side_def)
  with finish show ?thesis
    using writer_side_append [where w = Receiving and cs = "ws_calls s" and faults = faults and e = entry, OF assms(2)]
      writer_side_append [where w = Draining and cs = "ws_calls s" and faults = faults and e = entry, OF assms(2)]
    by (auto simp: writer_append_def append_entry_fields wstate_update_same)
next
  case stop
  with assms(2) show ?thesis by (auto simp: writer_side_def file_state_def)
next
  case leave
  with assms(2) show ?thesis by (auto simp: writer_side_def file_state_def)
next
  case close_flag
  with assms(2) show ?thesis by (auto simp: writer_side_def file_state_def)
next
  case close_stop
  with assms(2) show ?thesis by (auto simp: writer_side_def file_state_def)
qed

interpretation writer: step_system "\<lambda>s. s = winit l0 content \<and> (\<exists>cap. fileQueue l0 = Some (cap, []))"
  "wstep J" "\<lambda>s. conserved s \<and> writer_side J l0 content s \<and> fileQueue l0 \<noteq> None"
  for J l0 content
proof unfold_locales
  fix s assume "s = winit l0 content \<and> (\<exists>cap. fileQueue l0 = Some (cap, []))"
  then show "conserved s \<and> writer_side J l0 content s \<and> fileQueue l0 \<noteq> None"
    by (auto simp: winit_def conserved_def in_flight_def queue_def writer_side_def file_state_def replay_def)
next
  fix s s' assume "conserved s \<and> writer_side J l0 content s \<and> fileQueue l0 \<noteq> None" "wstep J s s'"
  then show "conserved s' \<and> writer_side J l0 content s' \<and> fileQueue l0 \<noteq> None"
    using conserved_step writer_side_step by blast
qed

text \<open>After \<open>Close\<close> with no call under way: the queue only shrinks, and is empty when the writer ends.\<close>

definition closing :: "wstate \<Rightarrow> bool" where
  "closing s \<longleftrightarrow> closed (ws_logger s) \<and> set (ws_calls s) \<subseteq> {Returned} \<and> (ws_writer s = WriterDone \<longrightarrow> queue s = [])"

lemma closing_step:
  assumes "wstep J s s'" and "closing s"
  shows "closing s'"
  using assms(1)
proof cases
  case (add now entry)
  with assms(2) show ?thesis by (auto simp: closing_def AddLog_enter_def queue_def)
next
  case (receive entry q)
  with assms(2) show ?thesis by (auto simp: closing_def writer_receive_def)
next
  case (finish entry faults)
  with assms(2) show ?thesis by (auto simp: closing_def writer_append_def append_entry_fields)
qed (use assms(2) in \<open>auto simp: closing_def queue_def in_set_conv_nth subset_iff\<close>)

lemma closing_run: "(wstep J)\<^sup>*\<^sup>* s s' \<Longrightarrow> closing s \<Longrightarrow> closing s'"
  by (induction rule: rtranclp_induct) (auto intro: closing_step)

lemma reachable_writer:
  assumes "fileQueue l0 = Some (cap, [])" and "(wstep J)\<^sup>*\<^sup>* (winit l0 content) s"
  shows "conserved s" and "writer_side J l0 content s"
  using writer.inv_reachable [of "winit l0 content" l0 content J s] assms by auto

lemma all_returned: "set (ws_calls s) \<subseteq> {Returned} \<Longrightarrow> concat (map call_holds (ws_calls s)) = []"
  by auto

section \<open>Properties of the writer\<close>

text \<open>
  C10: Under every interleaving of calls, writer, \<open>Close\<close> and failing system calls, each entry that
  is to be persisted is in exactly one place: appended once, in a call, in the queue, with the
  writer, or discarded, which happens only after \<open>Close\<close>. The queue stays within its capacity,
  and the file with its line count is what the appends make of it one after the other.
\<close>

theorem log_entries_conserved:
  assumes "fileQueue l0 = Some (cap, [])" and "(wstep J)\<^sup>*\<^sup>* (winit l0 content) s"
  shows "mset (ws_accepted s) = mset (map snd (ws_appended s)) + mset (ws_dropped s)
           + mset (concat (map call_holds (ws_calls s))) + mset (queue s) + mset (writer_holds (ws_writer s))
    \<and> (\<not> closed (ws_logger s) \<longrightarrow> ws_dropped s = [])
    \<and> length (queue s) \<le> cap
    \<and> (ws_content s, persistedLogCount (ws_logger s))
        = replay J (maxSizeMB l0) (ws_appended s) (content, persistedLogCount l0)"
proof -
  note inv = reachable_writer [OF assms]
  from inv(2) assms(1) have "length (queue s) \<le> cap"
    by (auto simp: writer_side_def queue_def split: option.splits)
  moreover from inv(1) have "mset (ws_accepted s) = mset (map snd (ws_appended s)) + mset (ws_dropped s)
      + mset (concat (map call_holds (ws_calls s))) + mset (queue s) + mset (writer_holds (ws_writer s))"
    unfolding conserved_def in_flight_def by (simp only: add.assoc)
  moreover from inv(2) have "file_state s = replay J (maxSizeMB l0) (ws_appended s) (content, persistedLogCount l0)"
    "\<not> closed (ws_logger s) \<longrightarrow> ws_dropped s = []"
    by (auto simp: writer_side_def)
  ultimately show ?thesis unfolding file_state_def by blast
qed

text \<open>
  \<open>Close\<close> flushes: if no call of \<open>AddLog\<close> is under way when the logger is closed and the
  writer has not ended, then once the writer has ended every entry that was to be persisted has
  been appended, or had been discarded before.
\<close>

theorem Close_flushes_queue:
  assumes "fileQueue l0 = Some (cap, [])" and "(wstep J)\<^sup>*\<^sup>* (winit l0 content) s"
    and "closed (ws_logger s)" "set (ws_calls s) \<subseteq> {Returned}" "ws_writer s \<noteq> WriterDone"
    and "(wstep J)\<^sup>*\<^sup>* s s'" "ws_writer s' = WriterDone"
  shows "mset (ws_accepted s') = mset (map snd (ws_appended s')) + mset (ws_dropped s') \<and> queue s' = []"
proof -
  from assms(3-5) have "closing s" by (simp add: closing_def)
  with assms(6) have c: "closing s'" by (rule closing_run)
  from assms(2,6) have "conserved s'" using reachable_writer(1) [OF assms(1)] rtranclp_trans by metis
  with c assms(7) all_returned [of s'] show ?thesis by (simp add: closing_def conserved_def in_flight_def)
qed

section \<open>Witnesses and a race\<close>

text \<open>One call up to the queue: entered, guard passed, queued.\<close>

definition writer_logger :: query_logger where
  "writer_logger = startFileWriter (NewQueryLogger_mem True 10 1 ''q.log'' True 0)"

definition close_both :: "wstate \<Rightarrow> wstate" where
  "close_both s = s\<lparr>ws_logger := (ws_logger s)\<lparr>closed := True\<rparr>, ws_stop := True\<rparr>"

definition run_add :: wstate where "run_add = AddLog_enter 5 entry_a (winit writer_logger None)"
definition run_guard :: wstate where "run_guard = enqueueFileWrite_guard 0 (stamp 1 5 entry_a) run_add"
definition run_send :: wstate where "run_send = enqueueFileWrite_select 0 (stamp 1 5 entry_a) run_guard"

lemma writer_logger_fields:
  "fileQueue writer_logger = Some (64, [])" "enabled writer_logger" "\<not> closed writer_logger"
  "saveToFile writer_logger" "filePath writer_logger = ''q.log''" "nextID writer_logger = 1"
  by (simp_all add: writer_logger_def startFileWriter_def NewQueryLogger_mem_def maxFileWriteQueueSize_def)

lemma AddLog_enter_accepts:
  assumes "enabled (ws_logger s)" "\<not> closed (ws_logger s)" "shouldPersist (ws_logger s)"
  obtains l' where "AddLog_enter now e s = s\<lparr>ws_logger := l',
      ws_calls := ws_calls s @ [Unchecked (stamp (nextID (ws_logger s)) now e)],
      ws_accepted := ws_accepted s @ [stamp (nextID (ws_logger s)) now e]\<rparr>"
    "fileQueue l' = fileQueue (ws_logger s)" "\<not> closed l'"
proof -
  obtain l' e' where a: "AddLog_locked now e (ws_logger s) = (l', e')" by fastforce
  then have "e' = stamp (nextID (ws_logger s)) now e" "saveToFile l' = saveToFile (ws_logger s)"
    "filePath l' = filePath (ws_logger s)" by (auto simp: AddLog_locked_def Let_def)
  with assms AddLog_locked_frame [OF a] show ?thesis
    by (intro that [of l']) (simp_all add: AddLog_enter_def a shouldPersist_def cloneEntry_def Let_def)
qed

lemma run_calls:
  "ws_calls run_add = [Unchecked (stamp 1 5 entry_a)]" "ws_calls run_guard = [Sending (stamp 1 5 entry_a)]"
  "ws_calls run_send = [Returned]" "queue run_send = [stamp 1 5 entry_a]" "ws_writer run_send = Receiving"
  "ws_writer run_guard = Receiving" "queue run_guard = []" "closed (ws_logger run_send) = False"
  "ws_accepted run_send = [stamp 1 5 entry_a]" "ws_appended run_send = []" "ws_dropped run_send = []"
  "fileQueue (ws_logger run_guard) = Some (64, [])" "ws_appended run_guard = []"
proof -
  have "shouldPersist writer_logger" by (simp add: shouldPersist_def writer_logger_fields)
  then obtain l' where "AddLog_enter 5 entry_a (winit writer_logger None) = (winit writer_logger None)\<lparr>ws_logger := l',
      ws_calls := [Unchecked (stamp 1 5 entry_a)], ws_accepted := [stamp 1 5 entry_a]\<rparr>"
    "fileQueue l' = Some (64, [])" "\<not> closed l'"
    using AddLog_enter_accepts [of "winit writer_logger None" 5 entry_a] by (auto simp: winit_def writer_logger_fields)
  then show "ws_calls run_add = [Unchecked (stamp 1 5 entry_a)]" "ws_calls run_guard = [Sending (stamp 1 5 entry_a)]"
    "ws_calls run_send = [Returned]" "queue run_send = [stamp 1 5 entry_a]" "ws_writer run_send = Receiving"
    "ws_writer run_guard = Receiving" "queue run_guard = []" "closed (ws_logger run_send) = False"
    "ws_accepted run_send = [stamp 1 5 entry_a]" "ws_appended run_send = []" "ws_dropped run_send = []"
    "fileQueue (ws_logger run_guard) = Some (64, [])" "ws_appended run_guard = []"
    unfolding run_send_def run_guard_def run_add_def
    by (simp_all add: winit_def enqueueFileWrite_guard_def enqueueFileWrite_select_def queue_def set_queue_def)
qed

lemma run_reachable: "(wstep J)\<^sup>*\<^sup>* (winit writer_logger None) run_send"
  "(wstep J)\<^sup>*\<^sup>* (winit writer_logger None) run_guard"
proof -
  have "wstep J (winit writer_logger None) run_add" unfolding run_add_def by (rule wstep.add)
  moreover have "wstep J run_add run_guard" unfolding run_guard_def by (rule wstep.guard) (simp_all add: run_calls)
  ultimately show g: "(wstep J)\<^sup>*\<^sup>* (winit writer_logger None) run_guard" by simp
  have "wstep J run_guard run_send" unfolding run_send_def by (rule wstep.send) (simp_all add: run_calls)
  with g show "(wstep J)\<^sup>*\<^sup>* (winit writer_logger None) run_send" by simp
qed

lemma close_both_run: "(wstep J)\<^sup>*\<^sup>* s (close_both s)"
proof -
  let ?t = "s\<lparr>ws_logger := (ws_logger s)\<lparr>closed := True\<rparr>\<rparr>"
  have "wstep J s ?t" by (rule wstep.close_flag)
  moreover have "wstep J ?t (?t\<lparr>ws_stop := True\<rparr>)" by (rule wstep.close_stop) simp
  ultimately show ?thesis by (simp add: close_both_def)
qed

lemma writer_ends:
  assumes "ws_writer s = Receiving" "ws_stop s" "queue s = []"
  shows "(wstep J)\<^sup>*\<^sup>* s (s\<lparr>ws_writer := WriterDone\<rparr>)"
proof -
  have "wstep J s (s\<lparr>ws_writer := Draining\<rparr>)" by (rule wstep.stop) (use assms in auto)
  moreover have "wstep J (s\<lparr>ws_writer := Draining\<rparr>) (s\<lparr>ws_writer := Draining\<rparr>\<lparr>ws_writer := WriterDone\<rparr>)"
    by (rule wstep.leave) (use assms in \<open>auto simp: queue_def\<close>)
  ultimately show ?thesis by simp
qed

text \<open>The writer takes the head of the queue and appends it.\<close>

lemma writer_takes:
  assumes "ws_writer s = Receiving" "queue s = e # q"
  shows "\<exists>s'. (wstep J)\<^sup>*\<^sup>* s s' \<and> ws_writer s' = Receiving \<and> queue s' = q
    \<and> ws_appended s' = ws_appended s @ [(no_faults, e)] \<and> ws_calls s' = ws_calls s
    \<and> ws_stop s' = ws_stop s \<and> closed (ws_logger s') = closed (ws_logger s)"
proof -
  let ?t = "writer_receive e q s"
  have "wstep J s ?t" by (rule wstep.receive) (use assms in auto)
  moreover have "wstep J ?t (writer_append J no_faults ?t)"
    by (rule wstep.finish) (use assms in \<open>simp add: writer_receive_def\<close>)
  ultimately have "(wstep J)\<^sup>*\<^sup>* s (writer_append J no_faults ?t)" by simp
  moreover have "queue ?t = q" using assms(2)
    by (auto simp: writer_receive_def queue_def set_queue_def split: option.splits)
  moreover have "ws_writer ?t = Appending e" using assms(1) by (simp add: writer_receive_def)
  then have w: "writer_append J no_faults ?t = (append_entry J no_faults e ?t)\<lparr>ws_writer := Receiving\<rparr>"
    by (simp add: writer_append_def)
  moreover have "queue ((append_entry J no_faults e ?t)\<lparr>ws_writer := Receiving\<rparr>) = queue ?t"
    by (simp add: queue_def append_entry_fields)
  ultimately show ?thesis
    by (intro exI [of _ "writer_append J no_faults ?t"])
      (simp only: w, simp add: append_entry_fields writer_receive_def)
qed

lemma writer_drains:
  "ws_writer s = Receiving \<Longrightarrow> \<exists>s'. (wstep J)\<^sup>*\<^sup>* s s' \<and> ws_writer s' = Receiving \<and> queue s' = []
    \<and> ws_appended s' = ws_appended s @ map (Pair no_faults) (queue s) \<and> ws_calls s' = ws_calls s
    \<and> ws_stop s' = ws_stop s \<and> closed (ws_logger s') = closed (ws_logger s)"
proof (induction "queue s" arbitrary: s)
  case Nil
  then show ?case by (intro exI [of _ s]) simp
next
  case (Cons e q)
  from writer_takes [OF Cons.prems Cons.hyps(2) [symmetric], of J] obtain t where t:
    "(wstep J)\<^sup>*\<^sup>* s t" "ws_writer t = Receiving" "queue t = q" "ws_appended t = ws_appended s @ [(no_faults, e)]"
    "ws_calls t = ws_calls s" "ws_stop t = ws_stop s" "closed (ws_logger t) = closed (ws_logger s)" by blast
  from Cons.hyps(1) [OF t(3) [symmetric] t(2)] obtain s' where s': "(wstep J)\<^sup>*\<^sup>* t s'" "ws_writer s' = Receiving"
    "queue s' = []" "ws_appended s' = ws_appended t @ map (Pair no_faults) (queue t)" "ws_calls s' = ws_calls t"
    "ws_stop s' = ws_stop t" "closed (ws_logger s') = closed (ws_logger t)" by blast
  from t s' Cons.hyps(2) [symmetric] show ?case
    by (intro exI [of _ s']) (auto intro: rtranclp_trans)
qed

text \<open>
  A call of \<open>AddLog\<close> that has passed the guard when \<open>Close\<close> runs can put its entry into the queue
  after the writer has ended: the entry is never written.
\<close>

lemma Close_can_strand_entry:
  "\<exists>s. (wstep J)\<^sup>*\<^sup>* (winit writer_logger None) s \<and> ws_writer s = WriterDone
     \<and> set (ws_calls s) \<subseteq> {Returned} \<and> queue s \<noteq> [] \<and> ws_appended s = []"
proof -
  let ?c = "close_both run_guard"
  let ?d = "?c\<lparr>ws_writer := WriterDone\<rparr>"
  have "(wstep J)\<^sup>*\<^sup>* (winit writer_logger None) ?c"
    using run_reachable(2) close_both_run by (rule rtranclp_trans)
  moreover have "(wstep J)\<^sup>*\<^sup>* ?c ?d"
    by (rule writer_ends) (simp_all add: close_both_def queue_def run_calls [unfolded queue_def])
  ultimately have d: "(wstep J)\<^sup>*\<^sup>* (winit writer_logger None) ?d" by (rule rtranclp_trans)
  have "wstep J ?d (enqueueFileWrite_select 0 (stamp 1 5 entry_a) ?d)"
    by (rule wstep.send) (simp_all add: close_both_def run_calls)
  with d have "(wstep J)\<^sup>*\<^sup>* (winit writer_logger None) (enqueueFileWrite_select 0 (stamp 1 5 entry_a) ?d)" by simp
  moreover have "ws_writer (enqueueFileWrite_select 0 (stamp 1 5 entry_a) ?d) = WriterDone"
    "ws_calls (enqueueFileWrite_select 0 (stamp 1 5 entry_a) ?d) = [Returned]"
    "queue (enqueueFileWrite_select 0 (stamp 1 5 entry_a) ?d) \<noteq> []"
    "ws_appended (enqueueFileWrite_select 0 (stamp 1 5 entry_a) ?d) = []"
    using run_calls(2,12,13)
    by (simp_all add: enqueueFileWrite_select_def close_both_def queue_def set_queue_def)
  ultimately show ?thesis by (intro exI conjI) (assumption, simp_all)
qed

theorem log_entries_conserved_witness:
  "mset (ws_accepted run_send) = mset (queue run_send) \<and> length (queue run_send) \<le> 64"
  using log_entries_conserved [OF writer_logger_fields(1) run_reachable(1)]
  by (simp add: run_calls)

theorem Close_flushes_queue_witness:
  "\<exists>s'. (wstep sample_json)\<^sup>*\<^sup>* (winit writer_logger None) s' \<and> ws_writer s' = WriterDone
     \<and> map snd (ws_appended s') = [stamp 1 5 entry_a]
     \<and> mset (ws_accepted s') = mset (map snd (ws_appended s')) + mset (ws_dropped s')"
proof -
  let ?c = "close_both run_send"
  have c: "(wstep sample_json)\<^sup>*\<^sup>* (winit writer_logger None) ?c"
    using run_reachable(1) close_both_run by (rule rtranclp_trans)
  have fc: "ws_writer ?c = Receiving" "queue ?c = [stamp 1 5 entry_a]" "closed (ws_logger ?c)"
    "ws_calls ?c = [Returned]" "ws_appended ?c = []" "ws_stop ?c"
    using run_calls by (simp_all add: close_both_def queue_def)
  from writer_drains [OF fc(1), of sample_json] obtain d where d: "(wstep sample_json)\<^sup>*\<^sup>* ?c d"
    "ws_writer d = Receiving" "queue d = []" "ws_appended d = [(no_faults, stamp 1 5 entry_a)]" "ws_stop d"
    by (auto simp: fc)
  let ?e = "d\<lparr>ws_writer := WriterDone\<rparr>"
  from d writer_ends [of d sample_json] have e: "(wstep sample_json)\<^sup>*\<^sup>* ?c ?e" by (auto intro: rtranclp_trans)
  have "mset (ws_accepted ?e) = mset (map snd (ws_appended ?e)) + mset (ws_dropped ?e) \<and> queue ?e = []"
    by (rule Close_flushes_queue [OF writer_logger_fields(1) c _ _ _ e]) (simp_all add: fc)
  moreover from c e have "(wstep sample_json)\<^sup>*\<^sup>* (winit writer_logger None) ?e" by (rule rtranclp_trans)
  ultimately show ?thesis using d(4) by (intro exI [of _ ?e]) simp
qed

end
