(* ===== verification/Config_Store.thy ===== *)
theory Config_Store
  imports Config
begin

text \<open>
  \<open>internal/config/config.go\<close>: the configuration on disk. \<open>config.yaml\<close>, \<open>hosts.txt\<close> and
  \<open>rule.txt\<close> are read by \<open>LoadConfig\<close> and written by \<open>Save\<close>. The YAML library is a parameter;
  the two line based files are modelled completely.

  A file system maps a path to content and permission bits. An operation that writes returns
  the list of the file systems it passes through, so that a crash leaves one of them; the last
  one is the state it returns in.
\<close>

section \<open>Atomic replacement of a file\<close>

type_synonym files = "string \<Rightarrow> (string \<times> nat) option"

text \<open>
  What the operating system answers: the result of \<open>CreateTemp\<close>, how many bytes a failing write
  has written, the errors of the other calls, and whether the deferred \<open>Remove\<close> succeeds.
\<close>

record write_faults =
  wf_temp :: "goerr + string"
  wf_write :: "(nat \<times> goerr) option"
  wf_sync :: "goerr option"
  wf_close :: "goerr option"
  wf_chmod :: "goerr option"
  wf_rename :: "goerr option"
  wf_remove :: bool

definition writeFileAtomic ::
  "write_faults \<Rightarrow> string \<Rightarrow> string \<Rightarrow> nat \<Rightarrow> files \<Rightarrow> files list \<times> goerr option" where
  "writeFileAtomic f path data perm fs =
     (case wf_temp f of
        Inl e \<Rightarrow> ([fs], Some e)
      | Inr tmp \<Rightarrow>
          (let fs1 = fs(tmp \<mapsto> ([], 384));
               fs2 = fs1(tmp \<mapsto> ((case wf_write f of None \<Rightarrow> data | Some (n, _) \<Rightarrow> take n data), 384));
               fs3 = fs2(tmp \<mapsto> (data, perm));
               fs4 = fs3(tmp := None, path \<mapsto> (data, perm));
               clean = (\<lambda>fs'. if wf_remove f then fs'(tmp := None) else fs')
           in case map_option snd (wf_write f) of
                Some e \<Rightarrow> ([fs1, fs2, clean fs2], Some e)
              | None \<Rightarrow>
             (case wf_sync f of
                Some e \<Rightarrow> ([fs1, fs2, clean fs2], Some e)
              | None \<Rightarrow>
             (case wf_close f of
                Some e \<Rightarrow> ([fs1, fs2, clean fs2], Some e)
              | None \<Rightarrow>
             (case wf_chmod f of
                Some e \<Rightarrow> ([fs1, fs2, clean fs2], Some e)
              | None \<Rightarrow>
             (case wf_rename f of
                Some e \<Rightarrow> ([fs1, fs2, fs3, clean fs3], Some e)
              | None \<Rightarrow> ([fs1, fs2, fs3, fs4, clean fs4], None)))))))"

section \<open>The line based files\<close>

definition marshalPairs :: "string gomap \<Rightarrow> (string \<Rightarrow> string \<Rightarrow> string) \<Rightarrow> string" where
  "marshalPairs m line = concat (map (\<lambda>k. line k (the (map_of m k)) @ [LF]) (sort (map fst m)))"

definition hosts_line :: "string \<Rightarrow> string \<Rightarrow> string" where
  "hosts_line domain ip = ip @ '' '' @ domain"

definition rules_line :: "string \<Rightarrow> string \<Rightarrow> string" where
  "rules_line domain target = domain @ '' '' @ target"

definition saveHostsFile :: "write_faults \<Rightarrow> string \<Rightarrow> string gomap \<Rightarrow> files \<Rightarrow> files list \<times> goerr option" where
  "saveHostsFile f path hosts fs = writeFileAtomic f path (marshalPairs hosts hosts_line) 420 fs"

definition saveRulesFile :: "write_faults \<Rightarrow> string \<Rightarrow> string gomap \<Rightarrow> files \<Rightarrow> files list \<times> goerr option" where
  "saveRulesFile f path rules fs = writeFileAtomic f path (marshalPairs rules rules_line) 420 fs"

definition load_host_line :: "string \<Rightarrow> string gomap \<Rightarrow> string gomap" where
  "load_host_line text hosts =
     (let line = strings_TrimSpace text in
      if line = [] \<or> strings_HasPrefix line ''#'' then hosts
      else
        (let parts = strings_Fields line in
         if 2 \<le> length parts
         then fold (\<lambda>domain m. AList.update (strings_ToLower domain) (hd parts) m) (tl parts) hosts
         else hosts))"

definition load_rule_line :: "string \<Rightarrow> string gomap \<Rightarrow> string gomap" where
  "load_rule_line text rules =
     (let line = strings_TrimSpace text in
      if line = [] \<or> strings_HasPrefix line ''#'' then rules
      else
        (let parts = strings_Fields line in
         if 2 \<le> length parts
         then AList.update (strings_ToLower (parts ! 0)) (strings_ToLower (parts ! 1)) rules
         else rules))"

definition loadHostsFile :: "opened \<Rightarrow> string gomap \<Rightarrow> string gomap \<times> goerr option" where
  "loadHostsFile f hosts =
     (case f of
        Inl e \<Rightarrow> (hosts, Some e)
      | Inr c \<Rightarrow> (case bufio_lines c of (lines, err) \<Rightarrow> (fold load_host_line lines hosts, err)))"

definition loadRulesFile :: "opened \<Rightarrow> string gomap \<Rightarrow> string gomap \<times> goerr option" where
  "loadRulesFile f rules =
     (case f of
        Inl e \<Rightarrow> (rules, Some e)
      | Inr c \<Rightarrow> (case bufio_lines c of (lines, err) \<Rightarrow> (fold load_rule_line lines rules, err)))"

section \<open>LoadConfig and Save\<close>

datatype yaml = YMap "(string \<times> yaml) list" | YOther string

fun hasNestedKey :: "(string \<times> yaml) list \<Rightarrow> string list \<Rightarrow> bool" where
  "hasNestedKey current [] = False"
| "hasNestedKey current (key # keys) =
     (case map_of current key of
        None \<Rightarrow> False
      | Some v \<Rightarrow>
          if keys = [] then True
          else (case v of YMap m \<Rightarrow> hasNestedKey m keys | YOther _ \<Rightarrow> False))"

definition resolvePath :: "string \<Rightarrow> string \<Rightarrow> string" where
  "resolvePath configDir p =
     (if p = [] then [] else if \<not> filepath_IsAbs p then filepath_Join configDir p else p)"

definition relPath :: "string \<Rightarrow> string \<Rightarrow> string" where
  "relPath configDir p =
     (if strings_HasPrefix p configDir
      then (case filepath_Rel configDir p of Some r \<Rightarrow> r | None \<Rightarrow> p) else p)"

text \<open>The YAML library: strict decoding into the configuration and into a generic map, encoding.\<close>

record yaml_lib =
  yaml_config :: "string \<Rightarrow> goerr + config"
  yaml_raw :: "string \<Rightarrow> goerr + (string \<times> yaml) list"
  yaml_Marshal :: "config \<Rightarrow> goerr + string"

definition load_defaults :: "string \<Rightarrow> (string \<times> yaml) list \<Rightarrow> config \<Rightarrow> config" where
  "load_defaults configDir raw cfg =
     cfg\<lparr>cf_ConfigDir := configDir,
         cf_QueryLog := (cf_QueryLog cfg)
           \<lparr>ql_Enabled := (if hasNestedKey raw [''query_log'', ''enabled'']
                           then ql_Enabled (cf_QueryLog cfg) else True),
            ql_MaxHistory := (if ql_MaxHistory (cf_QueryLog cfg) \<le> 0 then 5000
                              else ql_MaxHistory (cf_QueryLog cfg))\<rparr>,
         cf_Listen := normalizeListenConfig (cf_Listen cfg)\<rparr>"

definition load_geodata :: "string \<Rightarrow> geo_data_config \<Rightarrow> geo_data_config" where
  "load_geodata configDir g =
     g\<lparr>gd_GeoIPDat := resolvePath configDir (if gd_GeoIPDat g = [] then ''geoip.dat'' else gd_GeoIPDat g),
       gd_GeoSiteDat := resolvePath configDir
         (if gd_GeoSiteDat g = [] then ''geosite.dat'' else gd_GeoSiteDat g)\<rparr>"

text \<open>A missing \<open>hosts.txt\<close> or \<open>rule.txt\<close> is no error.\<close>

definition load_failure :: "goerr option \<Rightarrow> goerr option" where
  "load_failure err =
     (case err of None \<Rightarrow> None | Some e \<Rightarrow> if \<not> os_IsNotExist e then Some e else None)"

definition LoadConfig ::
  "yaml_lib \<Rightarrow> goerr + string \<Rightarrow> (string \<Rightarrow> opened) \<Rightarrow> string \<Rightarrow> config result" where
  "LoadConfig Y cwd open_file configPath =
     (case filepath_Abs cwd configPath of
        Inl e \<Rightarrow> (None, Some (Wrapf ''failed to resolve config path'' e))
      | Inr absPath \<Rightarrow>
     (let configDir = filepath_Dir absPath in
      case os_ReadFile (open_file absPath) of
        Inl e \<Rightarrow> (None, Some (Wrapf ''cannot read the configuration file'' e))
      | Inr data \<Rightarrow>
     (case yaml_config Y data of
        Inl e \<Rightarrow> (None, Some (Wrapf ''cannot parse the configuration file'' e))
      | Inr cfg0 \<Rightarrow>
     (case yaml_raw Y data of
        Inl e \<Rightarrow> (None, Some (Wrapf ''failed to inspect config defaults'' e))
      | Inr raw \<Rightarrow>
     (let cfg1 = load_defaults configDir raw cfg0;
          (hosts, herr) = loadHostsFile (open_file (filepath_Join configDir ''hosts.txt'')) [];
          (rules, rerr) = loadRulesFile (open_file (filepath_Join configDir ''rule.txt'')) []
      in case load_failure herr of
           Some e \<Rightarrow> (None, Some (Wrapf ''loading hosts.txt failed'' e))
         | None \<Rightarrow>
        (case load_failure rerr of
           Some e \<Rightarrow> (None, Some (Wrapf ''loading rule.txt failed'' e))
         | None \<Rightarrow>
             (Some (cfg1\<lparr>cf_Hosts := hosts, cf_Rules := rules,
                         cf_GeoData := load_geodata configDir (cf_GeoData cfg1)\<rparr>), None)))))))"

definition saved_config :: "string \<Rightarrow> config \<Rightarrow> config" where
  "saved_config configDir c =
     c\<lparr>cf_GeoData := (cf_GeoData c)
         \<lparr>gd_GeoIPDat := relPath configDir (gd_GeoIPDat (cf_GeoData c)),
          gd_GeoSiteDat := relPath configDir (gd_GeoSiteDat (cf_GeoData c))\<rparr>\<rparr>"

definition Save ::
  "yaml_lib \<Rightarrow> goerr + string \<Rightarrow> write_faults \<times> write_faults \<times> write_faults \<Rightarrow> string \<Rightarrow> config \<Rightarrow> files
     \<Rightarrow> config \<times> files list \<times> goerr option" where
  "Save Y cwd faults configPath c fs =
     (case filepath_Abs cwd configPath of
        Inl e \<Rightarrow> (c, [fs], Some e)
      | Inr absPath \<Rightarrow>
     (let configDir = filepath_Dir absPath;
          c1 = c\<lparr>cf_ConfigDir := configDir, cf_Listen := normalizeListenConfig (cf_Listen c)\<rparr>
      in case yaml_Marshal Y (saved_config configDir c1) of
           Inl e \<Rightarrow> (c1, [fs], Some (Wrapf ''cannot serialise the configuration'' e))
         | Inr data \<Rightarrow>
        (case writeFileAtomic (fst faults) absPath data 384 fs of
           (t1, Some e) \<Rightarrow> (c1, t1, Some (Wrapf ''cannot write the configuration file'' e))
         | (t1, None) \<Rightarrow>
        (case saveHostsFile (fst (snd faults)) (filepath_Join configDir ''hosts.txt'') (cf_Hosts c1) (last t1) of
           (t2, Some e) \<Rightarrow> (c1, t1 @ t2, Some (Wrapf ''cannot write hosts.txt'' e))
         | (t2, None) \<Rightarrow>
        (case saveRulesFile (snd (snd faults)) (filepath_Join configDir ''rule.txt'') (cf_Rules c1) (last t2) of
           (t3, Some e) \<Rightarrow> (c1, t1 @ t2 @ t3, Some (Wrapf ''cannot write rule.txt'' e))
         | (t3, None) \<Rightarrow> (c1, t1 @ t2 @ t3, None))))))"

definition GetDefaultConfigPath :: "string \<Rightarrow> (string \<Rightarrow> bool) \<Rightarrow> string" where
  "GetDefaultConfigPath env stat_ok =
     (if env \<noteq> [] then env
      else
        (case find stat_ok [''config.yaml'', ''config/config.yaml'', ''/app/config/config.yaml'',
                            ''/etc/doh-autoproxy/config.yaml''] of
           Some p \<Rightarrow> p
         | None \<Rightarrow> ''config.yaml''))"

section \<open>Atomicity\<close>

lemma writeFileAtomic_states:
  assumes "wf_temp f \<noteq> Inr path"
    and "fs' \<in> set (fst (writeFileAtomic f path data perm fs))"
  shows "fs' path = fs path \<or> fs' path = Some (data, perm)"
  using assms
  by (auto simp: writeFileAtomic_def Let_def split: sum.splits option.splits if_splits)

lemma writeFileAtomic_others:
  assumes "fs' \<in> set (fst (writeFileAtomic f path data perm fs))"
    and "wf_temp f \<noteq> Inr q" and "q \<noteq> path"
  shows "fs' q = fs q"
  using assms
  by (auto simp: writeFileAtomic_def Let_def split: sum.splits option.splits if_splits)

lemma writeFileAtomic_result:
  assumes "wf_temp f \<noteq> Inr path"
  shows "last (fst (writeFileAtomic f path data perm fs)) path
    = (if snd (writeFileAtomic f path data perm fs) = None then Some (data, perm) else fs path)"
  using assms
  by (auto simp: writeFileAtomic_def Let_def split: sum.splits option.splits if_splits)

lemma writeFileAtomic_nonempty [simp]: "fst (writeFileAtomic f path data perm fs) \<noteq> []"
  by (auto simp: writeFileAtomic_def Let_def split: sum.splits option.splits if_splits)

lemma writeFileAtomic_nonempty_eq: "writeFileAtomic f path data perm fs = (states, err) \<Longrightarrow> states \<noteq> []"
  using writeFileAtomic_nonempty [of f path data perm fs] by simp

lemma writeFileAtomic_clean:
  assumes "wf_temp f = Inr tmp" and "tmp \<noteq> path" and "wf_remove f"
  shows "last (fst (writeFileAtomic f path data perm fs)) tmp = None"
  using assms
  by (auto simp: writeFileAtomic_def Let_def split: sum.splits option.splits if_splits)

section \<open>Round trip of the line based files\<close>

text \<open>
  The contract between a writer of lines and a reader of lines: the reader turns the line of an
  acceptable pair into one update of its map, and the line survives the scanner.
\<close>

locale line_codec =
  fixes line :: "string \<Rightarrow> string \<Rightarrow> string" and load_line :: "string \<Rightarrow> string gomap \<Rightarrow> string gomap"
    and ok :: "string \<Rightarrow> string \<Rightarrow> bool"
  assumes load_line: "ok k v \<Longrightarrow> load_line (line k v) m = AList.update k v m"
    and plain: "ok k v \<Longrightarrow> plain_line (line k v)"
begin

lemma load_lines:
  "list_all (\<lambda>k. ok k (f k)) ks \<Longrightarrow>
     map_of (fold load_line (map (\<lambda>k. line k (f k)) ks) m)
       = (\<lambda>k. if k \<in> set ks then Some (f k) else map_of m k)"
  by (induction ks arbitrary: m) (auto simp: load_line map_of_update fun_eq_iff)

lemma lines_of_file:
  assumes "list_all (\<lambda>k. ok k (f k)) ks"
  shows "bufio_lines (concat (map (\<lambda>k. line k (f k) @ [LF]) ks), e) = (map (\<lambda>k. line k (f k)) ks, e)"
proof -
  have "list_all plain_line (map (\<lambda>k. line k (f k)) ks)"
    using assms by (auto simp: list_all_iff intro: plain)
  from bufio_lines_unlines [OF this] show ?thesis by (simp add: unlines_def o_def)
qed

lemma load_marshal:
  assumes "list_all (\<lambda>(k, v). ok k v) m" and "wf_gomap m"
  shows "\<exists>ls. bufio_lines (marshalPairs m line, e) = (ls, e) \<and> map_of (fold load_line ls []) = map_of m"
proof -
  let ?ks = "sort (map fst m)" and ?f = "\<lambda>k. the (map_of m k)"
  have ok: "list_all (\<lambda>k. ok k (?f k)) ?ks"
    using assms by (auto simp: list_all_iff wf_gomap_def)
  have "map_of (fold load_line (map (\<lambda>k. line k (?f k)) ?ks) []) = map_of m"
  proof (rule ext)
    fix k
    show "map_of (fold load_line (map (\<lambda>k. line k (?f k)) ?ks) []) k = map_of m k"
    proof (cases "map_of m k")
      case None
      then have "k \<notin> fst ` set m" by (simp add: map_of_eq_None_iff)
      with None show ?thesis by (simp add: load_lines [OF ok])
    next
      case (Some v)
      then have "k \<in> fst ` set m" by (force dest: map_of_SomeD)
      with Some show ?thesis by (simp add: load_lines [OF ok])
    qed
  qed
  with lines_of_file [OF ok, of e] show ?thesis by (auto simp: marshalPairs_def)
qed

end

text \<open>
  A token that is not taken for a comment. Pairs of ASCII tokens in lower case survive the round
  trip; a capital letter is folded on loading, a space splits a key, and white space and letters
  outside ASCII are folded and split by Go in ways these definitions do not follow.
\<close>

definition first_token :: "string \<Rightarrow> bool" where
  "first_token w \<longleftrightarrow> token w \<and> \<not> strings_HasPrefix w ''#''"

definition host_pair_ok :: "string \<Rightarrow> string \<Rightarrow> bool" where
  "host_pair_ok k v \<longleftrightarrow> ascii k \<and> ascii v \<and> first_token v \<and> token k \<and> strings_ToLower k = k
     \<and> length k + length v + 1 < MaxScanTokenSize"

definition rule_pair_ok :: "string \<Rightarrow> string \<Rightarrow> bool" where
  "rule_pair_ok k v \<longleftrightarrow> ascii k \<and> ascii v \<and> first_token k \<and> token v \<and> strings_ToLower k = k \<and> strings_ToLower v = v
     \<and> length k + length v + 1 < MaxScanTokenSize"

lemma byte_consts [simp]: "byte LF = 10" "byte CR = 13" "is_space LF" "is_space CR" "is_space CHR '' ''"
  by (simp_all add: byte_def LF_def CR_def is_space_def)

lemma two_tokens:
  assumes "first_token v" and "token w"
  shows "strings_TrimSpace (v @ '' '' @ w) = v @ '' '' @ w" and "v @ '' '' @ w \<noteq> []"
    and "\<not> strings_HasPrefix (v @ '' '' @ w) ''#''"
    and "strings_Fields (v @ '' '' @ w) = [v, w]"
    and "LF \<notin> set (v @ '' '' @ w) \<and> last (v @ '' '' @ w) \<noteq> CR"
proof -
  from assms have t: "token v" "v \<noteq> []" "w \<noteq> []" by (simp_all add: first_token_def token_def)
  obtain a v' where v: "v = a # v'" using t by (cases v) auto
  have sp: "\<not> is_space a" "\<not> is_space (last w)" "LF \<notin> set v" "LF \<notin> set w"
    using assms t v by (auto simp: first_token_def token_def list_all_iff)
  show "v @ '' '' @ w \<noteq> []" by simp
  show "strings_TrimSpace (v @ '' '' @ w) = v @ '' '' @ w"
    using sp t v by (intro strings_TrimSpace_trimmed) simp
  show "\<not> strings_HasPrefix (v @ '' '' @ w) ''#''"
    using assms v by (simp add: first_token_def strings_HasPrefix_def)
  show "strings_Fields (v @ '' '' @ w) = [v, w]" using strings_Fields_two [OF t(1) assms(2)] by simp
  have "CHR '' '' \<noteq> LF" by code_simp
  then show "LF \<notin> set (v @ '' '' @ w) \<and> last (v @ '' '' @ w) \<noteq> CR" using sp t by auto
qed

interpretation hosts_codec: line_codec hosts_line load_host_line host_pair_ok
proof unfold_locales
  fix k v m
  assume ok: "host_pair_ok k v"
  then have t: "first_token v" "token k" "strings_ToLower k = k" by (simp_all add: host_pair_ok_def)
  note two = two_tokens [OF t(1,2)]
  from two t(3) show "load_host_line (hosts_line k v) m = AList.update k v m"
    unfolding load_host_line_def hosts_line_def Let_def by simp
  from two(5) ok show "plain_line (hosts_line k v)"
    unfolding plain_line_def hosts_line_def by (simp add: host_pair_ok_def)
qed

interpretation rules_codec: line_codec rules_line load_rule_line rule_pair_ok
proof unfold_locales
  fix k v m
  assume ok: "rule_pair_ok k v"
  then have t: "first_token k" "token v" "strings_ToLower k = k" "strings_ToLower v = v"
    by (simp_all add: rule_pair_ok_def)
  note two = two_tokens [OF t(1,2)]
  from two t(3,4) show "load_rule_line (rules_line k v) m = AList.update k v m"
    unfolding load_rule_line_def rules_line_def Let_def by simp
  from two(5) ok show "plain_line (rules_line k v)"
    unfolding plain_line_def rules_line_def by (simp add: rule_pair_ok_def)
qed


section \<open>Saving and loading a configuration\<close>

lemma filepath_Dir_abs_path:
  assumes "list_all plain_comp (ds @ [f])"
  shows "filepath_Dir (abs_path (ds @ [f])) = abs_path ds"
proof -
  have plain: "list_all plain_comp ds" "CHR ''/'' \<notin> set f" using assms by (simp_all add: plain_comp_def)
  have join: "strings_Join (ds @ [f]) ''/'' = (if ds = [] then f else strings_Join ds ''/'' @ ''/'' @ f)"
    by (induction ds) (simp_all add: strings_Join_Cons_nonempty)
  show ?thesis
  proof (cases "ds = []")
    case True
    have "last_index_byte ([] @ CHR ''/'' # f) (CHR ''/'') = Some (length ([] :: string))"
      using plain(2) by (rule last_index_byte_append)
    then have "filepath_Dir (abs_path (ds @ [f])) = filepath_Clean (abs_path [])"
      using True by (simp add: filepath_Dir_def abs_path_def slash_def)
    with True show ?thesis by (simp add: clean_abs_path)
  next
    case False
    let ?q = "CHR ''/'' # strings_Join ds ''/''"
    have p: "abs_path (ds @ [f]) = ?q @ CHR ''/'' # f"
      using join False by (simp add: abs_path_def slash_def)
    have "last_index_byte (?q @ CHR ''/'' # f) (CHR ''/'') = Some (length ?q)"
      using plain(2) by (rule last_index_byte_append)
    then have "filepath_Dir (abs_path (ds @ [f])) = filepath_Clean (take (Suc (length ?q)) (?q @ CHR ''/'' # f))"
      unfolding filepath_Dir_def p by simp
    also have "take (Suc (length ?q)) (?q @ CHR ''/'' # f) = abs_path ds @ slash @ strings_Join [[]] slash"
      by (simp add: abs_path_def slash_def)
    finally have d: "filepath_Dir (abs_path (ds @ [f])) = filepath_Clean (abs_path ds @ slash @ strings_Join [[]] slash)" .
    let ?c = "abs_path ds @ slash @ strings_Join [[]] slash"
    have "filter (\<lambda>c. c \<noteq> []) (strings_Split ?c (CHR ''/'')) = filter (\<lambda>c. c \<noteq> []) ds"
      using Split_abs_path_append [OF plain_no_slash [OF plain(1)], of "[[]]"] by (simp add: no_slash_def)
    then have "clean_comps True [] (strings_Split ?c (CHR ''/'')) = clean_comps True [] ds"
      by (metis clean_comps_filter)
    also have "\<dots> = ds" using clean_comps_plain [OF plain(1), of True "[]" "[]"] by simp
    finally have "filepath_Clean ?c = abs_path ds"
      by (simp add: filepath_Clean_def Let_def) (simp add: abs_path_def slash_def)
    with d show ?thesis by simp
  qed
qed

lemma filepath_Join_file:
  assumes "list_all plain_comp (ds @ [f])"
  shows "filepath_Join (abs_path ds) f = abs_path (ds @ [f])"
  using assms Join_abs_path [OF plain_no_slash, of ds "[f]"] clean_comps_plain [OF assms, of True "[]" "[]"]
  by (simp add: no_slash_def plain_comp_def abs_path_def)

lemma abs_path_inject:
  "list_all plain_comp cs \<Longrightarrow> list_all plain_comp ds \<Longrightarrow> abs_path cs = abs_path ds \<Longrightarrow> cs = ds"
  by (metis path_comps_abs_path)

text \<open>A path that \<open>Save\<close> makes relative and \<open>LoadConfig\<close> resolves again.\<close>

lemma resolve_rel_path:
  assumes "list_all plain_comp ds" and "list_all plain_comp qs"
  shows "resolvePath (abs_path ds) (relPath (abs_path ds) (abs_path qs)) = abs_path qs"
    and "relPath (abs_path ds) (abs_path qs) \<noteq> []"
proof -
  from Join_Rel [OF assms] obtain r
    where "filepath_Rel (abs_path ds) (abs_path qs) = Some r" "r \<noteq> []" "\<not> filepath_IsAbs r"
      "filepath_Join (abs_path ds) r = abs_path qs" by blast
  moreover have "abs_path qs \<noteq> []" by (simp add: abs_path_def slash_def)
  ultimately show "resolvePath (abs_path ds) (relPath (abs_path ds) (abs_path qs)) = abs_path qs"
    and "relPath (abs_path ds) (abs_path qs) \<noteq> []"
    by (simp_all add: relPath_def resolvePath_def)
qed

text \<open>Opening a file of a file system, without read errors.\<close>

definition fs_open :: "files \<Rightarrow> string \<Rightarrow> opened" where
  "fs_open fs p = (case fs p of None \<Rightarrow> Inl err_not_exist | Some (data, _) \<Rightarrow> Inr (data, None))"

definition temps_avoid :: "write_faults \<times> write_faults \<times> write_faults \<Rightarrow> string set \<Rightarrow> bool" where
  "temps_avoid fs paths \<longleftrightarrow>
     (\<forall>p \<in> paths. wf_temp (fst fs) \<noteq> Inr p \<and> wf_temp (fst (snd fs)) \<noteq> Inr p \<and> wf_temp (snd (snd fs)) \<noteq> Inr p)"

lemma writeFileAtomic_last_other:
  "wf_temp f \<noteq> Inr q \<Longrightarrow> q \<noteq> path \<Longrightarrow> last (fst (writeFileAtomic f path data perm fs)) q = fs q"
  using writeFileAtomic_others [OF last_in_set [OF writeFileAtomic_nonempty]] by blast

text \<open>What a successful \<open>Save\<close> leaves on disk.\<close>

lemma Save_files:
  assumes "Save Y cwd faults p c fs = (c', states, None)"
    and "filepath_Abs cwd p = Inr path" and "filepath_Join (filepath_Dir path) ''hosts.txt'' = hp"
    and "filepath_Join (filepath_Dir path) ''rule.txt'' = rp"
    and "distinct [path, hp, rp]" and "temps_avoid faults {path, hp, rp}"
  shows "\<exists>data. yaml_Marshal Y (saved_config (filepath_Dir path)
        (c\<lparr>cf_ConfigDir := filepath_Dir path, cf_Listen := normalizeListenConfig (cf_Listen c)\<rparr>)) = Inr data
    \<and> last states path = Some (data, 384)
    \<and> last states hp = Some (marshalPairs (cf_Hosts c) hosts_line, 420)
    \<and> last states rp = Some (marshalPairs (cf_Rules c) rules_line, 420)"
proof -
  let ?dir = "filepath_Dir path"
  let ?c1 = "c\<lparr>cf_ConfigDir := ?dir, cf_Listen := normalizeListenConfig (cf_Listen c)\<rparr>"
  obtain data where d: "yaml_Marshal Y (saved_config ?dir ?c1) = Inr data"
    using assms(1,2) by (auto simp: Save_def Let_def split: sum.splits)
  let ?w1 = "writeFileAtomic (fst faults) path data 384 fs"
  let ?w2 = "saveHostsFile (fst (snd faults)) hp (cf_Hosts c) (last (fst ?w1))"
  let ?w3 = "saveRulesFile (snd (snd faults)) rp (cf_Rules c) (last (fst ?w2))"
  have w: "snd ?w1 = None" "snd ?w2 = None" "snd ?w3 = None" "last states = last (fst ?w3)"
    using assms(1) unfolding Save_def assms(2) Let_def sum.case assms(3,4) d
    by (auto simp: saveRulesFile_def dest!: writeFileAtomic_nonempty_eq split: prod.splits option.splits)
  note ne = assms(5) and av = assms(6) [unfolded temps_avoid_def]
  have "last (fst ?w1) path = Some (data, 384)"
    using w(1) writeFileAtomic_result [of "fst faults" path data 384 fs] av by simp
  moreover have "last (fst ?w2) hp = Some (marshalPairs (cf_Hosts c) hosts_line, 420)"
    using w(2) writeFileAtomic_result [of "fst (snd faults)" hp] av by (simp add: saveHostsFile_def)
  moreover have "last (fst ?w3) rp = Some (marshalPairs (cf_Rules c) rules_line, 420)"
    using w(3) writeFileAtomic_result [of "snd (snd faults)" rp] av by (simp add: saveRulesFile_def)
  moreover have "last (fst ?w2) path = last (fst ?w1) path"
    using ne av by (simp add: saveHostsFile_def writeFileAtomic_last_other)
  moreover have "last (fst ?w3) path = last (fst ?w2) path" "last (fst ?w3) hp = last (fst ?w2) hp"
    using ne av by (simp_all add: saveRulesFile_def writeFileAtomic_last_other)
  ultimately show ?thesis using d w(4) by simp
qed


text \<open>What the YAML library documents, for one configuration: decoding undoes encoding, the fields
  tagged \<open>-\<close> stay empty, and an encoded boolean field is present.\<close>

definition yaml_roundtrips :: "yaml_lib \<Rightarrow> config \<Rightarrow> bool" where
  "yaml_roundtrips Y c \<longleftrightarrow>
     (case yaml_Marshal Y c of
        Inl _ \<Rightarrow> True
      | Inr d \<Rightarrow>
          yaml_config Y d = Inr (c\<lparr>cf_Hosts := [], cf_Rules := [], cf_ConfigDir := []\<rparr>) \<and>
          (case yaml_raw Y d of Inl _ \<Rightarrow> False | Inr raw \<Rightarrow> hasNestedKey raw [''query_log'', ''enabled'']))"

lemma load_hosts_saved:
  assumes "list_all (\<lambda>(k, v). host_pair_ok k v) m" and "wf_gomap m"
  shows "\<exists>h. loadHostsFile (Inr (marshalPairs m hosts_line, None)) [] = (h, None) \<and> map_of h = map_of m"
  using hosts_codec.load_marshal [OF assms, of None] by (auto simp: loadHostsFile_def)

lemma load_rules_saved:
  assumes "list_all (\<lambda>(k, v). rule_pair_ok k v) m" and "wf_gomap m"
  shows "\<exists>h. loadRulesFile (Inr (marshalPairs m rules_line, None)) [] = (h, None) \<and> map_of h = map_of m"
  using rules_codec.load_marshal [OF assms, of None] by (auto simp: loadRulesFile_def)

text \<open>
  A configuration that the two line based files and the defaults can represent: hosts and rules
  are lower-case ASCII tokens on lines the scanner accepts, each listen address is one value and
  the history bound is positive. \<open>LoadConfig\<close> yields such configurations from ASCII files; the web
  interface can store others (capitals in a posted rule, spaces in a posted host).
\<close>

definition saveable :: "config \<Rightarrow> bool" where
  "saveable c \<longleftrightarrow>
     list_all (\<lambda>(k, v). host_pair_ok k v) (cf_Hosts c) \<and> wf_gomap (cf_Hosts c) \<and>
     list_all (\<lambda>(k, v). rule_pair_ok k v) (cf_Rules c) \<and> wf_gomap (cf_Rules c) \<and>
     list_all single_value (listen_values (cf_Listen c)) \<and> 0 < ql_MaxHistory (cf_QueryLog c)"

lemma load_defaults_saved:
  assumes "saveable c" and "hasNestedKey raw [''query_log'', ''enabled'']"
  shows "load_defaults dir raw
     ((saved_config dir (c\<lparr>cf_ConfigDir := dir, cf_Listen := normalizeListenConfig (cf_Listen c)\<rparr>))
       \<lparr>cf_Hosts := [], cf_Rules := [], cf_ConfigDir := []\<rparr>)
   = (saved_config dir c)\<lparr>cf_Hosts := [], cf_Rules := [], cf_ConfigDir := dir,
       cf_Listen := normalizeListenConfig (cf_Listen c)\<rparr>"
  using assms by (simp add: load_defaults_def saved_config_def saveable_def normalizeListenConfig_idem)

lemma load_geodata_saved:
  assumes "list_all plain_comp ds" and "list_all plain_comp ps" and "list_all plain_comp ss"
    and "gd_GeoIPDat g = abs_path ps" and "gd_GeoSiteDat g = abs_path ss"
  shows "load_geodata (abs_path ds)
    (g\<lparr>gd_GeoIPDat := relPath (abs_path ds) (gd_GeoIPDat g), gd_GeoSiteDat := relPath (abs_path ds) (gd_GeoSiteDat g)\<rparr>) = g"
  using assms by (simp add: load_geodata_def resolve_rel_path)

section \<open>Case folding of the loaded maps\<close>












section \<open>Properties\<close>

text \<open>
  C8: Replacing a file is atomic: at every moment of the write, whichever of its system calls
  fails and whenever the process dies, the file holds either its old content and permissions or
  the new ones in full, never a truncated or partial file; success means the new content is in
  place, an error that the old one is, and no temporary file is left behind if it can be removed.
\<close>

theorem writeFileAtomic_crash_safe:
  assumes "wf_temp f = Inr tmp" and "tmp \<noteq> path" and "writeFileAtomic f path data perm fs = (states, err)"
  shows "(\<forall>fs' \<in> set states. fs' path = fs path \<or> fs' path = Some (data, perm))
    \<and> last states path = (if err = None then Some (data, perm) else fs path)
    \<and> (\<forall>fs' \<in> set states. \<forall>q. q \<noteq> path \<longrightarrow> q \<noteq> tmp \<longrightarrow> fs' q = fs q)
    \<and> (wf_remove f \<longrightarrow> last states tmp = None)"
proof -
  have w: "states = fst (writeFileAtomic f path data perm fs)" "err = snd (writeFileAtomic f path data perm fs)"
    using assms(3) by simp_all
  have t: "wf_temp f \<noteq> Inr path" using assms(1,2) by simp
  have o: "fs' q = fs q" if "fs' \<in> set states" "q \<noteq> path" "q \<noteq> tmp" for fs' q
    using that assms(1) unfolding w by (intro writeFileAtomic_others [of fs' f path data perm fs q]) auto
  show ?thesis
    using writeFileAtomic_states [OF t, of _ data perm fs] writeFileAtomic_result [OF t, of data perm fs]
      writeFileAtomic_clean [OF assms(1,2), of data perm fs] o
    unfolding w by blast
qed

text \<open>
  The files written for the hosts and the rules depend only on the map, not on the order in
  which the runtime iterates over it, so saving unchanged entries rewrites identical files.
\<close>

theorem marshalPairs_deterministic:
  assumes "wf_gomap m" and "wf_gomap m'" and "map_of m = map_of m'"
  shows "marshalPairs m line = marshalPairs m' line"
proof -
  have "fst ` set m = fst ` set m'" using assms(3) by (metis dom_map_of_conv_image_fst)
  then have "set (map fst m) = set (map fst m')" by simp
  then have "sort (map fst m) = sort (map fst m')"
    using assms(1,2) by (simp add: wf_gomap_def sorted_distinct_set_unique)
  with assms(3) show ?thesis by (simp add: marshalPairs_def)
qed

text \<open>
  C7: A representable configuration survives being saved and loaded again: if \<open>Save\<close> reports
  success, then \<open>LoadConfig\<close> on the files it left succeeds and yields the same hosts and rules,
  the same geodata paths (which are relative on disk) and the same settings in every other
  section, with the listen section in its normal form. The conditions: the configuration is
  \<open>saveable\<close>, that is, names, addresses and targets are lower-case ASCII tokens that do not start
  a comment and whose lines are below the scanner's limit, every listen address is a single
  value and the history bound is positive; the configuration path is absolute and clean and the
  file is not called hosts.txt or rule.txt; the geodata paths are absolute and clean; the names
  of the temporary files differ from the three targets; and the YAML library decodes what it
  encoded for this configuration. Without \<open>saveable\<close> the claim fails: a rule with a capital
  letter comes back folded.
\<close>

theorem Save_LoadConfig_roundtrip:
  assumes "Save Y cwd faults (abs_path (ds @ [f])) c fs = (c', states, None)"
    and "list_all plain_comp (ds @ [f])" and "f \<noteq> ''hosts.txt''" and "f \<noteq> ''rule.txt''"
    and "temps_avoid faults (abs_path ` (\<lambda>x. ds @ [x]) ` {f, ''hosts.txt'', ''rule.txt''})"
    and "saveable c" and "yaml_roundtrips Y (saved_config (abs_path ds) c')"
    and "gd_GeoIPDat (cf_GeoData c) = abs_path ps" and "list_all plain_comp ps"
    and "gd_GeoSiteDat (cf_GeoData c) = abs_path ss" and "list_all plain_comp ss"
  shows "\<exists>hosts rules. LoadConfig Y cwd (fs_open (last states)) (abs_path (ds @ [f]))
      = (Some (c\<lparr>cf_Hosts := hosts, cf_Rules := rules, cf_ConfigDir := abs_path ds,
                 cf_Listen := normalizeListenConfig (cf_Listen c)\<rparr>), None)
    \<and> map_of hosts = map_of (cf_Hosts c) \<and> map_of rules = map_of (cf_Rules c)"
proof -
  let ?path = "abs_path (ds @ [f])" and ?dir = "abs_path ds"
  let ?c1 = "c\<lparr>cf_ConfigDir := ?dir, cf_Listen := normalizeListenConfig (cf_Listen c)\<rparr>"
  have abs: "filepath_Abs cwd ?path = Inr ?path" by (simp add: filepath_Abs_def clean_abs_path [OF assms(2)])
  have dir: "filepath_Dir ?path = ?dir" by (rule filepath_Dir_abs_path [OF assms(2)])
  have pl: "list_all plain_comp ds" using assms(2) by simp
  have files: "list_all plain_comp (ds @ [''hosts.txt''])" "list_all plain_comp (ds @ [''rule.txt''])"
    using pl by (simp_all add: plain_comp_def)
  note join = filepath_Join_file [OF files(1)] filepath_Join_file [OF files(2)]
  have dist: "distinct [?path, abs_path (ds @ [''hosts.txt'']), abs_path (ds @ [''rule.txt''])]"
    using abs_path_inject [OF assms(2) files(1)] abs_path_inject [OF assms(2) files(2)]
      abs_path_inject [OF files] assms(3,4) by auto
  have c': "c' = ?c1" if "yaml_Marshal Y (saved_config ?dir ?c1) = Inr data" for data
    using assms(1) that unfolding Save_def abs by (auto simp: Let_def dir split: prod.splits option.splits)
  from Save_files [OF assms(1) abs join [folded dir] dist] assms(5) obtain data where
    d: "yaml_Marshal Y (saved_config ?dir ?c1) = Inr data" and
    disk: "last states ?path = Some (data, 384)"
      "last states (abs_path (ds @ [''hosts.txt''])) = Some (marshalPairs (cf_Hosts c) hosts_line, 420)"
      "last states (abs_path (ds @ [''rule.txt''])) = Some (marshalPairs (cf_Rules c) rules_line, 420)"
    by (auto simp: dir)
  from assms(7) d c' [OF d] obtain raw where
    y: "yaml_config Y data = Inr ((saved_config ?dir ?c1)\<lparr>cf_Hosts := [], cf_Rules := [], cf_ConfigDir := []\<rparr>)"
      "yaml_raw Y data = Inr raw" "hasNestedKey raw [''query_log'', ''enabled'']"
    by (auto simp: yaml_roundtrips_def split: sum.splits)
  from load_hosts_saved [of "cf_Hosts c"] load_rules_saved [of "cf_Rules c"] assms(6) obtain h r where
    h: "loadHostsFile (Inr (marshalPairs (cf_Hosts c) hosts_line, None)) [] = (h, None)" "map_of h = map_of (cf_Hosts c)"
    and r: "loadRulesFile (Inr (marshalPairs (cf_Rules c) rules_line, None)) [] = (r, None)" "map_of r = map_of (cf_Rules c)"
    unfolding saveable_def by blast
  have "LoadConfig Y cwd (fs_open (last states)) ?path
      = (Some ((load_defaults ?dir raw ((saved_config ?dir ?c1)\<lparr>cf_Hosts := [], cf_Rules := [], cf_ConfigDir := []\<rparr>))
          \<lparr>cf_Hosts := h, cf_Rules := r, cf_GeoData := cf_GeoData c\<rparr>), None)"
    using load_geodata_saved [OF pl assms(9,11,8,10)]
    unfolding LoadConfig_def abs
    by (simp add: Let_def dir os_ReadFile_def fs_open_def disk y join h r load_failure_def load_defaults_saved [OF assms(6) y(3)])
      (simp add: saved_config_def)
  then show ?thesis
    using h(2) r(2)
    by (intro exI [of _ h] exI [of _ r])
      (simp add: load_defaults_saved [OF assms(6) y(3)], simp add: saved_config_def)
qed




lemma not_abs_empty [simp]: "\<not> filepath_IsAbs []"
  by (simp add: filepath_IsAbs_def strings_HasPrefix_def slash_def)




section \<open>Witnesses\<close>

definition sample_config :: config where
  "sample_config =
     \<lparr>cf_Listen = sample_listen, cf_BootstrapDNS = [''223.5.5.5''],
      cf_Upstreams = \<lparr>uc_CN = [], uc_Overseas = []\<rparr>,
      cf_Hosts = [(''nas.lan'', ''192.168.1.2'')], cf_Rules = [(''example.com'', ''cn'')],
      cf_GeoData = \<lparr>gd_GeoIPDat = abs_path [''etc'', ''geoip.dat''], gd_GeoSiteDat = abs_path [''srv'', ''geosite.dat''],
                    gd_GeoIPDownloadURL = [], gd_GeoSiteDownloadURL = [], gd_AutoUpdate = []\<rparr>,
      cf_AutoCert = \<lparr>ac_Enabled = False, ac_Email = [], ac_Domains = [], ac_CertDir = []\<rparr>,
      cf_TLSCertificates = [],
      cf_WebUI = \<lparr>wu_Enabled = True, wu_Address = '':8080'', wu_Username = [], wu_Password = [],
                  wu_CertFile = [], wu_KeyFile = [], wu_GuestMode = False\<rparr>,
      cf_QueryLog = \<lparr>ql_Enabled = True, ql_MaxHistory = 5000, ql_File = [], ql_MaxSizeMB = 1, ql_SaveToFile = False\<rparr>,
      cf_ConfigDir = []\<rparr>"

definition sample_faults :: "string \<Rightarrow> write_faults" where
  "sample_faults tmp = \<lparr>wf_temp = Inr tmp, wf_write = None, wf_sync = None, wf_close = None,
     wf_chmod = None, wf_rename = None, wf_remove = True\<rparr>"

definition sample_yaml :: "config \<Rightarrow> yaml_lib" where
  "sample_yaml c = \<lparr>yaml_config = \<lambda>d. Inr c,
     yaml_raw = \<lambda>d. Inr [(''query_log'', YMap [(''enabled'', YOther ''true'')])],
     yaml_Marshal = \<lambda>c. Inr ''yaml''\<rparr>"

theorem writeFileAtomic_crash_safe_witness:
  "last (fst (writeFileAtomic ((sample_faults ''t'')\<lparr>wf_rename := Some ContextCanceled\<rparr>) ''p'' ''new'' 420
     (Map.empty(''p'' \<mapsto> (''old'', 420))))) ''p'' = Some (''old'', 420)"
  using writeFileAtomic_crash_safe [of "(sample_faults ''t'')\<lparr>wf_rename := Some ContextCanceled\<rparr>" "''t''" "''p''"
      "''new''" 420 "Map.empty(''p'' \<mapsto> (''old'', 420))"]
  by (simp add: sample_faults_def writeFileAtomic_def)

theorem marshalPairs_deterministic_witness:
  "marshalPairs [(''b'', ''2''), (''a'', ''1'')] hosts_line = marshalPairs [(''a'', ''1''), (''b'', ''2'')] hosts_line"
  by (rule marshalPairs_deterministic) (simp_all add: wf_gomap_def fun_eq_iff)




definition sample_save :: "config \<times> files list \<times> goerr option" where
  "sample_save = Save (sample_yaml ((saved_config (abs_path [''etc'']) (sample_config\<lparr>cf_ConfigDir := abs_path [''etc''],
         cf_Listen := normalizeListenConfig sample_listen\<rparr>))\<lparr>cf_Hosts := [], cf_Rules := [], cf_ConfigDir := []\<rparr>))
     (Inr ''/'') (sample_faults ''/t1'', sample_faults ''/t2'', sample_faults ''/t3'')
     (abs_path ([''etc''] @ [''config.yaml''])) sample_config Map.empty"

lemma sample_saveable: "saveable sample_config"
proof -
  have "list_all single_value (listen_values sample_listen)" by (rule sample_listen_single)
  moreover have "first_token ''192.168.1.2''" "token ''nas.lan''" "strings_ToLower ''nas.lan'' = ''nas.lan''"
    "first_token ''example.com''" "token ''cn''" "strings_ToLower ''example.com'' = ''example.com''"
    "strings_ToLower ''cn'' = ''cn''"
    "ascii ''192.168.1.2''" "ascii ''nas.lan''" "ascii ''example.com''" "ascii ''cn''"
    by code_simp+
  then have "host_pair_ok ''nas.lan'' ''192.168.1.2''" "rule_pair_ok ''example.com'' ''cn''"
    by (simp_all add: host_pair_ok_def rule_pair_ok_def MaxScanTokenSize_def)
  ultimately show ?thesis by (simp add: saveable_def sample_config_def wf_gomap_def)
qed

theorem Save_LoadConfig_roundtrip_witness:
  "\<exists>Y states hosts. snd sample_save = (states, None) \<and>
     (\<exists>c. LoadConfig Y (Inr ''/'') (fs_open (last states)) (abs_path ([''etc''] @ [''config.yaml''])) = (Some c, None)
        \<and> cf_Hosts c = hosts \<and> map_of hosts = map_of [(''nas.lan'', ''192.168.1.2'')])"
proof -
  let ?c1 = "sample_config\<lparr>cf_ConfigDir := abs_path [''etc''], cf_Listen := normalizeListenConfig sample_listen\<rparr>"
  let ?Y = "sample_yaml ((saved_config (abs_path [''etc'']) ?c1)\<lparr>cf_Hosts := [], cf_Rules := [], cf_ConfigDir := []\<rparr>)"
  have plain: "list_all plain_comp ([''etc''] @ [''config.yaml''])" "list_all plain_comp [''etc'', ''geoip.dat'']"
    "list_all plain_comp [''srv'', ''geosite.dat'']"
    by (simp_all add: plain_comp_def)
  have dir: "filepath_Dir (abs_path ([''etc''] @ [''config.yaml''])) = abs_path [''etc'']"
    by (rule filepath_Dir_abs_path [OF plain(1)])
  have abs: "filepath_Abs (Inr ''/'') (abs_path ([''etc''] @ [''config.yaml''])) = Inr (abs_path ([''etc''] @ [''config.yaml'']))"
    using clean_abs_path [OF plain(1)] by (simp add: filepath_Abs_def)
  have ok: "snd (writeFileAtomic (sample_faults t) q data perm fs) = None" for t q data perm fs
    by (simp add: writeFileAtomic_def sample_faults_def Let_def)
  obtain states where s: "sample_save = (?c1, states, None)"
  proof -
    have m: "yaml_Marshal ?Y x = Inr ''yaml''" for x by (simp add: sample_yaml_def)
    have l: "cf_Listen sample_config = sample_listen" by (simp add: sample_config_def)
    have "fst sample_save = ?c1 \<and> snd (snd sample_save) = None"
      unfolding sample_save_def Save_def abs sum.case Let_def m dir saveHostsFile_def saveRulesFile_def
      using ok by (auto simp: l split: prod.splits option.splits) (metis option.distinct(1) snd_conv)+
    then show ?thesis using that by (metis prod.collapse)
  qed
  have "yaml_roundtrips ?Y (saved_config (abs_path [''etc'']) ?c1)"
    by (simp add: yaml_roundtrips_def) (simp add: sample_yaml_def)
  moreover have "temps_avoid (sample_faults ''/t1'', sample_faults ''/t2'', sample_faults ''/t3'')
      (abs_path ` (\<lambda>x. [''etc''] @ [x]) ` {''config.yaml'', ''hosts.txt'', ''rule.txt''})"
    by (simp add: temps_avoid_def sample_faults_def abs_path_def slash_def)
  ultimately have "\<exists>hosts rules. LoadConfig ?Y (Inr ''/'') (fs_open (last states)) (abs_path ([''etc''] @ [''config.yaml'']))
      = (Some (sample_config\<lparr>cf_Hosts := hosts, cf_Rules := rules, cf_ConfigDir := abs_path [''etc''],
                 cf_Listen := normalizeListenConfig (cf_Listen sample_config)\<rparr>), None)
    \<and> map_of hosts = map_of (cf_Hosts sample_config) \<and> map_of rules = map_of (cf_Rules sample_config)"
    by (intro Save_LoadConfig_roundtrip [OF s [unfolded sample_save_def] plain(1) _ _ _ sample_saveable _ _ plain(2) _ plain(3)])
      (simp_all add: sample_config_def)
  then obtain hosts rules where l: "LoadConfig ?Y (Inr ''/'') (fs_open (last states)) (abs_path ([''etc''] @ [''config.yaml'']))
      = (Some (sample_config\<lparr>cf_Hosts := hosts, cf_Rules := rules, cf_ConfigDir := abs_path [''etc''],
                 cf_Listen := normalizeListenConfig (cf_Listen sample_config)\<rparr>), None)"
    and h: "map_of hosts = map_of (cf_Hosts sample_config)" by blast
  have "map_of hosts = map_of [(''nas.lan'', ''192.168.1.2'')]" using h by (simp add: sample_config_def)
  moreover have "snd sample_save = (states, None)" unfolding s by simp
  ultimately show ?thesis using l by (intro exI [of _ ?Y] exI [of _ states] exI [of _ hosts]) simp
qed

section \<open>Observations\<close>

text \<open>
  The rule file is folded to lower case as a whole, the patterns of \<open>regexp:\<close> rules included,
  which turns a class such as \<open>\D\<close> (no digit) into its opposite \<open>\d\<close>.
\<close>

lemma regexp_rule_folded:
  "load_rule_line (''regexp:^'' @ [CHR 0x5C] @ ''D+$ cn'') [] = [(''regexp:^'' @ [CHR 0x5C] @ ''d+$'', ''cn'')]"
  by code_simp

end
