(* ===== verification/Bootstrap.thy ===== *)
theory Bootstrap
  imports Go_Net
begin

text \<open>
  \<open>internal/resolver/bootstrap.go\<close>: resolving the host names of the upstreams themselves. First
  the parsing of the server list and the rotation over the servers, then the cache and the
  merging of concurrent lookups as a step relation, in which a step is one atomic operation on
  the shared maps or one moment in which a channel is observed. Times are nanoseconds.
\<close>

section \<open>Servers\<close>

record bootstrap_server =
  bs_network :: string
  bs_address :: string

definition no_server :: bootstrap_server where
  "no_server = \<lparr>bs_network = [], bs_address = []\<rparr>"

definition bootstrap_server_String :: "bootstrap_server \<Rightarrow> string" where
  "bootstrap_server_String s =
     (if bs_network s = [] \<or> bs_network s = ''udp'' then bs_address s
      else bs_network s @ ''://'' @ bs_address s)"

definition parseBootstrapServer :: "string \<Rightarrow> bootstrap_server" where
  "parseBootstrapServer server =
     (let raw0 = strings_TrimSpace server in
      if raw0 = [] then no_server
      else
        (let (network, raw) =
           (case strings_Index raw0 ''://'' of
              None \<Rightarrow> (''udp'', raw0)
            | Some idx \<Rightarrow>
                (if strings_ToLower (take idx raw0) = ''tcp'' then ''tcp'' else ''udp'',
                 strings_TrimSpace (drop (idx + 3) raw0)))
         in if raw = [] then no_server
            else
              \<lparr>bs_network = network,
               bs_address = (case net_SplitHostPort raw of
                  None \<Rightarrow> net_JoinHostPort raw ''53''
                | Some _ \<Rightarrow> raw)\<rparr>))"

definition NewBootstrapper_servers :: "string list \<Rightarrow> bootstrap_server list" where
  "NewBootstrapper_servers servers = filter (\<lambda>s. bs_address s \<noteq> []) (map parseBootstrapServer servers)"

definition cacheTTL :: int where "cacheTTL = 5 * 60 * 1000000000"
definition staleTTL :: int where "staleTTL = 60 * 60 * 1000000000"

section \<open>Rotation over the servers\<close>

text \<open>
  \<open>lookupWithRetry\<close>. The resolvers are parameters: \<open>system\<close> is the default resolver, \<open>query srv\<close>
  a lookup of the host through that server; each yields addresses or an error.
\<close>

fun retry_loop ::
  "bootstrap_server list \<Rightarrow> (bootstrap_server \<Rightarrow> goerr + ip list) \<Rightarrow> string \<Rightarrow> 64 word \<Rightarrow> nat \<Rightarrow> nat
     \<Rightarrow> goerr option \<Rightarrow> goerr + string" where
  "retry_loop servers query host startIdx i 0 lastErr =
     Inl (case lastErr of
            None \<Rightarrow> Errorf (''all bootstrap servers failed for '' @ host) []
          | Some e \<Rightarrow> Wrapf (''all bootstrap servers failed for '' @ host) e)"
| "retry_loop servers query host startIdx i (Suc k) lastErr =
     (let server = servers ! unat ((startIdx + of_nat i) mod of_nat (length servers)) in
      case query server of
        Inl err \<Rightarrow>
          retry_loop servers query host startIdx (i + 1) k
            (Some (Wrapf (''bootstrap '' @ bootstrap_server_String server @ '' failed'') err))
      | Inr [] \<Rightarrow>
          retry_loop servers query host startIdx (i + 1) k
            (Some (Errorf (''no IP found for '' @ host @ '' via bootstrap '' @ bootstrap_server_String server) []))
      | Inr (a # _) \<Rightarrow> Inr (ip_String a))"

definition lookupWithRetry ::
  "bootstrap_server list \<Rightarrow> (string \<Rightarrow> goerr + ip list) \<Rightarrow> (bootstrap_server \<Rightarrow> goerr + ip list)
     \<Rightarrow> string \<Rightarrow> 64 word \<Rightarrow> 64 word \<times> (goerr + string)" where
  "lookupWithRetry servers system query host counter =
     (if length servers = 0 then
        (counter,
         (case system host of
            Inl err \<Rightarrow> Inl err
          | Inr [] \<Rightarrow> Inl (Errorf (''no IP found for '' @ host) [])
          | Inr (a # _) \<Rightarrow> Inr (ip_String a)))
      else
        (let counter' = counter + 1 in
         (counter', retry_loop servers query host counter' 0 (length servers) None)))"

definition rotation :: "64 word \<Rightarrow> nat \<Rightarrow> nat list" where
  "rotation startIdx n = map (\<lambda>i. unat ((startIdx + of_nat i) mod of_nat n)) [0..<n]"

definition answers :: "(goerr + ip list) \<Rightarrow> bool" where
  "answers r \<longleftrightarrow> (case r of Inr (_ # _) \<Rightarrow> True | _ \<Rightarrow> False)"

lemma unat_rotation:
  assumes "0 < n" and "n < 2 ^ 63" and "unat s + i < 2 ^ 64"
  shows "unat ((s + of_nat i) mod of_nat n :: 64 word) = (unat s + i) mod n"
proof -
  have i: "unat (of_nat i :: 64 word) = i" using assms(3) by (simp add: unat_of_nat)
  have n: "unat (of_nat n :: 64 word) = n" using assms(2) by (simp add: unat_of_nat)
  have "unat (s + of_nat i) = unat s + i"
    using assms(3) i by (subst unat_add_lem [THEN iffD1]) simp_all
  then show ?thesis by (simp add: unat_mod n)
qed

lemma rotation_mod:
  assumes "0 < n" and "n < 2 ^ 63" and "unat s + n \<le> 2 ^ 64"
  shows "rotation s n = map (\<lambda>i. (unat s + i) mod n) [0..<n]"
  unfolding rotation_def using assms by (intro map_cong refl unat_rotation) auto

lemma set_rotation:
  assumes "0 < n" and "n < 2 ^ 63" and "unat s + n \<le> 2 ^ 64"
  shows "set (rotation s n) = {..<n}" and "distinct (rotation s n)"
proof -
  have inj: "inj_on (\<lambda>i. (unat s + i) mod n) {..<n}"
  proof (rule linorder_inj_onI)
    fix x y :: nat
    assume "x < y" "x \<in> {..<n}" "y \<in> {..<n}"
    then have "0 < y - x" "y - x < n" by auto
    then have "\<not> n dvd y - x" by (auto dest: dvd_imp_le)
    moreover have "(unat s + y) - (unat s + x) = y - x" by simp
    ultimately show "(unat s + x) mod n \<noteq> (unat s + y) mod n"
      using \<open>x < y\<close> mod_eq_dvd_iff_nat [of "unat s + x" "unat s + y" n] by auto
  qed auto
  have img: "(\<lambda>i. (unat s + i) mod n) ` {..<n} = {..<n}"
    using inj assms(1) by (intro endo_inj_surj) auto
  show "set (rotation s n) = {..<n}"
    unfolding rotation_mod [OF assms] using img by (simp add: atLeast0LessThan)
  show "distinct (rotation s n)"
    unfolding rotation_mod [OF assms] using inj by (simp add: distinct_map atLeast0LessThan)
qed

lemma retry_loop_find:
  assumes "i + k = length servers"
  shows "case find (\<lambda>j. answers (query (servers ! j))) (drop i (rotation startIdx (length servers))) of
      Some j \<Rightarrow> (\<exists>a as. query (servers ! j) = Inr (a # as) \<and>
        retry_loop servers query host startIdx i k lastErr = Inr (ip_String a))
    | None \<Rightarrow> (\<exists>e. retry_loop servers query host startIdx i k lastErr = Inl e)"
  using assms
proof (induction k arbitrary: i lastErr)
  case 0
  then show ?case by (simp add: rotation_def)
next
  case (Suc k)
  let ?j = "unat ((startIdx + of_nat i) mod of_nat (length servers) :: 64 word)"
  have d: "drop i (rotation startIdx (length servers)) = ?j # drop (Suc i) (rotation startIdx (length servers))"
    using Suc.prems by (simp add: rotation_def drop_map drop_upt upt_conv_Cons)
  have IH: "case find (\<lambda>j. answers (query (servers ! j))) (drop (Suc i) (rotation startIdx (length servers))) of
      Some j \<Rightarrow> (\<exists>a as. query (servers ! j) = Inr (a # as) \<and>
        retry_loop servers query host startIdx (Suc i) k e = Inr (ip_String a))
    | None \<Rightarrow> (\<exists>err. retry_loop servers query host startIdx (Suc i) k e = Inl err)" for e
    using Suc.prems by (intro Suc.IH) simp
  show ?case
  proof (cases "answers (query (servers ! ?j))")
    case True
    then show ?thesis by (auto simp: d answers_def split: sum.splits list.splits)
  next
    case False
    then obtain e where "retry_loop servers query host startIdx i (Suc k) lastErr
        = retry_loop servers query host startIdx (Suc i) k e"
      by (auto simp: answers_def Let_def split: sum.splits list.splits)
    with False d IH [of e] show ?thesis by (simp only: find.simps if_False)
  qed
qed


section \<open>Cache and merged lookups\<close>

text \<open>
  A cached address with its expiry. A flight is one merged resolution of a host: its result with
  the moment it was stored, whether its channel is closed and whether it has left \<open>pending\<close>.
\<close>

type_synonym cache_entry = "string \<times> int"

record flight =
  fl_host :: string
  fl_done :: "((goerr + string) \<times> int) option"
  fl_closed :: bool
  fl_removed :: bool

text \<open>
  Where a caller of \<open>LookupIP\<close> is: before its call, past the cache with the expired entry it
  saw, in the select of \<open>lookupOnce\<close>, past it with an error, or done. A done caller keeps the
  moment it returned and, for the record, where its answer came from.
\<close>

datatype origin = Literal | Cached int | Flew nat | NoAnswer

datatype caller =
    Idle
  | Missed string "cache_entry option"
  | Waiting string "cache_entry option" nat
  | Failed string "cache_entry option" goerr
  | Returned string "goerr + string" int origin

record bstate =
  bt_cache :: "string \<Rightarrow> cache_entry option"
  bt_pending :: "string \<Rightarrow> nat option"
  bt_flights :: "flight list"
  bt_callers :: "nat \<Rightarrow> caller"
  bt_clock :: int

definition LookupIP_enter :: "int \<Rightarrow> string \<Rightarrow> cache_entry option \<Rightarrow> caller" where
  "LookupIP_enter now host entry =
     (if net_ParseIP host \<noteq> None then Returned host (Inr host) now Literal
      else
        (case entry of
           Some (ip, expiry) \<Rightarrow>
             if now < expiry then Returned host (Inr ip) now (Cached expiry) else Missed host (Some (ip, expiry))
         | None \<Rightarrow> Missed host None))"

text \<open>\<open>LoadOrStore\<close>: join the flight of the host, or start one.\<close>

definition lookupOnce_enter :: "nat \<Rightarrow> string \<Rightarrow> cache_entry option \<Rightarrow> bstate \<Rightarrow> bstate" where
  "lookupOnce_enter c host stale s =
     (case bt_pending s host of
        Some f \<Rightarrow> s\<lparr>bt_callers := (bt_callers s)(c := Waiting host stale f)\<rparr>
      | None \<Rightarrow>
          s\<lparr>bt_callers := (bt_callers s)(c := Waiting host stale (length (bt_flights s))),
            bt_pending := (bt_pending s)(host \<mapsto> length (bt_flights s)),
            bt_flights := bt_flights s @ [\<lparr>fl_host = host, fl_done = None, fl_closed = False, fl_removed = False\<rparr>]\<rparr>)"

text \<open>The goroutine of a flight: store the result, close the channel, leave \<open>pending\<close>.\<close>

definition flight_resolved :: "nat \<Rightarrow> goerr + string \<Rightarrow> bstate \<Rightarrow> bstate" where
  "flight_resolved f r s =
     (let fl = bt_flights s ! f;
          s' = s\<lparr>bt_flights := (bt_flights s)[f := fl\<lparr>fl_done := Some (r, bt_clock s)\<rparr>]\<rparr>
      in case r of
           Inl _ \<Rightarrow> s'
         | Inr ip \<Rightarrow> s'\<lparr>bt_cache := (bt_cache s)(fl_host fl \<mapsto> (ip, bt_clock s + cacheTTL))\<rparr>)"

definition flight_close :: "nat \<Rightarrow> bstate \<Rightarrow> bstate" where
  "flight_close f s = s\<lparr>bt_flights := (bt_flights s)[f := (bt_flights s ! f)\<lparr>fl_closed := True\<rparr>]\<rparr>"

definition flight_remove :: "nat \<Rightarrow> bstate \<Rightarrow> bstate" where
  "flight_remove f s =
     s\<lparr>bt_flights := (bt_flights s)[f := (bt_flights s ! f)\<lparr>fl_removed := True\<rparr>],
       bt_pending := (bt_pending s)(fl_host (bt_flights s ! f) := None)\<rparr>"

text \<open>The select of \<open>lookupOnce\<close>, on a closed channel.\<close>

definition lookupOnce_receive :: "int \<Rightarrow> string \<Rightarrow> cache_entry option \<Rightarrow> nat \<Rightarrow> goerr + string \<Rightarrow> caller" where
  "lookupOnce_receive now host stale f r =
     (case r of Inr ip \<Rightarrow> Returned host (Inr ip) now (Flew f) | Inl e \<Rightarrow> Failed host stale e)"

text \<open>The error branch of \<open>LookupIP\<close>: within the grace period the expired entry, else the error.\<close>

definition LookupIP_failed :: "nat \<Rightarrow> string \<Rightarrow> cache_entry option \<Rightarrow> goerr \<Rightarrow> bstate \<Rightarrow> bstate" where
  "LookupIP_failed c host stale e s =
     (case stale of
        Some (ip, expiry) \<Rightarrow>
          if bt_clock s < expiry + staleTTL
          then s\<lparr>bt_callers := (bt_callers s)(c := Returned host (Inr ip) (bt_clock s) (Cached expiry))\<rparr>
          else s\<lparr>bt_callers := (bt_callers s)(c := Returned host (Inl e) (bt_clock s) NoAnswer),
                 bt_cache := (bt_cache s)(host := None)\<rparr>
      | None \<Rightarrow>
          s\<lparr>bt_callers := (bt_callers s)(c := Returned host (Inl e) (bt_clock s) NoAnswer),
            bt_cache := (bt_cache s)(host := None)\<rparr>)"

inductive bstep :: "bstate \<Rightarrow> bstate \<Rightarrow> bool" where
  tick: "0 \<le> d \<Longrightarrow> bstep s (s\<lparr>bt_clock := bt_clock s + d\<rparr>)"
| call: "bt_callers s c = Idle \<Longrightarrow>
    bstep s (s\<lparr>bt_callers := (bt_callers s)(c := LookupIP_enter (bt_clock s) host (bt_cache s host))\<rparr>)"
| join: "bt_callers s c = Missed host stale \<Longrightarrow> bstep s (lookupOnce_enter c host stale s)"
| resolved: "f < length (bt_flights s) \<Longrightarrow> fl_done (bt_flights s ! f) = None \<Longrightarrow> bstep s (flight_resolved f r s)"
| closed: "f < length (bt_flights s) \<Longrightarrow> fl_done (bt_flights s ! f) \<noteq> None \<Longrightarrow>
    \<not> fl_closed (bt_flights s ! f) \<Longrightarrow> bstep s (flight_close f s)"
| removed: "f < length (bt_flights s) \<Longrightarrow> fl_closed (bt_flights s ! f) \<Longrightarrow>
    \<not> fl_removed (bt_flights s ! f) \<Longrightarrow> bstep s (flight_remove f s)"
| receive: "bt_callers s c = Waiting host stale f \<Longrightarrow> fl_closed (bt_flights s ! f) \<Longrightarrow>
    fl_done (bt_flights s ! f) = Some (r, t) \<Longrightarrow>
    bstep s (s\<lparr>bt_callers := (bt_callers s)(c := lookupOnce_receive (bt_clock s) host stale f r)\<rparr>)"
| cancelled: "bt_callers s c = Waiting host stale f \<Longrightarrow> e = ContextCanceled \<or> e = ContextDeadlineExceeded \<Longrightarrow>
    bstep s (s\<lparr>bt_callers := (bt_callers s)(c := Failed host stale e)\<rparr>)"
| failed: "bt_callers s c = Failed host stale e \<Longrightarrow> bstep s (LookupIP_failed c host stale e s)"

definition binit :: "int \<Rightarrow> bstate" where
  "binit t = \<lparr>bt_cache = \<lambda>_. None, bt_pending = \<lambda>_. None, bt_flights = [], bt_callers = \<lambda>_. Idle, bt_clock = t\<rparr>"

section \<open>Reachability\<close>

subsection \<open>Merging: one flight per host\<close>

definition merge_inv :: "bstate \<Rightarrow> bool" where
  "merge_inv s \<longleftrightarrow>
     (\<forall>h f. bt_pending s h = Some f \<longleftrightarrow>
        f < length (bt_flights s) \<and> fl_host (bt_flights s ! f) = h \<and> \<not> fl_removed (bt_flights s ! f)) \<and>
     (\<forall>fl \<in> set (bt_flights s). (fl_closed fl \<longrightarrow> fl_done fl \<noteq> None) \<and> (fl_removed fl \<longrightarrow> fl_closed fl)) \<and>
     (\<forall>c h st f. bt_callers s c = Waiting h st f \<longrightarrow> f < length (bt_flights s) \<and> fl_host (bt_flights s ! f) = h)"

lemma merge_invI:
  assumes "\<And>h f. bt_pending s h = Some f \<longleftrightarrow>
        f < length (bt_flights s) \<and> fl_host (bt_flights s ! f) = h \<and> \<not> fl_removed (bt_flights s ! f)"
    and "\<And>f. f < length (bt_flights s) \<Longrightarrow> (fl_closed (bt_flights s ! f) \<longrightarrow> fl_done (bt_flights s ! f) \<noteq> None)
        \<and> (fl_removed (bt_flights s ! f) \<longrightarrow> fl_closed (bt_flights s ! f))"
    and "\<And>c h st f. bt_callers s c = Waiting h st f \<Longrightarrow> f < length (bt_flights s) \<and> fl_host (bt_flights s ! f) = h"
  shows "merge_inv s"
  using assms unfolding merge_inv_def by (auto simp: in_set_conv_nth)

lemma merge_invD:
  assumes "merge_inv s"
  shows "bt_pending s h = Some f \<longleftrightarrow>
        f < length (bt_flights s) \<and> fl_host (bt_flights s ! f) = h \<and> \<not> fl_removed (bt_flights s ! f)"
    and "f < length (bt_flights s) \<Longrightarrow> (fl_closed (bt_flights s ! f) \<longrightarrow> fl_done (bt_flights s ! f) \<noteq> None)
        \<and> (fl_removed (bt_flights s ! f) \<longrightarrow> fl_closed (bt_flights s ! f))"
    and "bt_callers s c = Waiting h st f \<Longrightarrow> f < length (bt_flights s) \<and> fl_host (bt_flights s ! f) = h"
  using assms unfolding merge_inv_def by auto

lemma merge_inv_callers:
  assumes "merge_inv s" and "\<And>h st f. k \<noteq> Waiting h st f"
  shows "merge_inv (s\<lparr>bt_callers := (bt_callers s)(c := k)\<rparr>)"
  using assms unfolding merge_inv_def by simp

lemma merge_inv_cache [simp]: "merge_inv (s\<lparr>bt_cache := m\<rparr>) = merge_inv s"
  "merge_inv (s\<lparr>bt_clock := t\<rparr>) = merge_inv s"
  by (simp_all add: merge_inv_def)

lemma merge_inv_join:
  assumes "merge_inv s"
  shows "merge_inv (lookupOnce_enter c h st s)"
proof (cases "bt_pending s h")
  case None
  note inv = merge_invD [OF assms]
  have "\<not> (f < length (bt_flights s) \<and> fl_host (bt_flights s ! f) = h \<and> \<not> fl_removed (bt_flights s ! f))" for f
    using inv(1) [of h f] None by simp
  then show ?thesis
    unfolding lookupOnce_enter_def None option.case
    by (intro merge_invI) (use inv in \<open>auto simp: nth_append less_Suc_eq split: if_splits\<close>)
next
  case (Some f)
  then have "lookupOnce_enter c h st s = s\<lparr>bt_callers := (bt_callers s)(c := Waiting h st f)\<rparr>"
    by (simp add: lookupOnce_enter_def)
  moreover have "f < length (bt_flights s) \<and> fl_host (bt_flights s ! f) = h"
    using Some merge_invD(1) [OF assms, of h f] by simp
  ultimately show ?thesis using assms by (auto simp: merge_inv_def)
qed

lemma merge_inv_update:
  assumes "merge_inv s" and "f < length (bt_flights s)" and "fl_host fl = fl_host (bt_flights s ! f)"
    and "fl_removed fl = fl_removed (bt_flights s ! f)"
    and "(fl_closed fl \<longrightarrow> fl_done fl \<noteq> None) \<and> (fl_removed fl \<longrightarrow> fl_closed fl)"
  shows "merge_inv (s\<lparr>bt_flights := (bt_flights s)[f := fl]\<rparr>)"
  by (intro merge_invI)
    (use assms merge_invD [OF assms(1)] in \<open>auto simp: nth_list_update split: if_splits\<close>)

lemma merge_inv_remove:
  assumes "merge_inv s" and "f < length (bt_flights s)" and "fl_closed (bt_flights s ! f)"
    and "\<not> fl_removed (bt_flights s ! f)"
  shows "merge_inv (flight_remove f s)"
proof -
  have pend: "bt_pending s (fl_host (bt_flights s ! f)) = Some f" using merge_invD(1) [OF assms(1)] assms by simp
  have uniq: "fa = f" if "fa < length (bt_flights s)" "fl_host (bt_flights s ! fa) = fl_host (bt_flights s ! f)"
      "\<not> fl_removed (bt_flights s ! fa)" for fa
  proof -
    have "bt_pending s (fl_host (bt_flights s ! f)) = Some fa"
      using that merge_invD(1) [OF assms(1), of "fl_host (bt_flights s ! f)" fa] by blast
    with pend show ?thesis by (metis option.inject)
  qed
  let ?s = "flight_remove f s"
  note inv = merge_invD [OF assms(1)]
  have fl: "bt_flights ?s ! g = (if g = f then (bt_flights s ! f)\<lparr>fl_removed := True\<rparr> else bt_flights s ! g)"
    "length (bt_flights ?s) = length (bt_flights s)" for g
    using assms(2) by (simp_all add: flight_remove_def nth_list_update)
  show ?thesis
  proof (rule merge_invI)
    fix h g
    have "bt_pending ?s h = (if h = fl_host (bt_flights s ! f) then None else bt_pending s h)"
      by (simp add: flight_remove_def)
    then show "bt_pending ?s h = Some g \<longleftrightarrow>
        g < length (bt_flights ?s) \<and> fl_host (bt_flights ?s ! g) = h \<and> \<not> fl_removed (bt_flights ?s ! g)"
      using inv(1) [of h g] uniq [of g] unfolding fl by (cases "g = f") auto
  next
    fix g assume "g < length (bt_flights ?s)"
    then show "(fl_closed (bt_flights ?s ! g) \<longrightarrow> fl_done (bt_flights ?s ! g) \<noteq> None)
        \<and> (fl_removed (bt_flights ?s ! g) \<longrightarrow> fl_closed (bt_flights ?s ! g))"
      using inv(2) [of g] assms(3) unfolding fl by (cases "g = f") auto
  next
    fix d h st g assume "bt_callers ?s d = Waiting h st g"
    then have "bt_callers s d = Waiting h st g" by (simp add: flight_remove_def)
    from inv(3) [OF this] show "g < length (bt_flights ?s) \<and> fl_host (bt_flights ?s ! g) = h"
      unfolding fl by auto
  qed
qed

lemma merge_inv_step:
  assumes "merge_inv s" and "bstep s s'"
  shows "merge_inv s'"
  using assms(2,1)
proof cases
  case (resolved f r)
  then have "merge_inv (s\<lparr>bt_flights := (bt_flights s)[f := (bt_flights s ! f)\<lparr>fl_done := Some (r, bt_clock s)\<rparr>]\<rparr>)"
    using assms(1) merge_invD(2) [OF assms(1), of f] by (intro merge_inv_update) auto
  then show ?thesis unfolding resolved flight_resolved_def Let_def by (cases r) simp_all
next
  case (closed f)
  then show ?thesis
    using assms(1) merge_invD(2) [OF assms(1), of f] unfolding closed flight_close_def
    by (intro merge_inv_update) auto
next
  case (failed c h st e)
  then show ?thesis
    unfolding failed LookupIP_failed_def
    by (auto simp: merge_inv_callers [OF assms(1)] split: option.splits
        intro!: merge_inv_callers [where s = "s\<lparr>bt_cache := m\<rparr>" for m, simplified] assms(1))
qed (auto simp: LookupIP_enter_def lookupOnce_receive_def intro: merge_inv_callers merge_inv_join merge_inv_remove
    split: option.splits sum.splits if_splits)


subsection \<open>Provenance of the answers\<close>

text \<open>The entry was stored by a flight of the host, \<open>cacheTTL\<close> before it expires.\<close>

definition entry_ok :: "flight list \<Rightarrow> string \<Rightarrow> cache_entry option \<Rightarrow> bool" where
  "entry_ok fls h entry \<longleftrightarrow>
     (\<forall>ip e. entry = Some (ip, e) \<longrightarrow>
        (\<exists>fl \<in> set fls. fl_host fl = h \<and> fl_done fl = Some (Inr ip, e - cacheTTL)))"

fun caller_ok :: "flight list \<Rightarrow> caller \<Rightarrow> bool" where
  "caller_ok fls Idle = True"
| "caller_ok fls (Missed h st) = entry_ok fls h st"
| "caller_ok fls (Waiting h st f) = (entry_ok fls h st \<and> f < length fls \<and> fl_host (fls ! f) = h)"
| "caller_ok fls (Failed h st e) = entry_ok fls h st"
| "caller_ok fls (Returned h (Inl e) t og) = True"
| "caller_ok fls (Returned h (Inr ip) t Literal) = (ip = h \<and> net_ParseIP h \<noteq> None)"
| "caller_ok fls (Returned h (Inr ip) t (Cached e)) = (entry_ok fls h (Some (ip, e)) \<and> t < e + staleTTL)"
| "caller_ok fls (Returned h (Inr ip) t (Flew f)) =
     (f < length fls \<and> fl_host (fls ! f) = h \<and> (\<exists>t0. fl_done (fls ! f) = Some (Inr ip, t0)))"
| "caller_ok fls (Returned h (Inr ip) t NoAnswer) = False"

definition prov_inv :: "bstate \<Rightarrow> bool" where
  "prov_inv s \<longleftrightarrow> (\<forall>h. entry_ok (bt_flights s) h (bt_cache s h)) \<and> (\<forall>c. caller_ok (bt_flights s) (bt_callers s c))"

text \<open>Flights are never forgotten and keep their results.\<close>

definition extends :: "flight list \<Rightarrow> flight list \<Rightarrow> bool" where
  "extends fls fls' \<longleftrightarrow> length fls \<le> length fls' \<and>
     (\<forall>f < length fls. fl_host (fls' ! f) = fl_host (fls ! f) \<and>
        (fl_done (fls ! f) \<noteq> None \<longrightarrow> fl_done (fls' ! f) = fl_done (fls ! f)))"

lemma extends_refl [simp]: "extends fls fls"
  by (simp add: extends_def)

lemma extends_append [simp]: "extends fls (fls @ xs)"
  by (simp add: extends_def nth_append)

lemma extends_update:
  "f < length fls \<Longrightarrow> fl_host fl = fl_host (fls ! f) \<Longrightarrow>
     fl_done (fls ! f) = None \<or> fl_done fl = fl_done (fls ! f) \<Longrightarrow> extends fls (fls[f := fl])"
  by (auto simp: extends_def nth_list_update)

lemma entry_ok_extends:
  assumes "extends fls fls'" and "entry_ok fls h st"
  shows "entry_ok fls' h st"
  unfolding entry_ok_def
proof (intro allI impI)
  fix ip e assume "st = Some (ip, e)"
  with assms(2) obtain f where "f < length fls" "fl_host (fls ! f) = h" "fl_done (fls ! f) = Some (Inr ip, e - cacheTTL)"
    by (auto simp: entry_ok_def in_set_conv_nth)
  with assms(1) have "f < length fls'" "fl_host (fls' ! f) = h" "fl_done (fls' ! f) = Some (Inr ip, e - cacheTTL)"
    by (auto simp: extends_def)
  then show "\<exists>fl \<in> set fls'. fl_host fl = h \<and> fl_done fl = Some (Inr ip, e - cacheTTL)"
    by (intro bexI [of _ "fls' ! f"]) simp_all
qed

lemma caller_ok_extends:
  assumes "extends fls fls'" and "caller_ok fls k"
  shows "caller_ok fls' k"
  using assms entry_ok_extends [OF assms(1)]
  by (cases "(fls, k)" rule: caller_ok.cases) (auto simp: extends_def)

lemma entry_ok_None [simp]: "entry_ok fls h None"
  by (simp add: entry_ok_def)

lemma prov_inv_caller:
  assumes "prov_inv s" and "caller_ok (bt_flights s) k"
  shows "prov_inv (s\<lparr>bt_callers := (bt_callers s)(c := k)\<rparr>)"
  using assms by (simp add: prov_inv_def)

lemma prov_inv_uncache:
  "prov_inv s \<Longrightarrow> prov_inv (s\<lparr>bt_cache := (bt_cache s)(h := None)\<rparr>)"
  by (simp add: prov_inv_def)

lemma prov_inv_extends:
  assumes "prov_inv s" and "extends (bt_flights s) fls"
  shows "prov_inv (s\<lparr>bt_flights := fls\<rparr>)" and "prov_inv (s\<lparr>bt_flights := fls, bt_pending := p\<rparr>)"
  using assms caller_ok_extends entry_ok_extends by (auto simp: prov_inv_def)

lemma prov_inv_resolved:
  assumes "prov_inv s" and "f < length (bt_flights s)" and "fl_done (bt_flights s ! f) = None"
  shows "prov_inv (flight_resolved f r s)"
proof -
  let ?fl = "(bt_flights s ! f)\<lparr>fl_done := Some (r, bt_clock s)\<rparr>"
  let ?s = "s\<lparr>bt_flights := (bt_flights s)[f := ?fl]\<rparr>"
  have inv: "prov_inv ?s" using assms by (intro prov_inv_extends(1) extends_update) simp_all
  have "entry_ok (bt_flights ?s) (fl_host (bt_flights s ! f)) (Some (ip, bt_clock s + cacheTTL))" if "r = Inr ip" for ip
    using that assms(2) by (auto simp: entry_ok_def intro!: bexI [of _ ?fl] set_update_memI)
  with inv show ?thesis
    by (cases r) (simp_all add: flight_resolved_def Let_def prov_inv_def)
qed

lemma prov_inv_step:
  assumes "prov_inv s" and m: "merge_inv s" and "bstep s s'"
  shows "prov_inv s'"
  using assms(3)
proof cases
  case (tick d)
  with assms(1) show ?thesis by (simp add: prov_inv_def)
next
  case (call c h)
  have "entry_ok (bt_flights s) h (bt_cache s h)" using assms(1) by (simp add: prov_inv_def)
  then have "caller_ok (bt_flights s) (LookupIP_enter (bt_clock s) h (bt_cache s h))"
    by (auto simp: LookupIP_enter_def staleTTL_def split: option.splits)
  with assms(1) call show ?thesis by (simp add: prov_inv_caller)
next
  case (join c h st)
  with assms(1) have "caller_ok (bt_flights s) (Missed h st)" by (metis prov_inv_def)
  then have st: "entry_ok (bt_flights s) h st" by simp
  show ?thesis
  proof (cases "bt_pending s h")
    case None
    let ?fls = "bt_flights s @ [\<lparr>fl_host = h, fl_done = None, fl_closed = False, fl_removed = False\<rparr>]"
    have "caller_ok ?fls (Waiting h st (length (bt_flights s)))"
      using entry_ok_extends [OF extends_append st] by simp
    then have ok: "caller_ok (bt_flights (s\<lparr>bt_flights := ?fls, bt_pending := p\<rparr>)) (Waiting h st (length (bt_flights s)))"
      for p by simp
    from prov_inv_caller [OF prov_inv_extends(2) [OF assms(1) extends_append] ok, of
        "(bt_pending s)(h \<mapsto> length (bt_flights s))" c]
    show ?thesis by (simp add: join lookupOnce_enter_def None prov_inv_def)
  next
    case (Some f)
    with m have "f < length (bt_flights s) \<and> fl_host (bt_flights s ! f) = h" by (simp add: merge_invD(1))
    with st have "caller_ok (bt_flights s) (Waiting h st f)" by simp
    from prov_inv_caller [OF assms(1) this] show ?thesis by (simp add: join lookupOnce_enter_def Some)
  qed
next
  case (resolved f r)
  then show ?thesis using prov_inv_resolved [OF assms(1)] by simp
next
  case (closed f)
  then show ?thesis unfolding closed flight_close_def
    by (intro prov_inv_extends(1) [OF assms(1)] extends_update) simp_all
next
  case (removed f)
  then show ?thesis unfolding removed flight_remove_def
    by (intro prov_inv_extends(2) [OF assms(1)] extends_update) simp_all
next
  case (receive c h st f r t)
  with assms(1) have "caller_ok (bt_flights s) (Waiting h st f)" by (metis prov_inv_def)
  with receive have "caller_ok (bt_flights s) (lookupOnce_receive (bt_clock s) h st f r)"
    by (cases r) (simp_all add: lookupOnce_receive_def)
  from prov_inv_caller [OF assms(1) this] show ?thesis by (simp add: receive)
next
  case (cancelled c h st f e)
  with assms(1) have "caller_ok (bt_flights s) (Waiting h st f)" by (metis prov_inv_def)
  then have "caller_ok (bt_flights s) (Failed h st e)" by simp
  from prov_inv_caller [OF assms(1) this] show ?thesis by (simp add: cancelled)
next
  case (failed c h st e)
  with assms(1) have st: "caller_ok (bt_flights s) (Failed h st e)" by (metis prov_inv_def)
  have lost: "prov_inv (s\<lparr>bt_callers := (bt_callers s)(c := Returned h (Inl e) t NoAnswer),
      bt_cache := (bt_cache s)(h := None)\<rparr>)" for t
    by (rule prov_inv_uncache [OF prov_inv_caller [OF assms(1)], simplified]) simp
  show ?thesis
  proof (cases st)
    case None
    then show ?thesis using lost by (simp add: failed LookupIP_failed_def)
  next
    case (Some p)
    obtain ip expiry where p: "p = (ip, expiry)" by (cases p)
    show ?thesis
    proof (cases "bt_clock s < expiry + staleTTL")
      case True
      with st Some p have "caller_ok (bt_flights s) (Returned h (Inr ip) (bt_clock s) (Cached expiry))" by simp
      from prov_inv_caller [OF assms(1) this] True Some p show ?thesis by (simp add: failed LookupIP_failed_def)
    next
      case False
      with lost Some p show ?thesis by (simp add: failed LookupIP_failed_def)
    qed
  qed
qed

interpretation lookups: step_system "\<lambda>s. \<exists>t. s = binit t" bstep "\<lambda>s. merge_inv s \<and> prov_inv s"
proof unfold_locales
  fix s :: bstate assume "\<exists>t. s = binit t"
  then show "merge_inv s \<and> prov_inv s" by (auto simp: binit_def merge_inv_def prov_inv_def)
next
  fix s s' :: bstate assume "merge_inv s \<and> prov_inv s" "bstep s s'"
  then show "merge_inv s' \<and> prov_inv s'" using merge_inv_step prov_inv_step by blast
qed

lemma reachable_inv: "bstep\<^sup>*\<^sup>* (binit t) s \<Longrightarrow> merge_inv s" "bstep\<^sup>*\<^sup>* (binit t) s \<Longrightarrow> prov_inv s"
  using lookups.inv_reachable by blast+

text \<open>A waiting caller can be served: its flight has an answer, or can still get one.\<close>

lemma close_then_receive:
  assumes "bt_callers s c = Waiting h st f" and "f < length (bt_flights s)" and "fl_done (bt_flights s ! f) = Some (r, t)"
  shows "\<exists>s'. bstep\<^sup>*\<^sup>* s s' \<and> bt_callers s' c = lookupOnce_receive (bt_clock s) h st f r"
proof -
  have rec: "\<exists>s'. bstep s1 s' \<and> bt_callers s' c = lookupOnce_receive (bt_clock s1) h st f r"
    if "bt_callers s1 c = Waiting h st f" "fl_done (bt_flights s1 ! f) = Some (r, t)" "fl_closed (bt_flights s1 ! f)" for s1
    using bstep.receive [OF that(1,3,2)] by fastforce
  show ?thesis
  proof (cases "fl_closed (bt_flights s ! f)")
    case True
    from rec [OF assms(1,3) True] show ?thesis by (blast intro: r_into_rtranclp)
  next
    case False
    let ?s1 = "flight_close f s"
    have "bstep s ?s1" using assms False by (intro bstep.closed) simp_all
    moreover have "bt_callers ?s1 c = Waiting h st f" "fl_done (bt_flights ?s1 ! f) = Some (r, t)"
      "fl_closed (bt_flights ?s1 ! f)" "bt_clock ?s1 = bt_clock s"
      using assms by (simp_all add: flight_close_def)
    ultimately show ?thesis using rec [of ?s1] by (metis converse_rtranclp_into_rtranclp r_into_rtranclp)
  qed
qed

section \<open>Properties\<close>

text \<open>
  C33: One lookup asks every bootstrap server exactly once, starting at the next position of the
  rotation, and fails only when all of them fail: the order is a permutation of the servers, the
  result is the first address of the first server in that order that has one, and an error is
  returned only if none has. (The 64 bit rotation counter must not wrap within the lookup.)
\<close>

theorem lookupWithRetry_tries_all:
  assumes "servers \<noteq> []" and "length servers < 2 ^ 63" and "unat (counter + 1) + length servers \<le> 2 ^ 64"
    and "lookupWithRetry servers system query host counter = (counter', r)"
  shows "counter' = counter + 1
    \<and> distinct (rotation counter' (length servers)) \<and> set (rotation counter' (length servers)) = {..<length servers}
    \<and> (case find (\<lambda>j. answers (query (servers ! j))) (rotation counter' (length servers)) of
         Some j \<Rightarrow> (\<exists>a as. query (servers ! j) = Inr (a # as) \<and> r = Inr (ip_String a))
       | None \<Rightarrow> (\<exists>e. r = Inl e))
    \<and> ((\<exists>ip. r = Inr ip) \<longleftrightarrow> (\<exists>srv \<in> set servers. answers (query srv)))"
proof -
  let ?n = "length servers" and ?rot = "rotation (counter + 1) (length servers)"
  have c: "counter' = counter + 1" and r: "r = retry_loop servers query host (counter + 1) 0 ?n None"
    using assms(1,4) by (auto simp: lookupWithRetry_def Let_def)
  have n: "0 < ?n" using assms(1) by simp
  note rot = set_rotation [OF n assms(2,3)]
  have f: "case find (\<lambda>j. answers (query (servers ! j))) ?rot of
      Some j \<Rightarrow> (\<exists>a as. query (servers ! j) = Inr (a # as) \<and> r = Inr (ip_String a))
    | None \<Rightarrow> (\<exists>e. r = Inl e)"
    unfolding r using retry_loop_find [where i = 0 and k = ?n and servers = servers and query = query
        and startIdx = "counter + 1" and host = host and lastErr = None] by simp
  have "(\<exists>ip. r = Inr ip) \<longleftrightarrow> (\<exists>srv \<in> set servers. answers (query srv))"
  proof (cases "find (\<lambda>j. answers (query (servers ! j))) ?rot")
    case None
    then have "\<forall>j < ?n. \<not> answers (query (servers ! j))" using rot(1) by (auto simp: find_None_iff)
    with f None show ?thesis by (auto simp: in_set_conv_nth)
  next
    case (Some j)
    then have "answers (query (servers ! j)) \<and> j \<in> set ?rot" by (auto simp: find_Some_iff)
    with rot(1) f Some show ?thesis by auto
  qed
  with c rot f show ?thesis by simp
qed

text \<open>
  Every configured bootstrap server is dialable: the entries that survive parsing have the
  network \<open>udp\<close> or \<open>tcp\<close> and an address that splits into host and port, the port defaulting to
  53 (for entries without brackets).
\<close>

theorem NewBootstrapper_dialable:
  assumes "s \<in> set (NewBootstrapper_servers texts)"
    and "\<forall>x \<in> set texts. CHR ''['' \<notin> set x \<and> CHR '']'' \<notin> set x"
  shows "(bs_network s = ''udp'' \<or> bs_network s = ''tcp'') \<and> bs_address s \<noteq> []
    \<and> (\<exists>h p. net_SplitHostPort (bs_address s) = Some (h, p))"
proof -
  from assms(1) obtain x where x: "x \<in> set texts" "s = parseBootstrapServer x" "bs_address s \<noteq> []"
    by (auto simp: NewBootstrapper_servers_def)
  have sub: "c \<notin> set (strings_TrimSpace (drop k (strings_TrimSpace x)))" "c \<notin> set (strings_TrimSpace x)"
    if "c \<notin> set x" for c k
    using that strings_TrimSpace_set set_drop_subset by fast+
  have addr: "\<exists>h p. net_SplitHostPort (case net_SplitHostPort raw of None \<Rightarrow> net_JoinHostPort raw ''53'' | Some _ \<Rightarrow> raw)
      = Some (h, p)" if "CHR ''['' \<notin> set raw" "CHR '']'' \<notin> set raw" for raw
    using that net_SplitHostPort_JoinHostPort [OF that, of "''53''"] by (cases "net_SplitHostPort raw") auto
  from x(3) show ?thesis
    using assms(2) x(1) sub addr unfolding x(2) parseBootstrapServer_def Let_def
    by (auto simp: no_server_def split: option.splits if_splits)
qed

text \<open>
  C9: Concurrent lookups of a host are merged: in every reachable state at most one flight per
  host is in progress, it is the one new callers join, and every waiting caller waits on a flight
  of the very host it asked for.
\<close>

theorem lookups_merged:
  assumes "bstep\<^sup>*\<^sup>* (binit t) s"
  shows "(\<forall>f g. f < length (bt_flights s) \<longrightarrow> g < length (bt_flights s) \<longrightarrow>
        \<not> fl_removed (bt_flights s ! f) \<longrightarrow> \<not> fl_removed (bt_flights s ! g) \<longrightarrow>
        fl_host (bt_flights s ! f) = fl_host (bt_flights s ! g) \<longrightarrow> f = g)
    \<and> (\<forall>f < length (bt_flights s). \<not> fl_removed (bt_flights s ! f) \<longrightarrow>
        bt_pending s (fl_host (bt_flights s ! f)) = Some f)
    \<and> (\<forall>c h st f. bt_callers s c = Waiting h st f \<longrightarrow> f < length (bt_flights s) \<and> fl_host (bt_flights s ! f) = h)"
proof -
  note inv = merge_invD [OF reachable_inv(1) [OF assms]]
  have p: "bt_pending s (fl_host (bt_flights s ! f)) = Some f"
    if "f < length (bt_flights s)" "\<not> fl_removed (bt_flights s ! f)" for f
    using that inv(1) [of "fl_host (bt_flights s ! f)" f] by simp
  show ?thesis
  proof (intro conjI allI impI)
    fix f g
    assume "f < length (bt_flights s)" "g < length (bt_flights s)" "\<not> fl_removed (bt_flights s ! f)"
      "\<not> fl_removed (bt_flights s ! g)" and eq: "fl_host (bt_flights s ! f) = fl_host (bt_flights s ! g)"
    then have "bt_pending s (fl_host (bt_flights s ! f)) = Some f" "bt_pending s (fl_host (bt_flights s ! g)) = Some g"
      using p by blast+
    then have "Some f = Some g" unfolding eq by (rule box_equals [OF refl])
    then show "f = g" by simp
  qed (use p inv(3) in blast)+
qed

text \<open>
  C32: An address handed out is never made up and never too old: in every reachable state, a
  caller that got an address for a host either asked for an IP literal and got it back, or got
  what a flight of that very host resolved; and one that came out of the cache, the stale fallback
  included, was resolved less than the cache time plus the grace period before.
\<close>

theorem lookup_answers_justified:
  assumes "bstep\<^sup>*\<^sup>* (binit t) s" and "bt_callers s c = Returned h (Inr ip) now orig"
  shows "(ip = h \<and> net_ParseIP h \<noteq> None) \<or>
    (\<exists>fl \<in> set (bt_flights s). \<exists>t0. fl_host fl = h \<and> fl_done fl = Some (Inr ip, t0)
      \<and> (\<forall>e. orig = Cached e \<longrightarrow> now < t0 + cacheTTL + staleTTL))"
proof -
  have ok: "caller_ok (bt_flights s) (Returned h (Inr ip) now orig)"
    using reachable_inv(2) [OF assms(1)] assms(2) by (metis prov_inv_def)
  show ?thesis
  proof (cases orig)
    case (Cached e)
    with ok obtain fl where "fl \<in> set (bt_flights s)" "fl_host fl = h" "fl_done fl = Some (Inr ip, e - cacheTTL)"
      "now < e + staleTTL" by (auto simp: entry_ok_def)
    then show ?thesis using Cached by (intro disjI2 bexI [of _ fl] exI [of _ "e - cacheTTL"]) auto
  next
    case (Flew f)
    with ok show ?thesis by (intro disjI2 bexI [of _ "bt_flights s ! f"]) auto
  qed (use ok in auto)
qed

text \<open>
  No caller is left waiting: from every reachable state in which a caller waits on a flight,
  a continuation serves it, with the result the flight has or, if it has none yet, with whatever
  its resolver comes up with.
\<close>

theorem waiting_caller_served:
  assumes "bstep\<^sup>*\<^sup>* (binit t) s" and "bt_callers s c = Waiting h st f"
  shows "\<exists>s' r'. bstep\<^sup>*\<^sup>* s s' \<and> bt_callers s' c = lookupOnce_receive (bt_clock s) h st f r'
    \<and> (fl_done (bt_flights s ! f) = None \<longrightarrow> r' = r)
    \<and> (\<forall>r0 t0. fl_done (bt_flights s ! f) = Some (r0, t0) \<longrightarrow> r' = r0)"
proof -
  have f: "f < length (bt_flights s)" using merge_invD(3) [OF reachable_inv(1) [OF assms(1)] assms(2)] by simp
  show ?thesis
  proof (cases "fl_done (bt_flights s ! f)")
    case None
    let ?s1 = "flight_resolved f r s"
    have "bstep s ?s1" using f None by (rule bstep.resolved)
    moreover have "bt_callers ?s1 c = Waiting h st f" "f < length (bt_flights ?s1)"
      "fl_done (bt_flights ?s1 ! f) = Some (r, bt_clock s)" "bt_clock ?s1 = bt_clock s"
      using f assms(2) by (cases r; simp add: flight_resolved_def Let_def)+
    ultimately obtain s' where "bstep\<^sup>*\<^sup>* s s'" "bt_callers s' c = lookupOnce_receive (bt_clock s) h st f r"
      using close_then_receive [of ?s1 c h st f r] by (metis converse_rtranclp_into_rtranclp)
    with None show ?thesis by auto
  next
    case (Some p)
    then obtain r0 t0 where "fl_done (bt_flights s ! f) = Some (r0, t0)" by (cases p) auto
    with close_then_receive [OF assms(2) f this] show ?thesis by auto
  qed
qed

section \<open>Witnesses\<close>

definition sample_servers :: "bootstrap_server list" where
  "sample_servers = NewBootstrapper_servers ['' 223.5.5.5 '', ''tcp://1.1.1.1:53'', []]"

lemma sample_servers_eq:
  "sample_servers = [\<lparr>bs_network = ''udp'', bs_address = ''223.5.5.5:53''\<rparr>, \<lparr>bs_network = ''tcp'', bs_address = ''1.1.1.1:53''\<rparr>]"
  by code_simp

definition sample_query :: "bootstrap_server \<Rightarrow> goerr + ip list" where
  "sample_query srv = (if bs_network srv = ''tcp'' then Inr [[9, 9, 9, 9]] else Inl ContextDeadlineExceeded)"

theorem lookupWithRetry_tries_all_witness:
  "\<exists>ip. snd (lookupWithRetry sample_servers (\<lambda>h. Inr []) sample_query ''dns.example'' 7) = Inr ip"
proof -
  have "unat (8 :: 64 word) = 8" by simp
  then show ?thesis
    using lookupWithRetry_tries_all [OF _ _ _ prod.collapse [symmetric, of
        "lookupWithRetry sample_servers (\<lambda>h. Inr []) sample_query ''dns.example'' 7"]]
    by (simp add: sample_servers_eq sample_query_def answers_def)
qed

theorem NewBootstrapper_dialable_witness:
  "\<exists>h p. net_SplitHostPort (bs_address (hd sample_servers)) = Some (h, p)"
proof -
  have "hd sample_servers \<in> set sample_servers" by (simp add: sample_servers_eq)
  then show ?thesis
    using NewBootstrapper_dialable [of "hd sample_servers" "['' 223.5.5.5 '', ''tcp://1.1.1.1:53'', []]"]
    by (simp add: sample_servers_def)
qed

text \<open>Caller 0 misses the cache and starts a flight.\<close>

definition sample_waiting :: bstate where
  "sample_waiting = lookupOnce_enter 0 ''dns.example'' None
     ((binit 5)\<lparr>bt_callers := (bt_callers (binit 5))(0 := Missed ''dns.example'' None)\<rparr>)"

lemma sample_host: "net_ParseIP ''dns.example'' = None"
  by code_simp

lemma sample_waiting_reachable: "bstep\<^sup>*\<^sup>* (binit 5) sample_waiting"
proof -
  let ?s1 = "(binit 5)\<lparr>bt_callers := (bt_callers (binit 5))(0 := Missed ''dns.example'' None)\<rparr>"
  have "bstep (binit 5) ((binit 5)\<lparr>bt_callers := (bt_callers (binit 5))(0 :=
      LookupIP_enter (bt_clock (binit 5)) ''dns.example'' (bt_cache (binit 5) ''dns.example''))\<rparr>)"
    by (rule bstep.call) (simp add: binit_def)
  moreover have "LookupIP_enter (bt_clock (binit 5)) ''dns.example'' (bt_cache (binit 5) ''dns.example'')
      = Missed ''dns.example'' None"
    by (simp add: LookupIP_enter_def sample_host) (simp add: binit_def)
  ultimately have "bstep (binit 5) ?s1" by (simp only:)
  moreover have "bstep ?s1 sample_waiting" unfolding sample_waiting_def by (rule bstep.join) simp
  ultimately show ?thesis by (meson converse_rtranclp_into_rtranclp r_into_rtranclp)
qed

lemma sample_waiting_caller: "bt_callers sample_waiting 0 = Waiting ''dns.example'' None 0"
  by (simp add: sample_waiting_def lookupOnce_enter_def binit_def)

theorem lookups_merged_witness:
  "bt_pending sample_waiting ''dns.example'' = Some 0"
proof -
  have "bt_flights sample_waiting = [\<lparr>fl_host = ''dns.example'', fl_done = None, fl_closed = False, fl_removed = False\<rparr>]"
    by (simp add: sample_waiting_def lookupOnce_enter_def binit_def)
  with lookups_merged [OF sample_waiting_reachable] show ?thesis by simp
qed

theorem waiting_caller_served_witness:
  "\<exists>s'. bstep\<^sup>*\<^sup>* sample_waiting s' \<and> bt_callers s' 0 = Returned ''dns.example'' (Inr ''9.9.9.9'') 5 (Flew 0)"
proof -
  have "fl_done (bt_flights sample_waiting ! 0) = None" "bt_clock sample_waiting = 5"
    by (simp_all add: sample_waiting_def lookupOnce_enter_def binit_def)
  then show ?thesis
    using waiting_caller_served [OF sample_waiting_reachable sample_waiting_caller, of "Inr ''9.9.9.9''"]
    by (auto simp: lookupOnce_receive_def)
qed

text \<open>The flight resolves, closes, and the caller receives.\<close>

definition sample_resolved :: bstate where
  "sample_resolved = flight_close 0 (flight_resolved 0 (Inr ''9.9.9.9'') sample_waiting)"

definition sample_served :: bstate where
  "sample_served = sample_resolved\<lparr>bt_callers := (bt_callers sample_resolved)(0 :=
     lookupOnce_receive (bt_clock sample_resolved) ''dns.example'' None 0 (Inr ''9.9.9.9''))\<rparr>"

lemmas sample_state_defs = sample_served_def sample_resolved_def sample_waiting_def flight_close_def
  flight_resolved_def lookupOnce_enter_def binit_def lookupOnce_receive_def

lemma sample_served_reachable: "bstep\<^sup>*\<^sup>* (binit 5) sample_served"
proof -
  have "bstep sample_waiting (flight_resolved 0 (Inr ''9.9.9.9'') sample_waiting)"
    by (rule bstep.resolved) (simp_all add: sample_state_defs)
  moreover have "bstep (flight_resolved 0 (Inr ''9.9.9.9'') sample_waiting) sample_resolved"
    unfolding sample_resolved_def by (rule bstep.closed) (simp_all add: sample_state_defs)
  moreover have "bstep sample_resolved sample_served"
    unfolding sample_served_def by (rule bstep.receive [where t = 5]) (simp_all add: sample_state_defs)
  ultimately show ?thesis using sample_waiting_reachable by (meson rtranclp.rtrancl_into_rtrancl)
qed

theorem lookup_answers_justified_witness:
  "\<exists>fl \<in> set (bt_flights sample_served). fl_host fl = ''dns.example'' \<and> (\<exists>t0. fl_done fl = Some (Inr ''9.9.9.9'', t0))"
proof -
  have "bt_callers sample_served 0 = Returned ''dns.example'' (Inr ''9.9.9.9'') 5 (Flew 0)"
    by (simp add: sample_state_defs)
  from lookup_answers_justified [OF sample_served_reachable this] show ?thesis by (auto simp: sample_host)
qed

section \<open>Observations\<close>

text \<open>
  When the rotation counter wraps and the number of servers is not a power of two, one lookup asks
  a server twice and skips another.
\<close>

lemma rotation_wraps: "rotation (- 1) 3 = [0, 0, 1]"
  by code_simp

text \<open>A bracketed IPv6 address without a port is bracketed again, which cannot be dialed.\<close>

lemma bracketed_without_port: "bs_address (parseBootstrapServer ''[::1]'') = ''[[::1]]:53''"
  by code_simp

text \<open>
  A caller whose context ends while its flight completes deletes the fresh entry the flight has
  just stored.
\<close>

lemma cancelled_caller_evicts_fresh_entry:
  "\<exists>s s'. bstep\<^sup>*\<^sup>* (binit 5) s \<and> bstep s s' \<and> bt_cache s ''dns.example'' = Some (''9.9.9.9'', 5 + cacheTTL)
     \<and> bt_clock s = 5 \<and> bt_cache s' ''dns.example'' = None"
proof -
  let ?s1 = "flight_resolved 0 (Inr ''9.9.9.9'') sample_waiting"
  let ?s2 = "?s1\<lparr>bt_callers := (bt_callers ?s1)(0 := Failed ''dns.example'' None ContextCanceled)\<rparr>"
  have "bstep sample_waiting ?s1" by (rule bstep.resolved) (simp_all add: sample_state_defs)
  moreover have "bstep ?s1 ?s2" by (rule bstep.cancelled) (simp_all add: sample_state_defs)
  ultimately have "bstep\<^sup>*\<^sup>* (binit 5) ?s2"
    using sample_waiting_reachable by (meson rtranclp.rtrancl_into_rtrancl)
  moreover have "bstep ?s2 (LookupIP_failed 0 ''dns.example'' None ContextCanceled ?s2)"
    by (rule bstep.failed) simp
  ultimately show ?thesis
    by (intro exI [of _ ?s2] exI [of _ "LookupIP_failed 0 ''dns.example'' None ContextCanceled ?s2"])
      (simp add: sample_state_defs LookupIP_failed_def)
qed

end
