(* ===== verification/Geo_Data.thy ===== *)
theory Geo_Data
  imports Go_Net
begin

text \<open>
  \<open>internal/router/geodata.go\<close>: the GeoIP and GeoSite lookups. The databases are third party;
  what the program uses of one is the function from an address or a name to its codes.
\<close>

record geo_data_manager =
  gm_geoip :: "(ip \<Rightarrow> string list) option"
  gm_geosite :: "(string \<Rightarrow> string list) option"

text \<open>Loading: the files are read by the databases' own loaders.\<close>

definition NewGeoDataManager ::
  "(string \<Rightarrow> goerr + (ip \<Rightarrow> string list)) \<Rightarrow> (string \<Rightarrow> goerr + (string \<Rightarrow> string list))
     \<Rightarrow> string \<Rightarrow> string \<Rightarrow> geo_data_manager result" where
  "NewGeoDataManager load_ip load_site geoipPath geositePath =
     (case load_ip geoipPath of
        Inl e \<Rightarrow> (None, Some (Wrapf ''cannot load the GeoIP data'' e))
      | Inr geoIPData \<Rightarrow>
          (case load_site geositePath of
             Inl e \<Rightarrow> (None, Some (Wrapf ''cannot load the GeoSite data'' e))
           | Inr geoSiteData \<Rightarrow> (Some \<lparr>gm_geoip = Some geoIPData, gm_geosite = Some geoSiteData\<rparr>, None)))"

definition IsCNIP :: "geo_data_manager option \<Rightarrow> ip \<Rightarrow> bool" where
  "IsCNIP g addr =
     (case g of
        None \<Rightarrow> False
      | Some gm \<Rightarrow>
          (case gm_geoip gm of
             None \<Rightarrow> False
           | Some lookup \<Rightarrow> list_ex (\<lambda>code. strings_ToUpper code = ''CN'') (lookup addr)))"

definition LookupGeoSite :: "geo_data_manager option \<Rightarrow> string \<Rightarrow> string" where
  "LookupGeoSite g domain =
     (case g of
        None \<Rightarrow> []
      | Some gm \<Rightarrow>
          (case gm_geosite gm of
             None \<Rightarrow> []
           | Some lookup \<Rightarrow> if list_ex (\<lambda>code. strings_ToLower code = ''cn'') (lookup domain) then ''cn'' else []))"

lemma LookupGeoSite_cn: "LookupGeoSite g domain = [] \<or> LookupGeoSite g domain = ''cn''"
  by (simp add: LookupGeoSite_def split: option.split)

end
