(* ===== verification/Router.thy ===== *)
theory Router
  imports Geo_Data Race Ecs Config_Store QueryLog Upstream Bootstrap
begin

text \<open>
  \<open>internal/router/router.go\<close>: which upstream group answers a query. A router holds the
  configuration, the geodata, the two groups of upstream clients with their statistics and the
  compiled regular expression rules. The regular expressions and the way a client talks to its
  upstream are parameters.
\<close>

section \<open>State\<close>

type_synonym regex_rule = "(string \<Rightarrow> bool) \<times> string"

record router =
  rt_config :: config
  rt_geo :: "geo_data_manager option"
  rt_cnClients :: "dns_client list"
  rt_overseasClients :: "dns_client list"
  rt_cnStats :: "stats_client list"
  rt_overseasStats :: "stats_client list"
  rt_regexRules :: "regex_rule list"

text \<open>\<open>NewRouter\<close>: the rules are iterated in the order of the map.\<close>

fun compile_rules :: "(string \<Rightarrow> goerr + (string \<Rightarrow> bool)) \<Rightarrow> string gomap \<Rightarrow> regex_rule list" where
  "compile_rules regexp_Compile [] = []"
| "compile_rules regexp_Compile ((domain, target) # rules) =
     (if strings_HasPrefix domain ''regexp:'' then
        (case regexp_Compile (strings_TrimPrefix domain ''regexp:'') of
           Inl err \<Rightarrow> compile_rules regexp_Compile rules
         | Inr re \<Rightarrow> (re, target) # compile_rules regexp_Compile rules)
      else compile_rules regexp_Compile rules)"

fun make_clients ::
  "(bootstrap_server list \<Rightarrow> client_kind \<Rightarrow> dns_client) \<Rightarrow> bootstrap_server list \<Rightarrow> string \<Rightarrow> upstream_server list
     \<Rightarrow> (dns_client \<times> stats_client) list" where
  "make_clients connect bootstrapper grp [] = []"
| "make_clients connect bootstrapper grp (cfg # cfgs) =
     (case NewDNSClient cfg of
        Inl err \<Rightarrow> make_clients connect bootstrapper grp cfgs
      | Inr c \<Rightarrow>
          (connect bootstrapper c, NewStatsClient (us_Address cfg) (us_Protocol cfg) grp)
            # make_clients connect bootstrapper grp cfgs)"

definition NewRouter ::
  "(string \<Rightarrow> goerr + (string \<Rightarrow> bool)) \<Rightarrow> (bootstrap_server list \<Rightarrow> client_kind \<Rightarrow> dns_client)
     \<Rightarrow> config \<Rightarrow> geo_data_manager option \<Rightarrow> router" where
  "NewRouter regexp_Compile connect cfg geo =
     (let bootstrapper = NewBootstrapper_servers (cf_BootstrapDNS cfg);
          cn = make_clients connect bootstrapper ''CN'' (uc_CN (cf_Upstreams cfg));
          overseas = make_clients connect bootstrapper ''Overseas'' (uc_Overseas (cf_Upstreams cfg))
      in \<lparr>rt_config = cfg, rt_geo = geo, rt_cnClients = map fst cn, rt_overseasClients = map fst overseas,
          rt_cnStats = map snd cn, rt_overseasStats = map snd overseas,
          rt_regexRules = compile_rules regexp_Compile (cf_Rules cfg)\<rparr>)"

definition GetUpstreamStats :: "router option \<Rightarrow> stats_view list" where
  "GetUpstreamStats ro =
     (case ro of
        None \<Rightarrow> []
      | Some r \<Rightarrow> map StatsClient_GetStats (rt_cnStats r) @ map StatsClient_GetStats (rt_overseasStats r))"

text \<open>\<open>Close\<close> closes every client and keeps the first error.\<close>

fun first_error :: "goerr option list \<Rightarrow> goerr option" where
  "first_error [] = None"
| "first_error (e # es) = (case e of Some x \<Rightarrow> Some x | None \<Rightarrow> first_error es)"

definition Router_Close :: "(stats_client \<Rightarrow> goerr option) \<Rightarrow> router option \<Rightarrow> goerr option" where
  "Router_Close close_client ro =
     (case ro of
        None \<Rightarrow> None
      | Some r \<Rightarrow> first_error (map close_client (rt_cnStats r) @ map close_client (rt_overseasStats r)))"

section \<open>Names and rules\<close>

text \<open>The loop of \<open>matchNames\<close> over the labels; \<open>seen\<close> is the set of the names so far.\<close>

fun match_loop :: "string list \<Rightarrow> string list \<Rightarrow> string list" where
  "match_loop [] names = names"
| "match_loop [l] names = names"
| "match_loop (l # m # rest) names =
     (if \<not> strings_HasPrefix l ''_'' then names
      else
        (let candidate = strings_Join (m # rest) ''.'' in
         if candidate = [] then match_loop (m # rest) names
         else if candidate \<in> set names then match_loop (m # rest) names
         else match_loop (m # rest) (names @ [candidate])))"

definition matchNames :: "dns_lib \<Rightarrow> string \<Rightarrow> string list" where
  "matchNames L qName0 =
     (let qName = strings_ToLower (strings_TrimSuffix qName0 ''.'') in
      if qName = [] then []
      else match_loop (lib_SplitDomainName L qName) [qName])"

fun lookupRule :: "string gomap \<Rightarrow> string list \<Rightarrow> string option" where
  "lookupRule rules [] = None"
| "lookupRule rules (name # names) =
     (case map_of rules name of Some rule \<Rightarrow> Some rule | None \<Rightarrow> lookupRule rules names)"

fun lookupRegexRule :: "regex_rule list \<Rightarrow> string list \<Rightarrow> string option" where
  "lookupRegexRule rules [] = None"
| "lookupRegexRule rules (name # names) =
     (case find (\<lambda>rr. fst rr name) rules of
        Some rr \<Rightarrow> Some (snd rr)
      | None \<Rightarrow> lookupRegexRule rules names)"

fun lookupGeoSite :: "geo_data_manager option \<Rightarrow> string list \<Rightarrow> string" where
  "lookupGeoSite g [] = []"
| "lookupGeoSite g (name # names) =
     (let rule = LookupGeoSite g name in if rule \<noteq> [] then rule else lookupGeoSite g names)"

definition hostOverrideResponse :: "dns_lib \<Rightarrow> msg \<Rightarrow> ip option \<Rightarrow> msg option" where
  "hostOverrideResponse L req ipo =
     (case ipo of
        None \<Rightarrow> None
      | Some addr \<Rightarrow>
          if length (Question req) = 0 then None
          else
            (let q = hd (Question req); qType = q_Qtype q; v4 = ip_To4 addr; isIPv4 = (v4 \<noteq> None) in
             if qType \<noteq> TypeANY \<and>
                ((qType = TypeA \<and> \<not> isIPv4) \<or> (qType = TypeAAAA \<and> isIPv4)
                 \<or> (qType \<noteq> TypeA \<and> qType \<noteq> TypeAAAA))
             then None
             else
               (let m = lib_SetReply L req;
                    hdr = \<lparr>hdr_Name = q_Name q, hdr_Rrtype = (if isIPv4 then TypeA else TypeAAAA),
                           hdr_Class = ClassINET, hdr_Ttl = 60\<rparr>
                in Some (m\<lparr>Answer := Answer m @ [if isIPv4 then RR_A hdr v4 else RR_AAAA hdr (Some addr)]\<rparr>))))"

section \<open>Both groups at once\<close>

text \<open>
  What the select loop of the dual query sees: the result of the overseas group (\<open>True\<close>) or of
  the CN group, or the end of the caller's context. When the list ends the results not yet seen
  arrive: each race ends with its timer at the latest.
\<close>

datatype dual_event = DualArrive bool | DualCtx goerr

fun dual_loop ::
  "(bool \<Rightarrow> msg result) \<Rightarrow> nat \<Rightarrow> msg result option \<Rightarrow> msg result option \<Rightarrow> dual_event list
     \<Rightarrow> goerr + (msg result option \<times> msg result option)" where
  "dual_loop ans 0 ov cn evs = Inr (ov, cn)"
| "dual_loop ans (Suc k) ov cn [] =
     (if ov = None then dual_loop ans k (Some (ans True)) cn [] else dual_loop ans k ov (Some (ans False)) [])"
| "dual_loop ans (Suc k) ov cn (DualArrive src # evs) =
     (if src then dual_loop ans k (Some (ans src)) cn evs else dual_loop ans k ov (Some (ans src)) evs)"
| "dual_loop ans (Suc k) ov cn (DualCtx e # evs) = Inl e"

text \<open>The address of the first A or AAAA record of an answer section, nil addresses included.\<close>

fun first_address :: "rr list \<Rightarrow> ip option" where
  "first_address [] = None"
| "first_address (RR_A h a # rs) = a"
| "first_address (RR_AAAA h a # rs) = a"
| "first_address (r # rs) = first_address rs"

type_synonym routed = "msg option \<times> string \<times> goerr option"

definition dual_select :: "geo_data_manager option \<Rightarrow> msg result \<Rightarrow> msg result \<Rightarrow> routed" where
  "dual_select geo ov cn =
     (if snd ov = None \<and> fst ov \<noteq> None \<and> Rcode (the (fst ov)) = RcodeSuccess then
        (let resolvedIP = first_address (Answer (the (fst ov))) in
         if (case resolvedIP of None \<Rightarrow> False | Some addr \<Rightarrow> IsCNIP geo addr) then
           (if snd cn = None \<and> fst cn \<noteq> None \<and> Rcode (the (fst cn)) = RcodeSuccess
            then (fst cn, ''GeoIP(CN)'', None)
            else (fst ov, ''GeoIP(CN/Fallback-Overseas)'', None))
         else (fst ov, ''GeoIP(Overseas)'', None))
      else if snd cn = None \<and> fst cn \<noteq> None \<and> Rcode (the (fst cn)) = RcodeSuccess
      then (fst cn, ''GeoIP(Fallback/CN)'', None)
      else if snd ov = None \<and> fst ov \<noteq> None then (fst ov, ''GeoIP(Overseas)'', None)
      else if snd cn = None \<and> fst cn \<noteq> None then (fst cn, ''GeoIP(CN)'', None)
      else
        (case snd ov of
           Some e \<Rightarrow>
             (None, ''GeoIP(Error)'',
              Some (Errorf ''all DNS queries failed'' (e # (case snd cn of None \<Rightarrow> [] | Some e' \<Rightarrow> [e']))))
         | None \<Rightarrow>
             (case snd cn of
                Some e \<Rightarrow> (None, ''GeoIP(Error)'', Some e)
              | None \<Rightarrow> (None, ''GeoIP(Error)'', Some (Errorf ''no response from the concurrent queries'' [])))))"

section \<open>Routing\<close>

text \<open>What the concurrent parts of one routing see: the events of each group's race and of the
  dual query.\<close>

record route_sched =
  rs_cn :: "race_event list"
  rs_overseas :: "race_event list"
  rs_dual :: "dual_event list"

definition race_cn :: "router \<Rightarrow> route_sched \<Rightarrow> msg \<Rightarrow> msg result" where
  "race_cn r s req = RaceResolve (rs_cn s) req (rt_cnClients r)"

definition race_overseas :: "router \<Rightarrow> route_sched \<Rightarrow> msg \<Rightarrow> msg result" where
  "race_overseas r s req = RaceResolve (rs_overseas s) req (rt_overseasClients r)"

definition via :: "string \<Rightarrow> msg result \<Rightarrow> routed" where
  "via upstream res = (fst res, upstream, snd res)"

definition route_dual :: "router \<Rightarrow> route_sched \<Rightarrow> msg \<Rightarrow> routed" where
  "route_dual r s req =
     (case dual_loop (\<lambda>src. if src then race_overseas r s req else race_cn r s req) 2 None None (rs_dual s) of
        Inl e \<Rightarrow> (None, ''GeoIP(Timeout)'', Some e)
      | Inr (Some ov, Some cn) \<Rightarrow> dual_select (rt_geo r) ov cn
      | Inr _ \<Rightarrow> (None, ''GeoIP(Error)'', Some (Errorf ''incomplete concurrent queries'' [])))"

definition route_geosite :: "router \<Rightarrow> route_sched \<Rightarrow> msg \<Rightarrow> string list \<Rightarrow> routed" where
  "route_geosite r s req names =
     (let geoSiteRule = lookupGeoSite (rt_geo r) names in
      if geoSiteRule \<noteq> [] then
        (if strings_ToLower geoSiteRule = ''cn'' then via ''GeoSite(CN)'' (race_cn r s req)
         else via ''GeoSite(Overseas)'' (race_overseas r s req))
      else route_dual r s req)"

definition route_regex :: "router \<Rightarrow> route_sched \<Rightarrow> msg \<Rightarrow> string list \<Rightarrow> routed" where
  "route_regex r s req names =
     (case lookupRegexRule (rt_regexRules r) names of
        None \<Rightarrow> route_geosite r s req names
      | Some rule \<Rightarrow>
          if strings_ToLower rule = ''cn'' then via ''Rule(Regex/CN)'' (race_cn r s req)
          else if strings_ToLower rule = ''overseas'' then via ''Rule(Regex/Overseas)'' (race_overseas r s req)
          else route_geosite r s req names)"

definition route_rule :: "router \<Rightarrow> route_sched \<Rightarrow> msg \<Rightarrow> string list \<Rightarrow> routed" where
  "route_rule r s req names =
     (case lookupRule (cf_Rules (rt_config r)) names of
        None \<Rightarrow> route_regex r s req names
      | Some rule \<Rightarrow>
          if strings_ToLower rule = ''cn'' then via ''Rule(CN)'' (race_cn r s req)
          else if strings_ToLower rule = ''overseas'' then via ''Rule(Overseas)'' (race_overseas r s req)
          else route_regex r s req names)"

text \<open>\<open>routeInternal\<close> is called for requests with a question only (it would panic otherwise).\<close>

definition routeInternal :: "dns_lib \<Rightarrow> router \<Rightarrow> route_sched \<Rightarrow> msg \<Rightarrow> routed" where
  "routeInternal L r s req =
     (let qName = strings_ToLower (strings_TrimSuffix (q_Name (hd (Question req))) ''.'');
          matchCandidates = matchNames L qName
      in case map_of (cf_Hosts (rt_config r)) qName of
           None \<Rightarrow> route_rule r s req matchCandidates
         | Some ipStr \<Rightarrow>
             (case net_ParseIP ipStr of
                None \<Rightarrow> (None, ''Hosts'', Some (Errorf (''invalid address in the custom hosts: '' @ ipStr @ '' for '' @ qName) []))
              | Some addr \<Rightarrow>
                  (case hostOverrideResponse L req (Some addr) of
                     Some resp \<Rightarrow> (Some resp, ''Hosts'', None)
                   | None \<Rightarrow> route_rule r s req matchCandidates)))"

section \<open>Service binding queries\<close>

definition isServiceBindingQuestion :: "msg \<Rightarrow> bool" where
  "isServiceBindingQuestion req =
     (if length (Question req) = 0 then False
      else (let qType = q_Qtype (hd (Question req)) in qType = TypeHTTPS \<or> qType = TypeSVCB))"

definition newExistenceCheckRequest :: "dns_lib \<Rightarrow> msg \<Rightarrow> string \<Rightarrow> msg" where
  "newExistenceCheckRequest L req qName =
     (let checkReq = (lib_SetQuestion L (lib_Fqdn L qName) TypeA)
            \<lparr>Id := Id req, RecursionDesired := RecursionDesired req, CheckingDisabled := CheckingDisabled req\<rparr>
      in case lib_IsEdns0 L req of
           None \<Rightarrow> checkReq
         | Some i \<Rightarrow> lib_SetEdns0 L checkReq (lib_UDPSize L (Extra req ! i)) (lib_Do L (Extra req ! i)))"

definition synthesizeNoDataResponse :: "msg \<Rightarrow> msg \<Rightarrow> msg" where
  "synthesizeNoDataResponse req resp =
     resp\<lparr>Rcode := RcodeSuccess, Answer := [], Ns := [],
          Extra := filter (\<lambda>extra. hdr_Rrtype (rr_Header extra) = TypeOPT) (Extra resp),
          Question := Question req\<rparr>"

definition normalizeServiceBindingNegativeResponse ::
  "dns_lib \<Rightarrow> router \<Rightarrow> route_sched \<Rightarrow> msg \<Rightarrow> msg \<Rightarrow> string \<Rightarrow> msg \<times> string" where
  "normalizeServiceBindingNegativeResponse L r s req resp upstream =
     (if Rcode resp \<noteq> RcodeNameError \<or> \<not> isServiceBindingQuestion req then (resp, upstream)
      else
        (let candidates = matchNames L (q_Name (hd (Question req))) in
         if length candidates \<le> 1 then (resp, upstream)
         else
           (let originName = last candidates;
                checkReq = newExistenceCheckRequest L req originName
            in case routeInternal L r s checkReq of
                 (Some checkResp, _, None) \<Rightarrow>
                   if Rcode checkResp \<noteq> RcodeSuccess then (resp, upstream)
                   else (synthesizeNoDataResponse req resp, upstream @ ''/Compat-NODATA'')
               | _ \<Rightarrow> (resp, upstream))))"

section \<open>Route\<close>

fun rr_fields :: "nat \<Rightarrow> string \<Rightarrow> string option" where
  "rr_fields 0 s = Some s"
| "rr_fields (Suc k) s =
     (case strings_IndexAny s [CHR '' '', char_of (9 :: nat)] of
        None \<Rightarrow> None
      | Some idx \<Rightarrow> rr_fields k (strings_TrimLeft (drop (idx + 1) s) [CHR '' '', char_of (9 :: nat)]))"

definition rrData :: "dns_lib \<Rightarrow> rr \<Rightarrow> string" where
  "rrData L rec =
     (case rr_fields 4 (lib_rrString L rec) of
        None \<Rightarrow> lib_rrString L rec
      | Some s \<Rightarrow> if s = [] then lib_rrString L rec else s)"

definition answer_text :: "dns_lib \<Rightarrow> rr list \<Rightarrow> string" where
  "answer_text L ans =
     (case ans of
        [] \<Rightarrow> []
      | a # rest \<Rightarrow>
          rrData L a @ (if rest \<noteq> [] then '' (+'' @ strconv_Itoa (int (length ans) - 1) @ '' more)'' else []))"

definition answer_record_of :: "dns_lib \<Rightarrow> rr \<Rightarrow> answer_record" where
  "answer_record_of L a =
     \<lparr>ar_Name = hdr_Name (rr_Header a), ar_Type = lib_TypeString L (hdr_Rrtype (rr_Header a)),
      ar_Data = rrData L a, ar_TTL = hdr_Ttl (rr_Header a)\<rparr>"

definition route_entry ::
  "dns_lib \<Rightarrow> msg \<Rightarrow> string \<Rightarrow> string \<Rightarrow> int \<Rightarrow> msg option \<Rightarrow> goerr option \<Rightarrow> log_entry" where
  "route_entry L req clientIP upstream duration resp err =
     \<lparr>le_ID = 0, le_Time = 0, le_ClientIP = clientIP, le_DownstreamECS = ExtractECS L req,
      le_Domain = q_Name (hd (Question req)), le_Type = lib_TypeString L (q_Qtype (hd (Question req))),
      le_Upstream = upstream,
      le_Answer = (case (resp, err) of (Some m, None) \<Rightarrow> answer_text L (Answer m) | _ \<Rightarrow> []),
      le_AnswerRecords = (case (resp, err) of (Some m, None) \<Rightarrow> map (answer_record_of L) (Answer m) | _ \<Rightarrow> []),
      le_DurationMs = duration,
      le_Status = (case (resp, err) of (Some m, None) \<Rightarrow> lib_RcodeToString L (Rcode m) | _ \<Rightarrow> ''ERROR'')\<rparr>"

definition zero_ttl :: "rr \<Rightarrow> rr" where
  "zero_ttl rec = set_rr_Header ((rr_Header rec)\<lparr>hdr_Ttl := 0\<rparr>) rec"

definition zero_negative_ttls :: "msg \<Rightarrow> msg" where
  "zero_negative_ttls resp =
     (if Rcode resp = RcodeNameError then
        resp\<lparr>Answer := map zero_ttl (Answer resp), Ns := map zero_ttl (Ns resp),
             Extra := map (\<lambda>extra. if hdr_Rrtype (rr_Header extra) = TypeOPT then extra else zero_ttl extra)
                          (Extra resp)\<rparr>
      else resp)"

definition err_no_question :: goerr where "err_no_question = Errorf ''no question'' []"
definition err_no_response :: goerr where "err_no_response = Errorf ''upstream returned no response'' []"

text \<open>
  \<open>Route\<close>. The two schedules are those of the routing and of the existence check; the duration
  and the time of the log entry are arguments, and the logger is passed on.
\<close>

definition Route ::
  "dns_lib \<Rightarrow> router \<Rightarrow> route_sched \<times> route_sched \<Rightarrow> int \<times> int \<Rightarrow> msg \<Rightarrow> string \<Rightarrow> query_logger option
     \<Rightarrow> msg result \<times> query_logger option" where
  "Route L r scheds clk req clientIP logger =
     (if length (Question req) = 0 then ((None, Some err_no_question), logger)
      else
        (let logging = Enabled logger;
             (resp0, upstream0, err0) = routeInternal L r (fst scheds) req;
             (resp1, upstream1) =
               (case (resp0, err0) of
                  (Some m, None) \<Rightarrow>
                    (case normalizeServiceBindingNegativeResponse L r (snd scheds) req m upstream0 of
                       (m', u') \<Rightarrow> (Some m', u'))
                | _ \<Rightarrow> (resp0, upstream0));
             err1 = (if err0 = None \<and> resp1 = None then Some err_no_response else err0);
             logger' =
               (if logging
                then map_option (AddLog_mem (snd clk)
                       (route_entry L req clientIP upstream1 (fst clk) resp1 err1)) logger
                else logger)
         in ((map_option zero_negative_ttls resp1, err1), logger')))"

section \<open>Lemmas\<close>

subsection \<open>Every route is decided\<close>

definition rdecided :: "routed \<Rightarrow> bool" where
  "rdecided x = decided (fst x, snd (snd x))"

lemma rdecided_via [simp]: "decided res \<Longrightarrow> rdecided (via u res)"
  by (simp add: rdecided_def via_def)

lemma race_decided [simp]: "decided (race_cn r s req)" "decided (race_overseas r s req)"
  by (simp_all add: race_cn_def race_overseas_def RaceResolve_decided)

lemma dual_select_decided: "rdecided (dual_select geo ov cn)"
  by (auto simp: dual_select_def rdecided_def decided_def Let_def split: option.splits)

lemma route_dual_decided [simp]: "rdecided (route_dual r s req)"
  by (auto simp: route_dual_def dual_select_decided split: sum.splits option.splits)
    (simp_all add: rdecided_def)

lemma route_rule_decided [simp]: "rdecided (route_rule r s req names)"
  by (simp add: route_rule_def route_regex_def route_geosite_def Let_def split: option.splits)

lemma routeInternal_decided: "rdecided (routeInternal L r s req)"
  by (auto simp: routeInternal_def Let_def split: option.splits) (simp_all add: rdecided_def)

lemma routeInternal_cases:
  obtains m u where "routeInternal L r s req = (Some m, u, None)"
  | u e where "routeInternal L r s req = (None, u, Some e)"
proof -
  obtain m u e where x: "routeInternal L r s req = (m, u, e)" by (cases "routeInternal L r s req") auto
  with routeInternal_decided [of L r s req] show ?thesis
    using that by (cases m; cases e) (auto simp: rdecided_def)
qed

text \<open>\<open>Route\<close> on the two kinds of routing results.\<close>

lemma Route_error:
  assumes "Question req \<noteq> []" and "routeInternal L r (fst scheds) req = (None, u, Some e)"
  shows "Route L r scheds clk req ip logger = ((None, Some e),
    if Enabled logger
    then map_option (AddLog_mem (snd clk) (route_entry L req ip u (fst clk) None (Some e))) logger else logger)"
  using assms by (simp add: Route_def Let_def)

lemma Route_response:
  assumes "Question req \<noteq> []" and "routeInternal L r (fst scheds) req = (Some m, u, None)"
    and "normalizeServiceBindingNegativeResponse L r (snd scheds) req m u = (m', u')"
  shows "Route L r scheds clk req ip logger = ((Some (zero_negative_ttls m'), None),
    if Enabled logger
    then map_option (AddLog_mem (snd clk) (route_entry L req ip u' (fst clk) (Some m') None)) logger else logger)"
  using assms by (simp add: Route_def Let_def)

subsection \<open>The policy behind the code\<close>

text \<open>
  Routing as a list of policies, each of which may decide; the first that does wins, and a name no
  policy knows is asked of both groups.
\<close>

datatype decision = AnswerHosts msg | FailHosts goerr | AskCN string | AskOverseas string | AskBoth

definition route_name :: "msg \<Rightarrow> string" where
  "route_name req = strings_ToLower (strings_TrimSuffix (q_Name (hd (Question req))) ''.'')"

text \<open>
  An address in the hosts file answers queries of its own family and \<open>ANY\<close> with one record; the
  entry of a name is looked up by the full name.
\<close>

definition hosts_policy :: "dns_lib \<Rightarrow> router \<Rightarrow> msg \<Rightarrow> decision option" where
  "hosts_policy L r req =
     (case map_of (cf_Hosts (rt_config r)) (route_name req) of
        None \<Rightarrow> None
      | Some ipStr \<Rightarrow>
          (case net_ParseIP ipStr of
             None \<Rightarrow> Some (FailHosts (Errorf (''invalid address in the custom hosts: '' @ ipStr @ '' for ''
                       @ route_name req) []))
           | Some addr \<Rightarrow>
               (let family = (if ip_To4 addr \<noteq> None then TypeA else TypeAAAA) in
                case Question req of
                  [] \<Rightarrow> None
                | q # qs \<Rightarrow>
                    if q_Qtype q = family \<or> q_Qtype q = TypeANY
                    then (let hdr = \<lparr>hdr_Name = q_Name q, hdr_Rrtype = family, hdr_Class = ClassINET, hdr_Ttl = 60\<rparr>;
                              rec = (case ip_To4 addr of Some v4 \<Rightarrow> RR_A hdr (Some v4) | None \<Rightarrow> RR_AAAA hdr (Some addr))
                          in Some (AnswerHosts ((lib_SetReply L req)\<lparr>Answer := Answer (lib_SetReply L req) @ [rec]\<rparr>)))
                    else None)))"

definition target_policy :: "string \<Rightarrow> string \<Rightarrow> decision option" where
  "target_policy label target =
     (if strings_ToLower target = ''cn'' then Some (AskCN (label @ ''CN)''))
      else if strings_ToLower target = ''overseas'' then Some (AskOverseas (label @ ''Overseas)''))
      else None)"

text \<open>What the rules, the regular expressions and GeoSite say of the candidate names, best candidate first.\<close>

definition rule_targets :: "string gomap \<Rightarrow> string list \<Rightarrow> string list" where
  "rule_targets rules names = concat (map (\<lambda>name. case map_of rules name of None \<Rightarrow> [] | Some t \<Rightarrow> [t]) names)"

definition regex_targets :: "regex_rule list \<Rightarrow> string list \<Rightarrow> string list" where
  "regex_targets rules names = concat (map (\<lambda>name. map snd (filter (\<lambda>(matches, t). matches name) rules)) names)"

definition geosite_categories :: "geo_data_manager option \<Rightarrow> string list \<Rightarrow> string list" where
  "geosite_categories geo names = filter (\<lambda>c. c \<noteq> []) (map (LookupGeoSite geo) names)"

definition rule_policy :: "router \<Rightarrow> string list \<Rightarrow> decision option" where
  "rule_policy r names =
     (case rule_targets (cf_Rules (rt_config r)) names of [] \<Rightarrow> None | t # ts \<Rightarrow> target_policy ''Rule('' t)"

definition regex_policy :: "router \<Rightarrow> string list \<Rightarrow> decision option" where
  "regex_policy r names =
     (case regex_targets (rt_regexRules r) names of [] \<Rightarrow> None | t # ts \<Rightarrow> target_policy ''Rule(Regex/'' t)"

definition geosite_policy :: "router \<Rightarrow> string list \<Rightarrow> decision option" where
  "geosite_policy r names =
     (case geosite_categories (rt_geo r) names of
        [] \<Rightarrow> None
      | c # cs \<Rightarrow> Some (if strings_ToLower c = ''cn'' then AskCN ''GeoSite(CN)'' else AskOverseas ''GeoSite(Overseas)''))"

fun first_decision :: "decision option list \<Rightarrow> decision" where
  "first_decision [] = AskBoth"
| "first_decision (Some d # ds) = d"
| "first_decision (None # ds) = first_decision ds"

definition decide :: "dns_lib \<Rightarrow> router \<Rightarrow> msg \<Rightarrow> string list \<Rightarrow> decision" where
  "decide L r req names =
     first_decision [hosts_policy L r req, rule_policy r names, regex_policy r names, geosite_policy r names]"

fun carry_out :: "router \<Rightarrow> route_sched \<Rightarrow> msg \<Rightarrow> decision \<Rightarrow> routed" where
  "carry_out r s req (AnswerHosts m) = (Some m, ''Hosts'', None)"
| "carry_out r s req (FailHosts e) = (None, ''Hosts'', Some e)"
| "carry_out r s req (AskCN u) = via u (race_cn r s req)"
| "carry_out r s req (AskOverseas u) = via u (race_overseas r s req)"
| "carry_out r s req AskBoth = route_dual r s req"

lemma hosts_policy_override:
  "hosts_policy L r req =
     (case map_of (cf_Hosts (rt_config r)) (route_name req) of
        None \<Rightarrow> None
      | Some ipStr \<Rightarrow>
          (case net_ParseIP ipStr of
             None \<Rightarrow> Some (FailHosts (Errorf (''invalid address in the custom hosts: '' @ ipStr @ '' for ''
                       @ route_name req) []))
           | Some addr \<Rightarrow> map_option AnswerHosts (hostOverrideResponse L req (Some addr))))"
  by (auto simp: hosts_policy_def hostOverrideResponse_def Let_def dns_consts split: option.split list.split)

lemma lookupRule_first: "lookupRule rules names = (case rule_targets rules names of [] \<Rightarrow> None | t # ts \<Rightarrow> Some t)"
  by (induction names) (auto simp: rule_targets_def split: option.split)

lemma lookupRegexRule_first:
  "lookupRegexRule rules names = (case regex_targets rules names of [] \<Rightarrow> None | t # ts \<Rightarrow> Some t)"
proof (induction names)
  case (Cons name names)
  have "find (\<lambda>rr. fst rr name) rules = (case filter (\<lambda>(matches, t). matches name) rules of [] \<Rightarrow> None | rr # rrs \<Rightarrow> Some rr)"
    by (induction rules) (auto simp: case_prod_unfold)
  moreover have "regex_targets rules (name # names) = map snd (filter (\<lambda>(matches, t). matches name) rules) @ regex_targets rules names"
    by (simp add: regex_targets_def)
  ultimately show ?case using Cons by (simp split: list.split)
qed (simp add: regex_targets_def)

lemma lookupGeoSite_first:
  "lookupGeoSite geo names = (case geosite_categories geo names of [] \<Rightarrow> [] | c # cs \<Rightarrow> c)"
  by (induction names) (auto simp: geosite_categories_def Let_def)

lemma geosite_categories_nonempty: "c \<in> set (geosite_categories geo names) \<Longrightarrow> c \<noteq> []"
  by (auto simp: geosite_categories_def)

lemma geosite_categories_cn: "c \<in> set (geosite_categories geo names) \<Longrightarrow> c = ''cn''"
  using LookupGeoSite_cn by (fastforce simp: geosite_categories_def)

lemma ToLower_cn: "strings_ToLower ''cn'' = ''cn''"
  by code_simp

lemma route_geosite_policy:
  "route_geosite r s req names = carry_out r s req (first_decision [geosite_policy r names])"
  using geosite_categories_nonempty [of _ "rt_geo r" names]
  by (auto simp: route_geosite_def geosite_policy_def lookupGeoSite_first split: list.split)

lemma route_regex_policy:
  "route_regex r s req names = carry_out r s req (first_decision [regex_policy r names, geosite_policy r names])"
  by (simp add: route_regex_def regex_policy_def lookupRegexRule_first route_geosite_policy target_policy_def
      split: option.split list.split)

lemma route_rule_policy:
  "route_rule r s req names
     = carry_out r s req (first_decision [rule_policy r names, regex_policy r names, geosite_policy r names])"
  by (simp add: route_rule_def rule_policy_def lookupRule_first route_regex_policy target_policy_def
      split: option.split list.split)

lemma routeInternal_decide:
  "routeInternal L r s req = carry_out r s req (decide L r req (matchNames L (route_name req)))"
  by (simp add: routeInternal_def decide_def hosts_policy_override Let_def route_name_def [symmetric] route_rule_policy
      split: option.split)

lemma decide_clients [simp]:
  "decide L (r\<lparr>rt_cnClients := cs\<rparr>) req names = decide L r req names"
  "decide L (r\<lparr>rt_overseasClients := cs\<rparr>) req names = decide L r req names"
  by (simp_all add: decide_def hosts_policy_def rule_policy_def regex_policy_def geosite_policy_def)

lemma race_other_clients [simp]:
  "race_cn (r\<lparr>rt_overseasClients := cs\<rparr>) s req = race_cn r s req"
  "race_overseas (r\<lparr>rt_cnClients := cs\<rparr>) s req = race_overseas r s req"
  by (simp_all add: race_cn_def race_overseas_def)

subsection \<open>Match names\<close>

definition underscored :: "string \<Rightarrow> bool" where "underscored l = strings_HasPrefix l ''_''"

definition suffix_name :: "string list \<Rightarrow> nat \<Rightarrow> string" where
  "suffix_name labels i = strings_Join (drop i labels) ''.''"

text \<open>How many leading labels may be stripped: the underscored ones, never the last label.\<close>

definition strippable :: "string list \<Rightarrow> nat" where
  "strippable labels = min (length labels - 1) (length (takeWhile underscored labels))"

lemma strings_Join_longer: "ls \<noteq> [] \<Longrightarrow> length (strings_Join ls ''.'') < length (strings_Join (l # ls) ''.'')"
  by (cases ls) simp_all

lemma strings_Join_nonempty: "last ls \<noteq> [] \<Longrightarrow> ls \<noteq> [] \<Longrightarrow> strings_Join ls ''.'' \<noteq> []"
  by (cases ls; cases "tl ls") auto

lemma match_loop_suffixes:
  assumes "ls \<noteq> []" and "last ls \<noteq> []"
    and "\<And>n. n \<in> set names \<Longrightarrow> length (strings_Join ls ''.'') \<le> length n"
  shows "match_loop ls names = names @ map (suffix_name ls) [1..<Suc (strippable ls)]"
  using assms
proof (induction ls names rule: match_loop.induct)
  case (3 l m rest names)
  show ?case
  proof (cases "underscored l")
    case False
    then show ?thesis by (simp add: strippable_def underscored_def)
  next
    case True
    let ?cand = "strings_Join (m # rest) ''.''"
    have longer: "length ?cand < length (strings_Join (l # m # rest) ''.'')"
      by (rule strings_Join_longer) simp
    have ne: "?cand \<noteq> []" using "3.prems"(2) by (intro strings_Join_nonempty) simp_all
    have new: "?cand \<notin> set names" using "3.prems"(3) [of ?cand] longer by fastforce
    have IH: "match_loop (m # rest) (names @ [?cand])
        = (names @ [?cand]) @ map (suffix_name (m # rest)) [1..<Suc (strippable (m # rest))]"
    proof (rule "3.IH"(3))
      fix n assume "n \<in> set (names @ [?cand])"
      then consider "n \<in> set names" | "n = ?cand" by auto
      then show "length ?cand \<le> length n"
      proof cases
        case 1
        from "3.prems"(3) [OF 1] longer show ?thesis by simp
      qed simp
    qed (use True ne new "3.prems"(2) in \<open>simp_all add: underscored_def\<close>)
    have k: "strippable (l # m # rest) = Suc (strippable (m # rest))"
      using True by (simp add: strippable_def)
    have s: "map (suffix_name (m # rest)) [1..<Suc k'] = map (suffix_name (l # m # rest)) [2..<Suc (Suc k')]" for k'
      by (simp add: map_Suc_upt [symmetric] suffix_name_def numeral_2_eq_2 del: upt_Suc)
    have "[1..<Suc (Suc (strippable (m # rest)))] = 1 # [2..<Suc (Suc (strippable (m # rest)))]"
      by (simp add: upt_conv_Cons numeral_2_eq_2 del: upt_Suc)
    moreover have "suffix_name (l # m # rest) (Suc 0) = ?cand" by (simp add: suffix_name_def)
    ultimately show ?thesis
      using True ne new IH s [of "strippable (m # rest)"] unfolding k
      by (simp add: underscored_def del: upt_Suc)
  qed
qed (simp_all add: strippable_def)

lemma strings_HasPrefix_not_eq: "strings_Split s sep = ls \<Longrightarrow> ls \<noteq> []"
  using strings_Split_nonempty by metis

lemma last_Split_nonempty:
  assumes "s \<noteq> []" and "\<not> suffix [c] s"
  shows "last (strings_Split s c) \<noteq> []"
  using assms
proof (induction s)
  case (Cons x s)
  show ?case
  proof (cases "s = []")
    case True
    with Cons.prems show ?thesis by (auto simp: suffix_def)
  next
    case False
    with Cons.prems have "\<not> suffix [c] s" by (auto simp: suffix_Cons)
    with Cons.IH False have "last (strings_Split s c) \<noteq> []" by simp
    then show ?thesis by (cases "strings_Split s c") (auto split: if_splits)
  qed
qed simp

lemma matchNames_labels:
  assumes "labels_documented L" and "name = strings_ToLower (strings_TrimSuffix q ''.'')" and "name \<noteq> []"
    and "CHR 0x5C \<notin> set name" and "\<not> suffix ''.'' name"
  shows "matchNames L q = map (suffix_name (strings_Split name (CHR ''.''))) [0..<Suc (strippable (strings_Split name (CHR ''.'')))]"
proof -
  let ?ls = "strings_Split name (CHR ''.'')"
  have split: "lib_SplitDomainName L name = ?ls"
    using assms by (simp add: labels_documented_def)
  have name: "strings_Join ?ls ''.'' = name" by (rule strings_Join_Split)
  have "match_loop ?ls [name] = [name] @ map (suffix_name ?ls) [1..<Suc (strippable ?ls)]"
    using name last_Split_nonempty [OF assms(3,5)] by (intro match_loop_suffixes) simp_all
  moreover have "map (suffix_name ?ls) [0..<Suc (strippable ?ls)]
      = suffix_name ?ls 0 # map (suffix_name ?ls) [1..<Suc (strippable ?ls)]"
    by (subst upt_conv_Cons) simp_all
  moreover have "suffix_name ?ls 0 = name" using name by (simp add: suffix_name_def)
  ultimately show ?thesis
    using assms(3) split by (simp add: matchNames_def assms(2) [symmetric] del: upt_Suc)
qed

text \<open>The names whose rules apply to a query, best first.\<close>

definition candidate_names :: "string \<Rightarrow> string list" where
  "candidate_names name =
     (if name = [] then []
      else (let labels = strings_Split name (CHR ''.'') in map (suffix_name labels) [0..<Suc (strippable labels)]))"

text \<open>Names as the DNS library hands them over: no escapes, no empty label at the end.\<close>

definition plain_name :: "string \<Rightarrow> bool" where
  "plain_name name \<longleftrightarrow> CHR 0x5C \<notin> set name \<and> \<not> suffix ''.'' name"

lemma matchNames_candidates:
  assumes "labels_documented L" "plain_name (route_name req)"
  shows "matchNames L (route_name req) = candidate_names (route_name req)"
proof -
  have "strings_ToLower (strings_TrimSuffix (route_name req) ''.'') = route_name req"
    using assms(2) by (simp add: plain_name_def strings_TrimSuffix_def)
      (simp add: route_name_def)
  then show ?thesis
    using matchNames_labels [OF assms(1), of "route_name req" "route_name req"] assms(2)
    by (cases "route_name req = []") (simp_all add: candidate_names_def plain_name_def matchNames_def Let_def)
qed

subsection \<open>The documented use of GeoSite\<close>

text \<open>
  The database says under which categories it knows a name. The README documents: a match in
  category CN goes to the domestic group, any other match overseas. The code knows of CN only, so
  the two agree where the database is clear: every candidate name is unknown or in CN, or an
  earlier policy has decided.
\<close>

definition geosite_codes :: "geo_data_manager option \<Rightarrow> string \<Rightarrow> string list" where
  "geosite_codes geo name =
     (case Option.bind geo gm_geosite of None \<Rightarrow> [] | Some lookup \<Rightarrow> map strings_ToLower (lookup name))"

definition documented_geosite :: "router \<Rightarrow> string list \<Rightarrow> decision option" where
  "documented_geosite r names =
     (case filter (\<lambda>codes. codes \<noteq> []) (map (geosite_codes (rt_geo r)) names) of
        [] \<Rightarrow> None
      | codes # others \<Rightarrow> Some (if ''cn'' \<in> set codes then AskCN ''GeoSite(CN)'' else AskOverseas ''GeoSite(Overseas)''))"

definition documented_decision :: "dns_lib \<Rightarrow> router \<Rightarrow> msg \<Rightarrow> string list \<Rightarrow> decision" where
  "documented_decision L r req names =
     first_decision [hosts_policy L r req, rule_policy r names, regex_policy r names, documented_geosite r names]"

definition geosite_clear :: "dns_lib \<Rightarrow> router \<Rightarrow> msg \<Rightarrow> string list \<Rightarrow> bool" where
  "geosite_clear L r req names \<longleftrightarrow>
     (\<forall>name \<in> set names. geosite_codes (rt_geo r) name = [] \<or> ''cn'' \<in> set (geosite_codes (rt_geo r) name))
     \<or> hosts_policy L r req \<noteq> None \<or> rule_policy r names \<noteq> None \<or> regex_policy r names \<noteq> None"

lemma LookupGeoSite_codes: "LookupGeoSite geo name = (if ''cn'' \<in> set (geosite_codes geo name) then ''cn'' else [])"
  by (auto simp: LookupGeoSite_def geosite_codes_def list_ex_iff image_iff eq_commute [of "''cn''"] split: option.split)

lemma documented_geosite_policy:
  assumes "\<forall>name \<in> set names. geosite_codes (rt_geo r) name = [] \<or> ''cn'' \<in> set (geosite_codes (rt_geo r) name)"
  shows "documented_geosite r names = geosite_policy r names"
  using assms
proof (induction names)
  case (Cons name names)
  show ?case
  proof (cases "geosite_codes (rt_geo r) name = []")
    case True
    then show ?thesis
      using Cons by (simp add: documented_geosite_def geosite_policy_def geosite_categories_def LookupGeoSite_codes)
  next
    case False
    with Cons.prems have "''cn'' \<in> set (geosite_codes (rt_geo r) name)" by simp
    with False show ?thesis
      by (simp add: documented_geosite_def geosite_policy_def geosite_categories_def LookupGeoSite_codes ToLower_cn)
  qed
qed (simp add: documented_geosite_def geosite_policy_def geosite_categories_def)

lemma documented_decide:
  "geosite_clear L r req names \<Longrightarrow> documented_decision L r req names = decide L r req names"
  unfolding geosite_clear_def documented_decision_def decide_def
  by (cases "hosts_policy L r req"; cases "rule_policy r names"; cases "regex_policy r names")
    (simp_all add: documented_geosite_policy)

subsection \<open>Service binding queries\<close>

lemma normalize_cases:
  assumes "normalizeServiceBindingNegativeResponse L r s req m u = (m', u')"
  shows "(m' = m \<and> u' = u) \<or>
    (m' = synthesizeNoDataResponse req m \<and> u' = u @ ''/Compat-NODATA'' \<and> Rcode m = RcodeNameError \<and> isServiceBindingQuestion req)"
  using assms
  by (auto simp: normalizeServiceBindingNegativeResponse_def Let_def split: if_splits prod.splits option.splits)

lemma synthesize_rcode [simp]: "Rcode (synthesizeNoDataResponse req m) = RcodeSuccess"
  by (simp add: synthesizeNoDataResponse_def)

lemma success_not_nxdomain [simp]: "RcodeSuccess \<noteq> RcodeNameError" "RcodeNameError \<noteq> RcodeSuccess"
  by (simp_all add: dns_consts)

lemma zero_negative_ttls_frame [simp]:
  "Rcode (zero_negative_ttls m) = Rcode m" "Id (zero_negative_ttls m) = Id m"
  "Question (zero_negative_ttls m) = Question m" "length (Answer (zero_negative_ttls m)) = length (Answer m)"
  by (simp_all add: zero_negative_ttls_def)

lemma zero_ttl_ttl [simp]: "hdr_Ttl (rr_Header (zero_ttl x)) = 0" "hdr_Rrtype (rr_Header (zero_ttl x)) = hdr_Rrtype (rr_Header x)"
  by (simp_all add: zero_ttl_def)

text \<open>A record with its TTL cleared and nothing else changed.\<close>

definition uncached :: "rr \<Rightarrow> rr \<Rightarrow> bool" where
  "uncached x y \<longleftrightarrow> y = set_rr_Header ((rr_Header x)\<lparr>hdr_Ttl := 0\<rparr>) x"

lemma uncached_zero [simp]: "uncached x (zero_ttl x)"
  by (simp add: uncached_def zero_ttl_def)

lemma Route_decided:
  "(fst (fst (Route L r scheds clk req ip logger)) = None)
     = (snd (fst (Route L r scheds clk req ip logger)) \<noteq> None)"
proof (cases "Question req = []")
  case True
  then show ?thesis by (simp add: Route_def)
next
  case False
  show ?thesis
  proof (rule routeInternal_cases [of L r "fst scheds" req])
    fix m u assume "routeInternal L r (fst scheds) req = (Some m, u, None)"
    with False show ?thesis
      by (cases "normalizeServiceBindingNegativeResponse L r (snd scheds) req m u")
        (simp add: Route_response)
  qed (use False in \<open>simp add: Route_error\<close>)
qed

section \<open>Properties\<close>

text \<open>
  C1: The contract of \<open>Route\<close> with the servers: whatever the upstreams, the geodata, the
  configuration and the interleavings, a routed query ends with exactly one of a response and an
  error, so no server ever dereferences a nil response.
\<close>

theorem Route_never_nil_nil:
  "(fst (fst (Route L r scheds clk req ip logger)) = None)
     = (snd (fst (Route L r scheds clk req ip logger)) \<noteq> None)"
  by (rule Route_decided)

text \<open>
  C2: \<open>routeInternal\<close> implements the routing policy: the hosts file decides first, by the full name;
  then the first rule, the first matching regular expression and the first GeoSite category, each
  over the candidate names, which are the name and what is left of it after stripping one, two, ...
  of its leading labels with an underscore; category CN goes to the CN group and any other
  overseas. A rule with another target passes the query on, and a name that none of them knows is
  asked of both groups. The case that the code decides otherwise is excluded: a name that no
  earlier policy decides and that GeoSite knows under other categories only (\<open>geosite_clear\<close>).
\<close>

theorem routeInternal_implements_policy:
  assumes "labels_documented L" "plain_name (route_name req)"
    and "geosite_clear L r req (candidate_names (route_name req))"
  shows "routeInternal L r s req = carry_out r s req (documented_decision L r req (candidate_names (route_name req)))"
  unfolding routeInternal_decide matchNames_candidates [OF assms(1,2)] documented_decide [OF assms(3)] ..

text \<open>
  C31: A rule confines a query to its group: if no hosts entry answers and the first rule over the
  candidate names has the target \<open>overseas\<close>, the result of \<open>Route\<close> is that of the overseas race with
  the TTLs of a negative answer cleared, whatever CN upstreams are configured and whatever they
  would say; the other way round for \<open>cn\<close>. This is for all queries but those for service bindings
  (HTTPS, SVCB), whose existence check for the origin name is routed on its own.
\<close>

theorem rule_confines_query:
  assumes "labels_documented L" "plain_name (route_name req)" "Question req = q # qs" "q_Qtype q \<notin> {TypeHTTPS, TypeSVCB}"
    and "hosts_policy L r req = None"
    and "rule_targets (cf_Rules (rt_config r)) (candidate_names (route_name req)) = target # ts"
  shows "(strings_ToLower target = ''overseas'' \<longrightarrow>
        fst (Route L (r\<lparr>rt_cnClients := cs\<rparr>) scheds clk req ip logger)
          = map_prod (map_option zero_negative_ttls) id (race_overseas r (fst scheds) req))
    \<and> (strings_ToLower target = ''cn'' \<longrightarrow>
        fst (Route L (r\<lparr>rt_overseasClients := cs\<rparr>) scheds clk req ip logger)
          = map_prod (map_option zero_negative_ttls) id (race_cn r (fst scheds) req))"
proof -
  have d: "decide L r req (matchNames L (route_name req)) = the (target_policy ''Rule('' target)"
    if "strings_ToLower target \<in> {''overseas'', ''cn''}"
    using assms(5,6) that unfolding matchNames_candidates [OF assms(1,2)]
    by (auto simp: decide_def rule_policy_def target_policy_def)
  have sb: "\<not> isServiceBindingQuestion req" using assms(3,4) by (simp add: isServiceBindingQuestion_def)
  have R: "fst (Route L r' scheds clk req ip logger) = map_prod (map_option zero_negative_ttls) id res"
    if "routeInternal L r' (fst scheds) req = via u res" "decided res" for r' u res
    using that sb assms(3)
    by (cases res; cases "fst res"; cases "snd res")
      (auto simp: Route_def Let_def via_def decided_def normalizeServiceBindingNegativeResponse_def)
  show ?thesis
  proof (intro conjI impI)
    assume "strings_ToLower target = ''overseas''"
    then have "routeInternal L (r\<lparr>rt_cnClients := cs\<rparr>) (fst scheds) req = via ''Rule(Overseas)'' (race_overseas r (fst scheds) req)"
      using d by (simp add: routeInternal_decide target_policy_def)
    then show "fst (Route L (r\<lparr>rt_cnClients := cs\<rparr>) scheds clk req ip logger)
        = map_prod (map_option zero_negative_ttls) id (race_overseas r (fst scheds) req)" by (rule R) simp
  next
    assume "strings_ToLower target = ''cn''"
    then have "routeInternal L (r\<lparr>rt_overseasClients := cs\<rparr>) (fst scheds) req = via ''Rule(CN)'' (race_cn r (fst scheds) req)"
      using d by (simp add: routeInternal_decide target_policy_def)
    then show "fst (Route L (r\<lparr>rt_overseasClients := cs\<rparr>) scheds clk req ip logger)
        = map_prod (map_option zero_negative_ttls) id (race_cn r (fst scheds) req)" by (rule R) simp
  qed
qed

text \<open>
  C3: Choosing between the two groups for an unclassified name: once both have answered, in
  either order, the outcome is the same; if either gave NOERROR so does the outcome; if both did,
  the CN answer is taken exactly when the overseas answer points into China and the overseas one
  otherwise, so a polluted CN answer never displaces a clean overseas one; and there is no
  response only if neither group has one.
\<close>

theorem dual_query_selection:
  assumes "rs_dual s = [DualArrive x, DualArrive (\<not> x)]"
    and "ov = race_overseas r s req" and "cn = race_cn r s req" and "res = route_dual r s req"
  shows "res = dual_select (rt_geo r) ov cn
    \<and> (is_success ov \<or> is_success cn \<longrightarrow> is_success (fst res, snd (snd res)))
    \<and> (is_success ov \<longrightarrow> is_success cn \<longrightarrow>
        fst res = (case first_address (Answer (the (fst ov))) of
            Some addr \<Rightarrow> if IsCNIP (rt_geo r) addr then fst cn else fst ov
          | None \<Rightarrow> fst ov))
    \<and> (is_success ov \<longrightarrow> \<not> is_success cn \<longrightarrow> fst res = fst ov)
    \<and> (fst res = None \<longleftrightarrow> fst ov = None \<and> fst cn = None)"
proof -
  have sel: "res = dual_select (rt_geo r) ov cn"
    using assms by (cases x) (simp_all add: route_dual_def numeral_2_eq_2)
  have dec: "decided ov" "decided cn" using assms(2,3) by simp_all
  have succ: "is_success y \<longleftrightarrow> snd y = None \<and> fst y \<noteq> None \<and> Rcode (the (fst y)) = RcodeSuccess"
    for y :: "msg result"
    by (cases y rule: is_success.cases) auto
  show ?thesis
    unfolding sel succ dual_select_def Let_def
    using dec by (auto simp: decided_def split: option.splits)
qed

text \<open>
  The candidate names of a query are its own name (lower case, without the final dot) and
  what remains of it after stripping the first, the first two, ... of its leading labels that
  start with an underscore, never the last label; so \<open>_8443._https.example.com\<close> inherits the
  rules of \<open>example.com\<close>, and an ordinary name has no other candidate.
\<close>

theorem matchNames_suffixes:
  assumes "labels_documented L" and "name = strings_ToLower (strings_TrimSuffix q ''.'')" and "name \<noteq> []"
    and "CHR 0x5C \<notin> set name" and "\<not> suffix ''.'' name"
  shows "matchNames L q = map (suffix_name (strings_Split name (CHR ''.'')))
    [0..<Suc (strippable (strings_Split name (CHR ''.'')))]"
  using assms by (rule matchNames_labels)

text \<open>
  C29: Clients are kept from caching a negative answer, and only that. A response of the routing
  that is not NXDOMAIN leaves \<open>Route\<close> as it is. An NXDOMAIN response leaves as NXDOMAIN with the
  same records, in which every TTL is zero except those of the OPT records, which are untouched
  (their TTL field carries the DO bit and the extended code); or, only for a service binding query,
  as NODATA.
\<close>

theorem negative_answers_uncached:
  assumes "fst (Route L r scheds clk req ip logger) = (Some m, err)" and "Question req \<noteq> []"
  shows "\<exists>m0 u. routeInternal L r (fst scheds) req = (Some m0, u, None)
    \<and> (if Rcode m0 \<noteq> RcodeNameError then m = m0
       else if Rcode m = RcodeNameError
       then m\<lparr>Answer := [], Ns := [], Extra := []\<rparr> = m0\<lparr>Answer := [], Ns := [], Extra := []\<rparr>
         \<and> list_all2 uncached (Answer m0) (Answer m) \<and> list_all2 uncached (Ns m0) (Ns m)
         \<and> list_all2 (\<lambda>x y. if hdr_Rrtype (rr_Header x) = TypeOPT then y = x else uncached x y) (Extra m0) (Extra m)
       else q_Qtype (hd (Question req)) \<in> {TypeHTTPS, TypeSVCB} \<and> Rcode m = RcodeSuccess \<and> Answer m = [] \<and> Ns m = [])"
proof (rule routeInternal_cases [of L r "fst scheds" req])
  fix m0 u assume ri: "routeInternal L r (fst scheds) req = (Some m0, u, None)"
  obtain m1 u1 where n: "normalizeServiceBindingNegativeResponse L r (snd scheds) req m0 u = (m1, u1)"
    by (cases "normalizeServiceBindingNegativeResponse L r (snd scheds) req m0 u")
  have m: "m = zero_negative_ttls m1" using assms(1) by (simp add: Route_response [OF assms(2) ri n])
  consider "m1 = m0" | "m1 = synthesizeNoDataResponse req m0" "Rcode m0 = RcodeNameError" "isServiceBindingQuestion req"
    using normalize_cases [OF n] by blast
  then show ?thesis
  proof cases
    case 1
    show ?thesis
    proof (intro exI conjI)
      show "routeInternal L r (fst scheds) req = (Some m0, u, None)" by (rule ri)
    qed (auto simp: m 1 zero_negative_ttls_def list_all2_map2 uncached_zero list_all2_same)
  next
    case 2
    have "q_Qtype (hd (Question req)) \<in> {TypeHTTPS, TypeSVCB}"
      using 2(3) by (auto simp: isServiceBindingQuestion_def Let_def split: if_splits)
    moreover have "m = synthesizeNoDataResponse req m0" by (simp add: m 2(1) zero_negative_ttls_def)
    ultimately show ?thesis using ri 2(2) by (intro exI [of _ m0] exI [of _ u]) (simp add: synthesizeNoDataResponse_def)
  qed
next
  fix u e assume "routeInternal L r (fst scheds) req = (None, u, Some e)"
  with assms show ?thesis by (simp add: Route_error)
qed

text \<open>
  C30: A service binding query (HTTPS or SVCB) whose name does not exist although its origin
  host does is answered NODATA instead of NXDOMAIN, so that clients do not conclude the host is
  gone: NOERROR, empty answer and authority, the question of the request, the identifier of the
  response, OPT records only. If the origin does not resolve, NXDOMAIN stays NXDOMAIN.
\<close>

theorem service_binding_nodata:
  assumes "isServiceBindingQuestion req" and "routeInternal L r (fst scheds) req = (Some m0, u, None)"
    and "Rcode m0 = RcodeNameError" and "matchNames L (q_Name (hd (Question req))) = name # names" and "names \<noteq> []"
    and "check = routeInternal L r (snd scheds) (newExistenceCheckRequest L req (last names))"
    and "fst (Route L r scheds clk req ip logger) = (Some m, err)"
  shows "if is_success (fst check, snd (snd check))
    then Rcode m = RcodeSuccess \<and> Answer m = [] \<and> Ns m = [] \<and> Question m = Question req \<and> Id m = Id m0
      \<and> Extra m = filter (\<lambda>x. hdr_Rrtype (rr_Header x) = TypeOPT) (Extra m0)
    else Rcode m = RcodeNameError \<and> length (Answer m) = length (Answer m0)"
proof -
  have q: "Question req \<noteq> []" using assms(1) by (auto simp: isServiceBindingQuestion_def)
  obtain c v e where check: "check = (c, v, e)" by (cases check) auto
  have n: "normalizeServiceBindingNegativeResponse L r (snd scheds) req m0 u
      = (if is_success (c, e) then (synthesizeNoDataResponse req m0, u @ ''/Compat-NODATA'') else (m0, u))"
  proof -
    have cand: "last (name # names) = last names" "\<not> length (name # names) \<le> 1"
      using assms(5) by (cases names; simp)+
    have ri: "routeInternal L r (snd scheds) (newExistenceCheckRequest L req (last names)) = (c, v, e)"
      using assms(6) check by simp
    have "normalizeServiceBindingNegativeResponse L r (snd scheds) req m0 u
        = (case (c, v, e) of
             (Some checkResp, _, None) \<Rightarrow>
               if Rcode checkResp \<noteq> RcodeSuccess then (m0, u)
               else (synthesizeNoDataResponse req m0, u @ ''/Compat-NODATA'')
           | _ \<Rightarrow> (m0, u))"
      using assms(1,3)
      unfolding normalizeServiceBindingNegativeResponse_def Let_def assms(4) cand(1) ri by (simp only: cand(2)) simp
    then show ?thesis by (cases c; cases e) simp_all
  qed
  have "m = zero_negative_ttls (if is_success (c, e) then synthesizeNoDataResponse req m0 else m0)"
    using assms(7) Route_response [OF q assms(2)] n by (auto split: if_splits)
  then show ?thesis
    using assms(3) unfolding check by (auto simp: synthesizeNoDataResponse_def zero_negative_ttls_def)
qed

text \<open>
  Logging is transparent and complete: the response does not depend on the logger; a disabled
  or nil logger is left alone; and an enabled one gains exactly one entry, the newest of its
  history, that names the client and the question and has status \<open>ERROR\<close> or the response code.
\<close>

theorem Route_logs_once:
  assumes "Question req \<noteq> []"
  shows "fst (Route L r scheds clk req ip logger) = fst (Route L r scheds clk req ip None)
    \<and> (\<not> Enabled logger \<longrightarrow> snd (Route L r scheds clk req ip logger) = logger)
    \<and> (\<forall>l. logger = Some l \<longrightarrow> Enabled logger \<longrightarrow> ring_ok l \<longrightarrow>
        (\<exists>l' e. snd (Route L r scheds clk req ip logger) = Some l'
          \<and> history l' = lastn (nat (maxHistory l)) (history l @ [stamp (nextID l) (snd clk) e])
          \<and> le_ClientIP e = ip \<and> le_Domain e = q_Name (hd (Question req))
          \<and> (le_Status e = ''ERROR'' \<or>
             (\<exists>m. fst (fst (Route L r scheds clk req ip logger)) = Some m \<and> le_Status e = lib_RcodeToString L (Rcode m)))))"
proof -
  obtain m e u where R: "Route L r scheds clk req ip lg = ((map_option zero_negative_ttls m, e),
      if Enabled lg then map_option (AddLog_mem (snd clk) (route_entry L req ip u (fst clk) m e)) lg else lg)"
    and d: "m = None \<longleftrightarrow> e \<noteq> None" for lg
  proof (rule routeInternal_cases [of L r "fst scheds" req])
    fix m0 u assume ri: "routeInternal L r (fst scheds) req = (Some m0, u, None)"
    obtain m1 u1 where "normalizeServiceBindingNegativeResponse L r (snd scheds) req m0 u = (m1, u1)"
      by (cases "normalizeServiceBindingNegativeResponse L r (snd scheds) req m0 u")
    from Route_response [OF assms ri this] show ?thesis using that [of "Some m1" None u1] by simp
  next
    fix u x assume "routeInternal L r (fst scheds) req = (None, u, Some x)"
    from Route_error [OF assms this] show ?thesis using that [of None "Some x" u] by simp
  qed
  let ?e = "route_entry L req ip u (fst clk) m e"
  have add: "history (AddLog_mem (snd clk) ?e l) = lastn (nat (maxHistory l)) (history l @ [stamp (nextID l) (snd clk) ?e])"
    if "Enabled (Some l)" "ring_ok l" for l
    using AddLogs_history [of l "[(snd clk, ?e)]"] that by (simp add: Enabled_def)
  have entry: "le_ClientIP ?e = ip" "le_Domain ?e = q_Name (hd (Question req))"
    "le_Status ?e = (case m of None \<Rightarrow> ''ERROR'' | Some x \<Rightarrow> lib_RcodeToString L (Rcode (zero_negative_ttls x)))"
    using d by (auto simp: route_entry_def split: option.splits)
  show ?thesis
  proof (intro conjI allI impI)
    show "fst (Route L r scheds clk req ip logger) = fst (Route L r scheds clk req ip None)" unfolding R by simp
    show "snd (Route L r scheds clk req ip logger) = logger" if "\<not> Enabled logger" unfolding R using that by simp
    fix l assume l: "logger = Some l" "Enabled logger" "ring_ok l"
    then have "Enabled (Some l)" by simp
    note h = add [OF this l(3)]
    show "\<exists>l' e. snd (Route L r scheds clk req ip logger) = Some l'
          \<and> history l' = lastn (nat (maxHistory l)) (history l @ [stamp (nextID l) (snd clk) e])
          \<and> le_ClientIP e = ip \<and> le_Domain e = q_Name (hd (Question req))
          \<and> (le_Status e = ''ERROR'' \<or>
             (\<exists>m. fst (fst (Route L r scheds clk req ip logger)) = Some m \<and> le_Status e = lib_RcodeToString L (Rcode m)))"
      using l h entry unfolding R
      by (intro exI [of _ "AddLog_mem (snd clk) ?e l"] exI [of _ ?e]) (cases m; simp)
  qed
qed

text \<open>
  An address entry of the hosts file answers A and AAAA queries for its name without any
  upstream: a query for the entry's family gets one record with that address and TTL 60 whatever
  the clients, rules and geodata are, and a query for the other family is not answered from the
  entry but routed on.
\<close>

theorem hosts_answer_locally:
  assumes "reply_documented L" and "Question req = [q]"
    and "map_of (cf_Hosts (rt_config r)) (route_name req) = Some ipStr" and "net_ParseIP ipStr = Some addr"
    and "q_Qtype q = TypeA \<or> q_Qtype q = TypeAAAA"
  shows "if (q_Qtype q = TypeA) = (ip_To4 addr \<noteq> None)
    then \<exists>m. routeInternal L r s req = (Some m, ''Hosts'', None) \<and> Id m = Id req \<and> Rcode m = RcodeSuccess
      \<and> (\<exists>hdr. Answer m = [case ip_To4 addr of Some v4 \<Rightarrow> RR_A hdr (Some v4) | None \<Rightarrow> RR_AAAA hdr (Some addr)]
           \<and> hdr_Name hdr = q_Name q \<and> hdr_Rrtype hdr = q_Qtype q \<and> hdr_Ttl hdr = 60)
    else routeInternal L r s req = route_rule r s req (matchNames L (route_name req))"
proof -
  have ri: "routeInternal L r s req =
      (case hostOverrideResponse L req (Some addr) of
         Some resp \<Rightarrow> (Some resp, ''Hosts'', None)
       | None \<Rightarrow> route_rule r s req (matchNames L (route_name req)))"
    by (simp add: routeInternal_def Let_def route_name_def [symmetric] assms(3,4))
  have rep: "Id (lib_SetReply L req) = Id req" "Rcode (lib_SetReply L req) = RcodeSuccess" "Answer (lib_SetReply L req) = []"
    using assms(1) by (simp_all add: reply_documented_def)
  have types: "TypeA \<noteq> TypeANY" "TypeAAAA \<noteq> TypeANY" "TypeA \<noteq> TypeAAAA" by (simp_all add: dns_consts)
  show ?thesis
  proof (cases "ip_To4 addr")
    case None
    then show ?thesis
      using assms(5) types unfolding ri by (elim disjE) (simp_all add: hostOverrideResponse_def Let_def assms(2) rep)
  next
    case (Some v4)
    then show ?thesis
      using assms(5) types unfolding ri by (elim disjE) (simp_all add: hostOverrideResponse_def Let_def assms(2) rep)
  qed
qed

section \<open>Witnesses\<close>

definition sample_request :: "string \<Rightarrow> 16 word \<Rightarrow> msg" where
  "sample_request n t = blank_msg\<lparr>Id := 7, Question := [\<lparr>q_Name = n, q_Qtype = t, q_Qclass = ClassINET\<rparr>]\<rparr>"

definition sample_header :: "string \<Rightarrow> rr_header" where
  "sample_header n = \<lparr>hdr_Name = n, hdr_Rrtype = 6, hdr_Class = ClassINET, hdr_Ttl = 300\<rparr>"

definition sample_nx :: msg where
  "sample_nx = blank_msg\<lparr>Id := 7, Rcode := RcodeNameError, Ns := [RR_Other (sample_header ''example.com.'') []],
     Extra := [RR_OPT (sample_opt_header 1232 True) []]\<rparr>"

text \<open>The CN upstream knows no names; the overseas one answers everything.\<close>

definition sample_router :: router where
  "sample_router =
     \<lparr>rt_config = sample_config\<lparr>cf_Hosts := [(''example.com'', ''1.2.3.4'')], cf_Rules := [(''example.com'', ''cn''), (''b.org'', ''overseas'')]\<rparr>,
      rt_geo = None, rt_cnClients = [\<lambda>req. (Some sample_nx, None)], rt_overseasClients = [\<lambda>req. (Some sample_ok, None)],
      rt_cnStats = [], rt_overseasStats = [], rt_regexRules = []\<rparr>"

definition sample_sched :: route_sched where
  "sample_sched = \<lparr>rs_cn = [Arrive 0], rs_overseas = [Arrive 0], rs_dual = [DualArrive False, DualArrive True]\<rparr>"

lemma sample_races:
  "race_cn sample_router sample_sched req = (Some sample_nx, None)"
  "race_overseas sample_router sample_sched req = (Some sample_ok, None)"
  by (simp_all add: race_cn_def race_overseas_def sample_router_def sample_sched_def RaceResolve_def
      sample_nx_def sample_ok_def blank_msg_def dns_consts del: race_loop_Arrive add: race_loop.simps(4))

lemma sample_hosts: "cf_Hosts (rt_config sample_router) = [(''example.com'', ''1.2.3.4'')]"
  "cf_Rules (rt_config sample_router) = [(''example.com'', ''cn''), (''b.org'', ''overseas'')]"
  "rt_geo sample_router = None" "rt_regexRules sample_router = []"
  by (simp_all add: sample_router_def)

lemma sample_names:
  "route_name (sample_request ''b.org.'' t) = ''b.org''"
  "route_name (sample_request ''example.com.'' t) = ''example.com''"
  "route_name (sample_request ''_443._https.example.com.'' t) = ''_443._https.example.com''"
  by (simp_all add: route_name_def sample_request_def) code_simp+

lemma sample_match:
  "matchNames sample_lib ''b.org'' = [''b.org'']" "matchNames sample_lib ''example.com'' = [''example.com'']"
  "matchNames sample_lib ''_443._https.example.com'' = [''_443._https.example.com'', ''_https.example.com'', ''example.com'']"
  "matchNames sample_lib ''_443._https.example.com.'' = [''_443._https.example.com'', ''_https.example.com'', ''example.com'']"
  by code_simp+

lemma sample_plain: "plain_name ''b.org''" "plain_name ''example.com''" "plain_name ''_443._https.example.com''"
  by code_simp+

text \<open>The name inherits the rule of \<open>example.com\<close>.\<close>

theorem routeInternal_implements_policy_witness:
  "routeInternal sample_lib sample_router sample_sched (sample_request ''_443._https.example.com.'' TypeA)
     = (Some sample_nx, ''Rule(CN)'', None)"
proof -
  let ?req = "sample_request ''_443._https.example.com.'' TypeA"
  have c: "candidate_names ''_443._https.example.com'' = [''_443._https.example.com'', ''_https.example.com'', ''example.com'']"
    by code_simp
  have h: "hosts_policy sample_lib sample_router ?req = None" by (simp add: hosts_policy_def sample_names sample_hosts)
  have g: "geosite_clear sample_lib sample_router ?req names" for names
    by (simp add: geosite_clear_def geosite_codes_def sample_hosts)
  show ?thesis
    using routeInternal_implements_policy [OF sample_labels_documented, of ?req sample_router sample_sched] sample_plain
    by (simp add: sample_names c g documented_decision_def h rule_policy_def rule_targets_def sample_hosts target_policy_def ToLower_cn via_def sample_races)
qed

theorem rule_confines_query_witness:
  "fst (Route sample_lib (sample_router\<lparr>rt_cnClients := []\<rparr>) (sample_sched, sample_sched) (3, 9)
      (sample_request ''b.org.'' TypeA) ''10.0.0.1'' None) = (Some (zero_negative_ttls sample_ok), None)"
proof -
  let ?req = "sample_request ''b.org.'' TypeA"
  have h: "hosts_policy sample_lib sample_router ?req = None"
    by (simp add: hosts_policy_def sample_names sample_hosts)
  have "candidate_names ''b.org'' = [''b.org'']" by code_simp
  then have rl: "rule_targets (cf_Rules (rt_config sample_router)) (candidate_names (route_name ?req)) = [''overseas'']"
    by (simp add: sample_names sample_hosts rule_targets_def)
  have lower: "strings_ToLower ''overseas'' = ''overseas''" by code_simp
  have q: "Question ?req = [\<lparr>q_Name = ''b.org.'', q_Qtype = TypeA, q_Qclass = ClassINET\<rparr>]" by (simp add: sample_request_def)
  show ?thesis
    using rule_confines_query [OF sample_labels_documented _ q _ h rl, of "[]" "(sample_sched, sample_sched)" "(3, 9)" "''10.0.0.1''" None]
      sample_plain
    by (simp add: lower sample_races sample_names dns_consts)
qed

theorem dual_query_selection_witness:
  "fst (route_dual sample_router sample_sched (sample_request ''c.net.'' TypeA)) = Some sample_ok"
proof -
  have d: "rs_dual sample_sched = [DualArrive False, DualArrive (\<not> False)]" by (simp add: sample_sched_def)
  have "is_success (Some sample_ok, None)" "\<not> is_success (Some sample_nx, None)"
    by (simp_all add: sample_ok_def sample_nx_def blank_msg_def dns_consts)
  then show ?thesis
    using dual_query_selection [OF d refl refl refl, of sample_router "sample_request ''c.net.'' TypeA",
        THEN conjunct2, THEN conjunct2, THEN conjunct2, THEN conjunct1]
    by (simp add: sample_races)
qed

theorem matchNames_suffixes_witness:
  "matchNames sample_lib ''_443._https.example.com.'' = [''_443._https.example.com'', ''_https.example.com'', ''example.com'']"
proof -
  have n: "''_443._https.example.com'' = strings_ToLower (strings_TrimSuffix ''_443._https.example.com.'' ''.'')"
    by code_simp
  have "CHR 0x5C \<notin> set ''_443._https.example.com''" "\<not> suffix ''.'' ''_443._https.example.com''" by code_simp+
  from matchNames_suffixes [OF sample_labels_documented n _ this]
  have "matchNames sample_lib ''_443._https.example.com.'' = map (suffix_name (strings_Split ''_443._https.example.com'' (CHR ''.'')))
    [0..<Suc (strippable (strings_Split ''_443._https.example.com'' (CHR ''.'')))]" by simp
  also have "\<dots> = [''_443._https.example.com'', ''_https.example.com'', ''example.com'']" by code_simp
  finally show ?thesis .
qed

text \<open>An HTTPS query below a name the hosts file knows: the CN upstream denies it.\<close>

definition sample_https :: msg where
  "sample_https = sample_request ''_443._https.example.com.'' TypeHTTPS"

lemma sample_https_denied:
  "routeInternal sample_lib sample_router sample_sched sample_https = (Some sample_nx, ''Rule(CN)'', None)"
  by (simp add: routeInternal_decide decide_def hosts_policy_override rule_policy_def rule_targets_def target_policy_def Let_def sample_https_def
      sample_names sample_match sample_hosts ToLower_cn via_def sample_races)

lemma sample_origin:
  "\<exists>m. routeInternal sample_lib sample_router sample_sched (newExistenceCheckRequest sample_lib sample_https ''example.com'')
     = (Some m, ''Hosts'', None) \<and> Rcode m = RcodeSuccess"
proof -
  let ?req = "newExistenceCheckRequest sample_lib sample_https ''example.com''"
  have q: "Question ?req = [\<lparr>q_Name = ''example.com.'', q_Qtype = TypeA, q_Qclass = ClassINET\<rparr>]"
    by (simp add: newExistenceCheckRequest_def sample_lib_def sample_https_def sample_request_def blank_msg_def Let_def
        suffix_def split: option.split)
  have n: "route_name ?req = ''example.com''"
    using sample_names(2) [of TypeA] q by (simp add: route_name_def sample_request_def)
  have ip: "net_ParseIP ''1.2.3.4'' = Some (v4_in_v6_prefix @ [1, 2, 3, 4])" by code_simp
  have v4: "ip_To4 (v4_in_v6_prefix @ [1, 2, 3, 4]) = Some [1, 2, 3, 4]" by (simp add: ip_To4_def v4_in_v6_prefix_def)
  have rep: "Rcode (lib_SetReply sample_lib ?req) = RcodeSuccess"
    using sample_reply_documented by (simp add: reply_documented_def)
  have types: "TypeA \<noteq> TypeANY" "TypeA \<noteq> TypeAAAA" by (simp_all add: dns_consts)
  show ?thesis
    by (simp add: routeInternal_decide decide_def hosts_policy_def n sample_hosts ip hostOverrideResponse_def Let_def q v4
        types rep)
qed

theorem service_binding_nodata_witness:
  "\<exists>m. fst (Route sample_lib sample_router (sample_sched, sample_sched) (3, 9) sample_https ''10.0.0.1'' None) = (Some m, None)
     \<and> Rcode m = RcodeSuccess \<and> Question m = Question sample_https"
proof -
  obtain c where c: "routeInternal sample_lib sample_router sample_sched
      (newExistenceCheckRequest sample_lib sample_https ''example.com'') = (Some c, ''Hosts'', None)" "Rcode c = RcodeSuccess"
    using sample_origin by blast
  have nx: "Rcode sample_nx = RcodeNameError" by (simp add: sample_nx_def)
  have sb: "isServiceBindingQuestion sample_https"
    by (simp add: isServiceBindingQuestion_def sample_https_def sample_request_def)
  have qn: "Question sample_https \<noteq> []" "q_Name (hd (Question sample_https)) = ''_443._https.example.com.''"
    by (simp_all add: sample_https_def sample_request_def)
  obtain m1 u1 where n: "normalizeServiceBindingNegativeResponse sample_lib sample_router sample_sched sample_https
      sample_nx ''Rule(CN)'' = (m1, u1)"
    by (cases "normalizeServiceBindingNegativeResponse sample_lib sample_router sample_sched sample_https
      sample_nx ''Rule(CN)''")
  have r: "fst (Route sample_lib sample_router (sample_sched, sample_sched) (3, 9) sample_https ''10.0.0.1'' None)
      = (Some (zero_negative_ttls m1), None)"
    using Route_response [OF qn(1), of sample_lib sample_router "(sample_sched, sample_sched)"] sample_https_denied n by simp
  have "Rcode (zero_negative_ttls m1) = RcodeSuccess \<and> Question (zero_negative_ttls m1) = Question sample_https"
    using service_binding_nodata [of sample_https sample_lib sample_router "(sample_sched, sample_sched)" sample_nx
        "''Rule(CN)''" "''_443._https.example.com''" "[''_https.example.com'', ''example.com'']", OF sb _ nx _ _ refl r]
      sample_https_denied qn(2) sample_match(4) c by simp
  with r show ?thesis by blast
qed

theorem negative_answers_uncached_witness:
  "\<exists>m. fst (Route sample_lib (sample_router\<lparr>rt_config := sample_config\<lparr>cf_Hosts := [], cf_Rules := [(''example.com'', ''cn'')]\<rparr>\<rparr>)
      (sample_sched, sample_sched) (3, 9) (sample_request ''example.com.'' TypeA) ''10.0.0.1'' None) = (Some m, None)
    \<and> Rcode m = RcodeNameError \<and> (\<exists>x. Ns m = [x] \<and> hdr_Ttl (rr_Header x) = 0) \<and> Extra m = Extra sample_nx"
proof -
  let ?r = "sample_router\<lparr>rt_config := sample_config\<lparr>cf_Hosts := [], cf_Rules := [(''example.com'', ''cn'')]\<rparr>\<rparr>"
  let ?req = "sample_request ''example.com.'' TypeA"
  have races: "race_cn ?r sample_sched ?req = (Some sample_nx, None)"
    using sample_races(1) [of ?req] by (simp add: race_cn_def sample_router_def)
  have ri: "routeInternal sample_lib ?r sample_sched ?req = (Some sample_nx, ''Rule(CN)'', None)"
    using races by (simp add: routeInternal_decide decide_def hosts_policy_override rule_policy_def rule_targets_def target_policy_def Let_def
        sample_names sample_match ToLower_cn via_def)
  have q: "Question ?req \<noteq> []" by (simp add: sample_request_def)
  have "normalizeServiceBindingNegativeResponse sample_lib ?r sample_sched ?req sample_nx ''Rule(CN)'' = (sample_nx, ''Rule(CN)'')"
    by (simp add: normalizeServiceBindingNegativeResponse_def isServiceBindingQuestion_def sample_request_def dns_consts)
  with Route_response [OF q, of sample_lib ?r "(sample_sched, sample_sched)" sample_nx "''Rule(CN)''"] ri
  have r: "fst (Route sample_lib ?r (sample_sched, sample_sched) (3, 9) ?req ''10.0.0.1'' None) = (Some (zero_negative_ttls sample_nx), None)"
    by simp
  have nx: "Rcode (zero_negative_ttls sample_nx) = RcodeNameError" "Rcode sample_nx = RcodeNameError"
    "Ns sample_nx = [RR_Other (sample_header ''example.com.'') []]" "Extra sample_nx = [RR_OPT (sample_opt_header 1232 True) []]"
    by (simp_all add: sample_nx_def)
  from negative_answers_uncached [OF r q] ri nx
  have "list_all2 uncached [RR_Other (sample_header ''example.com.'') []] (Ns (zero_negative_ttls sample_nx))"
    "list_all2 (\<lambda>x y. if hdr_Rrtype (rr_Header x) = TypeOPT then y = x else uncached x y)
       [RR_OPT (sample_opt_header 1232 True) []] (Extra (zero_negative_ttls sample_nx))" by simp_all
  then show ?thesis using r nx
    by (intro exI [of _ "zero_negative_ttls sample_nx"])
      (auto simp: list_all2_Cons1 uncached_def sample_header_def sample_opt_header_def)
qed

theorem Route_logs_once_witness:
  "\<exists>l'. snd (Route sample_lib sample_router (sample_sched, sample_sched) (3, 9) sample_https ''10.0.0.1'' (Some sample_logger)) = Some l'
     \<and> length (history l') = 1"
proof -
  have q: "Question sample_https \<noteq> []" by (simp add: sample_https_def sample_request_def)
  have en: "Enabled (Some sample_logger)" using sample_ring by (simp add: Enabled_def)
  have h: "history sample_logger = []" "maxHistory sample_logger = 2" by (simp_all add: sample_logger_def)
  from Route_logs_once [OF q, of sample_lib sample_router "(sample_sched, sample_sched)" "(3, 9)" "''10.0.0.1''" "Some sample_logger"]
    en sample_ring(1)
  obtain l' e where "snd (Route sample_lib sample_router (sample_sched, sample_sched) (3, 9) sample_https ''10.0.0.1'' (Some sample_logger)) = Some l'"
    "history l' = lastn (nat (maxHistory sample_logger)) (history sample_logger @ [stamp (nextID sample_logger) 9 e])"
    by auto
  with h show ?thesis by (auto simp del: length_history)
qed

theorem hosts_answer_locally_witness:
  "\<exists>m. routeInternal sample_lib sample_router sample_sched (sample_request ''example.com.'' TypeA) = (Some m, ''Hosts'', None)
     \<and> Rcode m = RcodeSuccess"
proof -
  let ?req = "sample_request ''example.com.'' TypeA"
  have q: "Question ?req = [\<lparr>q_Name = ''example.com.'', q_Qtype = TypeA, q_Qclass = ClassINET\<rparr>]"
    by (simp add: sample_request_def)
  have h: "map_of (cf_Hosts (rt_config sample_router)) (route_name ?req) = Some ''1.2.3.4''"
    by (simp add: sample_names sample_hosts)
  have ip: "net_ParseIP ''1.2.3.4'' = Some (v4_in_v6_prefix @ [1, 2, 3, 4])" by code_simp
  have v4: "ip_To4 (v4_in_v6_prefix @ [1, 2, 3, 4]) \<noteq> None" by (simp add: ip_To4_def v4_in_v6_prefix_def)
  show ?thesis
    using hosts_answer_locally [OF sample_reply_documented q h ip, of sample_sched] v4 by auto
qed

section \<open>Observations\<close>

text \<open>
  GeoSite only ever classifies a name as \<open>cn\<close>: the branch of \<open>routeInternal\<close> that sends a
  GeoSite match overseas is unreachable.
\<close>

fun asks_geosite_overseas :: "decision \<Rightarrow> bool" where
  "asks_geosite_overseas (AskCN u) = (u = ''GeoSite(Overseas)'')"
| "asks_geosite_overseas (AskOverseas u) = (u = ''GeoSite(Overseas)'')"
| "asks_geosite_overseas d = False"

lemma carry_out_label:
  "\<not> asks_geosite_overseas d \<Longrightarrow> fst (snd (carry_out r s req d)) \<noteq> ''GeoSite(Overseas)''"
proof (induction d)
  case AskBoth
  show ?case by (auto simp: route_dual_def dual_select_def Let_def split: sum.splits option.splits)
qed (simp_all add: via_def)

lemma first_decision_label:
  "list_all (\<lambda>d. \<forall>x. d = Some x \<longrightarrow> \<not> asks_geosite_overseas x) ds \<Longrightarrow> \<not> asks_geosite_overseas (first_decision ds)"
  by (induction ds rule: first_decision.induct) auto

lemma geosite_never_overseas: "fst (snd (routeInternal L r s req)) \<noteq> ''GeoSite(Overseas)''"
proof -
  have target: "\<not> asks_geosite_overseas x" if "target_policy label t = Some x" "label = ''Rule('' \<or> label = ''Rule(Regex/''" for label t x
    using that by (auto simp: target_policy_def split: if_splits)
  have geo: "\<not> asks_geosite_overseas x" if "geosite_policy r names = Some x" for names x
  proof (cases "geosite_categories (rt_geo r) names")
    case Nil
    with that show ?thesis by (simp add: geosite_policy_def)
  next
    case (Cons c cs)
    then have "c = ''cn''" using geosite_categories_cn [of c "rt_geo r" names] by simp
    with Cons that have "x = AskCN ''GeoSite(CN)''" by (simp add: geosite_policy_def ToLower_cn)
    then show ?thesis by simp
  qed
  have hosts: "hosts_policy L r req = Some x \<Longrightarrow> \<not> asks_geosite_overseas x" for x
    by (auto simp: hosts_policy_override split: option.splits)
  have rules: "\<not> asks_geosite_overseas x" if "rule_policy r names = Some x \<or> regex_policy r names = Some x" for names x
    using that target by (cases "rule_targets (cf_Rules (rt_config r)) names"; cases "regex_targets (rt_regexRules r) names")
      (fastforce simp: rule_policy_def regex_policy_def)+
  have "\<not> asks_geosite_overseas (decide L r req names)" for names
    unfolding decide_def by (intro first_decision_label) (use hosts geo rules in \<open>simp; blast\<close>)
  then show ?thesis unfolding routeInternal_decide by (rule carry_out_label)
qed

text \<open>A query answered by the overseas group as a fallback is counted as a CN query.\<close>

lemma fallback_overseas_counts_as_cn: "strings_Contains ''GeoIP(CN/Fallback-Overseas)'' ''CN''"
  by code_simp

end
