(* ===== verification/Clients.thy ===== *)
theory Clients
  imports Dns_Msg Ecs Upstream Go_Files
begin

text \<open>
  The protocol clients of \<open>internal/client\<close> without the connection pool: \<open>udp.go\<close>, the one-shot
  paths and the address resolution of \<open>tcp.go\<close> and \<open>dot.go\<close>, \<open>doh.go\<close> and \<open>doq.go\<close>. The
  network is a parameter: what the bootstrapper answers for a host, what an exchange, an HTTP
  request or a QUIC stream brings back. So are the wire format (\<open>Pack\<close>, \<open>Unpack\<close>) and
  \<open>net/url\<close>.
\<close>

section \<open>Wire format and framing\<close>

record wire_lib =
  wl_Pack :: "msg \<Rightarrow> goerr + string"
  wl_Unpack :: "string \<Rightarrow> goerr + msg"

text \<open>\<open>binary.BigEndian\<close> on two bytes; \<open>uint16(len)\<close> wraps.\<close>

definition put_uint16 :: "16 word \<Rightarrow> string" where
  "put_uint16 w = [char_of (unat w div 256), char_of (unat w mod 256)]"

definition get_uint16 :: "string \<Rightarrow> 16 word" where
  "get_uint16 s = of_nat (byte (s ! 0) * 256 + byte (s ! 1))"

definition uint16_len :: "string \<Rightarrow> 16 word" where "uint16_len s = of_nat (length s)"

text \<open>A stream that is read: the bytes the peer has sent and what ends them.\<close>

definition err_eof :: goerr where "err_eof = Errorf ''EOF'' []"
definition err_unexpected_eof :: goerr where "err_unexpected_eof = Errorf ''unexpected EOF'' []"

definition io_ReadFull :: "nat \<Rightarrow> string \<times> goerr option \<Rightarrow> goerr + string \<times> (string \<times> goerr option)" where
  "io_ReadFull n s =
     (if n \<le> length (fst s) then Inr (take n (fst s), (drop n (fst s), snd s))
      else (case snd s of
        Some e \<Rightarrow> Inl e
      | None \<Rightarrow> Inl (if fst s = [] then err_eof else err_unexpected_eof)))"

lemma get_put_uint16: "get_uint16 (put_uint16 w @ s) = w"
proof -
  have "unat w < 2 ^ LENGTH(16)" by (rule unsigned_less)
  then have "unat w div 256 < 256" by simp
  then have "byte (char_of (unat w div 256)) * 256 + byte (char_of (unat w mod 256)) = unat w"
    by (simp add: byte_def)
  then show ?thesis by (simp only: get_uint16_def put_uint16_def append_Cons nth_Cons_0 One_nat_def nth_Cons_Suc) simp
qed

lemma length_put_uint16 [simp]: "length (put_uint16 w) = 2"
  by (simp add: put_uint16_def)

lemma unat_uint16_len: "length s < 65536 \<Longrightarrow> unat (uint16_len s) = length s"
  by (simp add: uint16_len_def unat_of_nat)

text \<open>A frame: the length in two bytes, then the message.\<close>

definition frame :: "string \<Rightarrow> string" where
  "frame b = put_uint16 (uint16_len b) @ b"

definition read_frame :: "string \<times> goerr option \<Rightarrow> goerr + string" where
  "read_frame s =
     (case io_ReadFull 2 s of
        Inl e \<Rightarrow> Inl e
      | Inr (lenBytes, s') \<Rightarrow> map_sum id fst (io_ReadFull (unat (get_uint16 lenBytes)) s'))"

lemma read_frame_frame: "length b < 65536 \<Longrightarrow> read_frame (frame b @ rest, e) = Inr b"
proof -
  assume b: "length b < 65536"
  have "get_uint16 (put_uint16 (uint16_len b)) = uint16_len b" using get_put_uint16 [of _ "[]"] by simp
  with b show ?thesis by (simp add: read_frame_def io_ReadFull_def frame_def unat_uint16_len)
qed

section \<open>Addresses\<close>

definition err_address :: goerr where "err_address = Errorf ''missing port or malformed address'' []"

definition invalid_address :: "string \<Rightarrow> goerr" where
  "invalid_address a = Wrapf (''invalid address '' @ a) err_address"

text \<open>\<open>TCPClient.resolveAddr\<close>.\<close>

definition tcp_resolveAddr :: "(string \<Rightarrow> goerr + string) \<Rightarrow> upstream_server \<Rightarrow> goerr + string" where
  "tcp_resolveAddr lookup cfg =
     (case (case net_SplitHostPort (us_Address cfg) of
              Some hp \<Rightarrow> Some hp
            | None \<Rightarrow> net_SplitHostPort (net_JoinHostPort (us_Address cfg) ''53'')) of
        None \<Rightarrow> Inl (invalid_address (us_Address cfg))
      | Some (host, port) \<Rightarrow>
          (case lookup host of
             Inl e \<Rightarrow> Inl (Wrapf ''bootstrap failed'' e)
           | Inr x \<Rightarrow> Inr (net_JoinHostPort x port)))"

text \<open>\<open>DoTClient.prepare\<close>: the address and the server name of the TLS configuration.\<close>

definition dot_prepare :: "(string \<Rightarrow> goerr + string) \<Rightarrow> upstream_server \<Rightarrow> goerr + string \<times> string" where
  "dot_prepare lookup cfg =
     (let raw0 = strings_TrimPrefix (us_Address cfg) ''tls://'';
          rawAddr = (if net_SplitHostPort raw0 = None then net_JoinHostPort raw0 ''853'' else raw0)
      in case net_SplitHostPort rawAddr of
           None \<Rightarrow> Inl (invalid_address (us_Address cfg))
         | Some (host, port) \<Rightarrow>
             (case lookup host of
                Inl e \<Rightarrow> Inl (Wrapf ''bootstrap failed'' e)
              | Inr x \<Rightarrow> Inr (net_JoinHostPort x port, host)))"

text \<open>The address part of \<open>DoQClient.Resolve\<close>.\<close>

definition doq_address :: "(string \<Rightarrow> goerr + string) \<Rightarrow> upstream_server \<Rightarrow> goerr + string \<times> string" where
  "doq_address lookup cfg =
     (let addrStr = strings_TrimPrefix (us_Address cfg) ''quic://'' in
      case (case net_SplitHostPort addrStr of
              Some hp \<Rightarrow> Some hp
            | None \<Rightarrow> net_SplitHostPort (net_JoinHostPort addrStr ''853'')) of
        None \<Rightarrow> Inl (invalid_address (us_Address cfg))
      | Some (host, port) \<Rightarrow>
          (case lookup host of
             Inl e \<Rightarrow> Inl e
           | Inr x \<Rightarrow> Inr (net_JoinHostPort x port, host)))"

section \<open>Plain exchanges\<close>

text \<open>\<open>ExchangeContext\<close> of a \<open>dns.Client\<close>: by transport and, for TLS, server name; address; query.\<close>

datatype transport = Net_udp | Net_tcp | Net_tcp_tls string bool

type_synonym exchange = "transport \<Rightarrow> string \<Rightarrow> msg \<Rightarrow> msg result"

definition udp_Resolve ::
  "dns_lib \<Rightarrow> (string \<Rightarrow> goerr + string) \<Rightarrow> exchange \<Rightarrow> upstream_server \<Rightarrow> dns_client" where
  "udp_Resolve L lookup exch cfg req =
     (case (case net_SplitHostPort (us_Address cfg) of
              Some hp \<Rightarrow> Some hp
            | None \<Rightarrow> net_SplitHostPort (net_JoinHostPort (us_Address cfg) ''53'')) of
        None \<Rightarrow> (None, Some (invalid_address (us_Address cfg)))
      | Some (host, port) \<Rightarrow>
          (case lookup host of
             Inl e \<Rightarrow> (None, Some (Wrapf (''bootstrap failed for '' @ host) e))
           | Inr x \<Rightarrow>
               (case exch Net_udp (net_JoinHostPort x port) (ensureECS L req (us_ECSIP cfg)) of
                  (_, Some e) \<Rightarrow> (None, Some (Wrapf ''UDP query failed'' e))
                | (None, None) \<Rightarrow> (None, Some (Errorf ''UDP query without response'' []))
                | (Some resp, None) \<Rightarrow> (Some resp, None))))"

definition tcp_resolveOneshot ::
  "(string \<Rightarrow> goerr + string) \<Rightarrow> exchange \<Rightarrow> upstream_server \<Rightarrow> dns_client" where
  "tcp_resolveOneshot lookup exch cfg req =
     (case tcp_resolveAddr lookup cfg of
        Inl e \<Rightarrow> (None, Some e)
      | Inr addr \<Rightarrow>
          (case exch Net_tcp addr req of
             (_, Some e) \<Rightarrow> (None, Some (Wrapf ''TCP query failed'' e))
           | (resp, None) \<Rightarrow> (resp, None)))"

definition dot_resolveOneshot ::
  "(string \<Rightarrow> goerr + string) \<Rightarrow> exchange \<Rightarrow> upstream_server \<Rightarrow> dns_client" where
  "dot_resolveOneshot lookup exch cfg req =
     (case dot_prepare lookup cfg of
        Inl e \<Rightarrow> (None, Some e)
      | Inr (addr, serverName) \<Rightarrow>
          (case exch (Net_tcp_tls serverName (us_InsecureSkipVerify cfg)) addr req of
             (_, Some e) \<Rightarrow> (None, Some (Wrapf ''DoT query failed'' e))
           | (resp, None) \<Rightarrow> (resp, None)))"

text \<open>\<open>Resolve\<close> of both; the pipelined way is an argument, the step relation of the theory \<open>Pool\<close>.\<close>

definition tcp_Resolve ::
  "dns_lib \<Rightarrow> (string \<Rightarrow> goerr + string) \<Rightarrow> exchange \<Rightarrow> dns_client \<Rightarrow> upstream_server \<Rightarrow> dns_client" where
  "tcp_Resolve L lookup exch pipeline cfg req =
     (let req' = ensureECS L req (us_ECSIP cfg) in
      if us_EnablePipeline cfg then pipeline req' else tcp_resolveOneshot lookup exch cfg req')"

definition dot_Resolve ::
  "dns_lib \<Rightarrow> (string \<Rightarrow> goerr + string) \<Rightarrow> exchange \<Rightarrow> dns_client \<Rightarrow> upstream_server \<Rightarrow> dns_client" where
  "dot_Resolve L lookup exch pipeline cfg req =
     (let req' = ensureECS L req (us_ECSIP cfg) in
      if us_EnablePipeline cfg then pipeline req' else dot_resolveOneshot lookup exch cfg req')"

section \<open>DNS over HTTPS\<close>

text \<open>
  \<open>net/url\<close>: \<open>ul_Parse\<close> is the \<open>Path\<close> of the parsed URL, \<open>ul_WithPath\<close> the URL's \<open>String()\<close> after
  the path has been set. \<open>net/http\<close>: whether a request can be made for a URL, and what sending a
  body to it brings back.
\<close>

record url_lib =
  ul_Parse :: "string \<Rightarrow> goerr + string"
  ul_WithPath :: "string \<Rightarrow> string \<Rightarrow> string"

record http_response =
  StatusCode :: int
  Body :: "string \<times> goerr option"

record http_lib =
  hl_NewRequest :: "string \<Rightarrow> goerr option"
  hl_Do :: "string \<Rightarrow> string \<Rightarrow> goerr + http_response"

definition doh_url :: "url_lib \<Rightarrow> string \<Rightarrow> string" where
  "doh_url U address =
     (let urlStr = (if \<not> strings_HasPrefix address ''https://'' \<and> \<not> strings_HasPrefix address ''http://''
                    then ''https://'' @ address else address)
      in case ul_Parse U urlStr of
           Inr path \<Rightarrow> if path = [] \<or> path = ''/'' then ul_WithPath U urlStr ''/dns-query'' else urlStr
         | Inl e \<Rightarrow>
             if strings_Index (strings_TrimPrefix urlStr ''https://'') ''/'' = None
             then urlStr @ ''/dns-query'' else urlStr)"

definition doh_Resolve ::
  "dns_lib \<Rightarrow> wire_lib \<Rightarrow> url_lib \<Rightarrow> http_lib \<Rightarrow> upstream_server \<Rightarrow> dns_client" where
  "doh_Resolve L W U H cfg req =
     (case wl_Pack W (ensureECS L req (us_ECSIP cfg)) of
        Inl e \<Rightarrow> (None, Some (Wrapf ''packing the DNS message failed'' e))
      | Inr msgBuf \<Rightarrow>
          (let urlStr = doh_url U (us_Address cfg) in
           case hl_NewRequest H urlStr of
             Some e \<Rightarrow> (None, Some (Wrapf ''creating the HTTP request failed'' e))
           | None \<Rightarrow>
               (case hl_Do H urlStr msgBuf of
                  Inl e \<Rightarrow> (None, Some (Wrapf ''DoH HTTP request failed'' e))
                | Inr resp \<Rightarrow>
                    if StatusCode resp \<noteq> 200
                    then (None, Some (Errorf (''DoH status '' @ strconv_Itoa (StatusCode resp) @ '': '' @ fst (Body resp)) []))
                    else
                      (case Body resp of
                         (_, Some e) \<Rightarrow> (None, Some (Wrapf ''reading the DoH body failed'' e))
                       | (respBody, None) \<Rightarrow>
                           (case wl_Unpack W respBody of
                              Inl e \<Rightarrow> (None, Some (Wrapf ''unpacking the DoH response failed'' e))
                            | Inr responseMsg \<Rightarrow> (Some responseMsg, None))))))"

text \<open>
  The addresses the transports of the HTTP client dial for \<open>addr\<close>, HTTP/3 and HTTP/2, and the
  shared QUIC transport: its socket is opened once, and a failure to open it is remembered.
\<close>

definition doh_h3_dial :: "(string \<Rightarrow> goerr + string) \<Rightarrow> string \<Rightarrow> goerr + string" where
  "doh_h3_dial lookup addr =
     (case net_SplitHostPort addr of
        None \<Rightarrow> Inl err_address
      | Some (host, port) \<Rightarrow>
          (case lookup host of
             Inl e \<Rightarrow> Inl (Wrapf ''H3 bootstrap failed'' e)
           | Inr x \<Rightarrow> Inr (net_JoinHostPort x port)))"

definition doh_dial :: "(string \<Rightarrow> goerr + string) \<Rightarrow> string \<Rightarrow> goerr + string" where
  "doh_dial lookup addr =
     (case net_SplitHostPort addr of
        None \<Rightarrow> Inl err_address
      | Some (host, port) \<Rightarrow> map_sum id (\<lambda>x. net_JoinHostPort x port) (lookup host))"

definition getOrCreateQUICTransport :: "goerr option \<Rightarrow> goerr option option \<Rightarrow> goerr option option \<times> goerr option" where
  "getOrCreateQUICTransport listen once =
     (let once' = (case once of None \<Rightarrow> Some listen | Some r \<Rightarrow> Some r) in (once', Option.bind once' id))"

text \<open>The resources \<open>Close\<close> releases, each at most once for all calls (\<open>closeOnce\<close>).\<close>

record doh_state =
  dh_http3 :: bool
  dh_quic :: bool
  dh_udp :: bool
  dh_closed :: bool

text \<open>Arguments: what closing the HTTP/3 transport, the QUIC transport and the socket return.\<close>

definition doh_Close ::
  "goerr option \<Rightarrow> goerr option \<Rightarrow> goerr option \<Rightarrow> doh_state \<Rightarrow> doh_state \<times> goerr option" where
  "doh_Close e3 eq eu s =
     (if dh_closed s then (s, None)
      else
        (let first = (\<lambda>old present e. if present \<and> old = None then e else old) in
         (s\<lparr>dh_closed := True\<rparr>,
          first (first (first None (dh_http3 s) e3) (dh_quic s) eq) (dh_udp s) eu)))"

section \<open>DNS over QUIC\<close>

text \<open>
  The network of one query: dialing, opening the stream, the two writes, and what the peer sends
  back for the bytes written.
\<close>

record quic_net =
  qn_dial :: "string \<Rightarrow> string \<Rightarrow> bool \<Rightarrow> goerr option"
  qn_open :: "goerr option"
  qn_write_length :: "goerr option"
  qn_write_body :: "goerr option"
  qn_reply :: "string \<Rightarrow> string \<times> goerr option"

definition doq_read_response :: "wire_lib \<Rightarrow> 16 word \<Rightarrow> string \<times> goerr option \<Rightarrow> msg result" where
  "doq_read_response W originalID s =
     (case io_ReadFull 2 s of
        Inl e \<Rightarrow> (None, Some (Wrapf ''reading the DoQ response length failed'' e))
      | Inr (lengthBytes, s') \<Rightarrow>
          (case io_ReadFull (unat (get_uint16 lengthBytes)) s' of
             Inl e \<Rightarrow> (None, Some (Wrapf ''reading the DoQ response failed'' e))
           | Inr (respBuf, _) \<Rightarrow>
               (case wl_Unpack W respBuf of
                  Inl e \<Rightarrow> (None, Some (Wrapf ''unpacking the DoQ response failed'' e))
                | Inr responseMsg \<Rightarrow> (Some (responseMsg\<lparr>Id := originalID\<rparr>), None))))"

definition doq_Resolve ::
  "dns_lib \<Rightarrow> wire_lib \<Rightarrow> (string \<Rightarrow> goerr + string) \<Rightarrow> quic_net \<Rightarrow> upstream_server \<Rightarrow> dns_client" where
  "doq_Resolve L W lookup Q cfg req0 =
     (let req = ensureECS L req0 (us_ECSIP cfg);
          originalID = Id req;
          wireReq = req\<lparr>Id := 0\<rparr>
      in case wl_Pack W wireReq of
           Inl e \<Rightarrow> (None, Some (Wrapf ''packing the DNS message failed'' e))
         | Inr msgBuf \<Rightarrow>
             (case doq_address lookup cfg of
                Inl e \<Rightarrow> (None, Some e)
              | Inr (targetAddr, host) \<Rightarrow>
                  (case qn_dial Q targetAddr host (us_InsecureSkipVerify cfg) of
                     Some e \<Rightarrow> (None, Some (Wrapf ''QUIC connection failed'' e))
                   | None \<Rightarrow>
                       (case qn_open Q of
                          Some e \<Rightarrow> (None, Some (Wrapf ''opening the QUIC stream failed'' e))
                        | None \<Rightarrow>
                            (case qn_write_length Q of
                               Some e \<Rightarrow> (None, Some (Wrapf ''writing the DNS message length failed'' e))
                             | None \<Rightarrow>
                                 (case qn_write_body Q of
                                    Some e \<Rightarrow> (None, Some (Wrapf ''writing the DNS message failed'' e))
                                  | None \<Rightarrow>
                                      doq_read_response W originalID
                                        (qn_reply Q (put_uint16 (uint16_len msgBuf) @ msgBuf))))))))"

section \<open>Lemmas\<close>

definition one_outcome :: "msg result \<Rightarrow> bool" where
  "one_outcome r \<longleftrightarrow> (fst r = None) \<noteq> (snd r = None)"

lemma one_outcome_simps [simp]: "one_outcome (Some m, None)" "one_outcome (None, Some e)"
  by (simp_all add: one_outcome_def)

lemma ensureECS_Id: "edns0_documented L \<Longrightarrow> Id (ensureECS L req ecs) = Id req"
  unfolding ensureECS_def edns0_documented_def Let_def
  by (auto split: option.splits) (metis msg.select_convs(1) msg.surjective msg.update_convs(11))+

text \<open>Characters that may not appear in a host name or address of the configuration.\<close>

definition plain_host :: "string \<Rightarrow> bool" where
  "plain_host h \<longleftrightarrow> CHR ''['' \<notin> set h \<and> CHR '']'' \<notin> set h"

definition plain_port :: "string \<Rightarrow> bool" where
  "plain_port p \<longleftrightarrow> CHR '':'' \<notin> set p \<and> CHR ''['' \<notin> set p \<and> CHR '']'' \<notin> set p"

lemma split_join [simp]: "plain_host h \<Longrightarrow> plain_port p \<Longrightarrow> net_SplitHostPort (net_JoinHostPort h p) = Some (h, p)"
  by (simp add: plain_host_def plain_port_def net_SplitHostPort_JoinHostPort)

lemma plain_default_ports [simp]: "plain_port ''53''" "plain_port ''853''"
  by (simp_all add: plain_port_def)

text \<open>A configured address: a host with a port, or a host alone (which does not split).\<close>

definition written_address :: "string \<Rightarrow> string option \<Rightarrow> string" where
  "written_address h port = (case port of Some p \<Rightarrow> net_JoinHostPort h p | None \<Rightarrow> h)"

definition address_ok :: "string \<Rightarrow> string option \<Rightarrow> bool" where
  "address_ok h port \<longleftrightarrow> plain_host h \<and>
     (case port of Some p \<Rightarrow> plain_port p | None \<Rightarrow> net_SplitHostPort h = None)"

section \<open>Properties\<close>

text \<open>
  An upstream address is dialed at the address the bootstrapper gives for its host and at its
  port, or at the default port of the protocol (53 for TCP, 853 for DoT and DoQ) if it has none,
  for host names, IPv4 and IPv6 addresses alike; TLS is done with the host's name; and a failed
  lookup is reported. The scheme prefixes of DoT and DoQ are optional.
\<close>

theorem upstream_addresses:
  assumes "address_ok h port" and "us_Address cfg = written_address h port"
    and "us_Address cfgT = ''tls://'' @ written_address h port \<or>
         us_Address cfgT = written_address h port \<and> \<not> prefix ''tls://'' (written_address h port)"
    and "us_Address cfgQ = ''quic://'' @ written_address h port \<or>
         us_Address cfgQ = written_address h port \<and> \<not> prefix ''quic://'' (written_address h port)"
  shows "case lookup h of
      Inl e \<Rightarrow> tcp_resolveAddr lookup cfg = Inl (Wrapf ''bootstrap failed'' e)
        \<and> dot_prepare lookup cfgT = Inl (Wrapf ''bootstrap failed'' e) \<and> doq_address lookup cfgQ = Inl e
    | Inr x \<Rightarrow>
        tcp_resolveAddr lookup cfg = Inr (net_JoinHostPort x (case port of Some p \<Rightarrow> p | None \<Rightarrow> ''53''))
        \<and> dot_prepare lookup cfgT = Inr (net_JoinHostPort x (case port of Some p \<Rightarrow> p | None \<Rightarrow> ''853''), h)
        \<and> doq_address lookup cfgQ = Inr (net_JoinHostPort x (case port of Some p \<Rightarrow> p | None \<Rightarrow> ''853''), h)"
proof -
  have trim: "strings_TrimPrefix (us_Address cfgT) ''tls://'' = written_address h port"
    "strings_TrimPrefix (us_Address cfgQ) ''quic://'' = written_address h port"
    using assms(3,4) by (auto simp: strings_TrimPrefix_def)
  show ?thesis
    using assms(1,2) trim
    by (cases port; cases "lookup h")
      (simp_all add: address_ok_def written_address_def tcp_resolveAddr_def dot_prepare_def doq_address_def Let_def)
qed

text \<open>
  Every client returns exactly one of a response and an error, if an exchange of the DNS
  library without an error has a response (UDP checks even that).
\<close>

theorem clients_one_outcome:
  assumes "\<forall>t a m. snd (exch t a m) = None \<longrightarrow> fst (exch t a m) \<noteq> None" and "\<forall>m. one_outcome (pipeline m)"
  shows "one_outcome (udp_Resolve L lookup exch cfg req)
    \<and> one_outcome (tcp_Resolve L lookup exch pipeline cfg req)
    \<and> one_outcome (dot_Resolve L lookup exch pipeline cfg req)
    \<and> one_outcome (doh_Resolve L W U H cfg req) \<and> one_outcome (doq_Resolve L W lookup Q cfg req)"
proof (intro conjI)
  show "one_outcome (udp_Resolve L lookup exch cfg req)"
    by (auto simp: udp_Resolve_def split: option.splits sum.splits prod.splits)
  have tcp: "one_outcome (tcp_resolveOneshot lookup exch cfg m)" "one_outcome (dot_resolveOneshot lookup exch cfg m)" for m
    using assms(1)
    by (auto simp: tcp_resolveOneshot_def dot_resolveOneshot_def one_outcome_def
        split: option.splits sum.splits prod.splits) (metis fst_conv option.distinct(1) snd_conv)+
  then show "one_outcome (tcp_Resolve L lookup exch pipeline cfg req)"
    "one_outcome (dot_Resolve L lookup exch pipeline cfg req)"
    using assms(2) by (simp_all add: tcp_Resolve_def dot_Resolve_def Let_def)
  show "one_outcome (doh_Resolve L W U H cfg req)"
    by (auto simp: doh_Resolve_def Let_def split: option.splits sum.splits prod.splits)
  have "one_outcome (doq_read_response W i s)" for i s
    by (auto simp: doq_read_response_def split: option.splits sum.splits prod.splits)
  then show "one_outcome (doq_Resolve L W lookup Q cfg req)"
    by (auto simp: doq_Resolve_def Let_def split: option.splits sum.splits prod.splits)
qed

text \<open>
  A DoH answer is exactly a decodable body of a response with status 200 to the packed
  request, posted to the configured URL.
\<close>

theorem doh_answer_iff:
  "fst (doh_Resolve L W U H cfg req) = Some m \<longleftrightarrow>
     (\<exists>b resp body. wl_Pack W (ensureECS L req (us_ECSIP cfg)) = Inr b
        \<and> hl_NewRequest H (doh_url U (us_Address cfg)) = None
        \<and> hl_Do H (doh_url U (us_Address cfg)) b = Inr resp \<and> StatusCode resp = 200
        \<and> Body resp = (body, None) \<and> wl_Unpack W body = Inr m)"
  by (auto simp: doh_Resolve_def Let_def split: option.splits sum.splits prod.splits)

section \<open>Witnesses\<close>

definition sample_upstream :: "string \<Rightarrow> upstream_server" where
  "sample_upstream a = \<lparr>us_Address = a, us_Protocol = ''dot'', us_ECSIP = [], us_EnablePipeline = False,
     us_EnableH3 = False, us_InsecureSkipVerify = False\<rparr>"

text \<open>A wire format for two messages and an error for all others.\<close>

definition sample_wire :: "msg \<Rightarrow> msg \<Rightarrow> wire_lib" where
  "sample_wire m1 m2 = \<lparr>
     wl_Pack = \<lambda>m. if m = m1 then Inr ''q'' else if m = m2 then Inr ''r'' else Inl (Errorf ''pack'' []),
     wl_Unpack = \<lambda>s. if s = ''q'' then Inr m1 else if s = ''r'' then Inr m2 else Inl (Errorf ''unpack'' [])\<rparr>"

lemma sample_wire_length: "wl_Pack (sample_wire m1 m2) m = Inr b \<Longrightarrow> length b = 1"
  by (auto simp: sample_wire_def split: if_splits)

theorem upstream_addresses_witness:
  "tcp_resolveAddr (\<lambda>_. Inr ''2001:db8::1'') (sample_upstream ''dns.example'') = Inr ''[2001:db8::1]:53''
   \<and> dot_prepare (\<lambda>_. Inr ''2001:db8::1'') (sample_upstream ''tls://dns.example'') = Inr (''[2001:db8::1]:853'', ''dns.example'')"
proof -
  have ok: "address_ok ''dns.example'' None" by code_simp
  have j: "net_JoinHostPort ''2001:db8::1'' ''53'' = ''[2001:db8::1]:53''"
    "net_JoinHostPort ''2001:db8::1'' ''853'' = ''[2001:db8::1]:853''" by code_simp+
  have a: "us_Address (sample_upstream s) = s" for s by (simp add: sample_upstream_def)
  have w: "written_address ''dns.example'' None = ''dns.example''" by (simp add: written_address_def)
  show ?thesis
    using upstream_addresses [OF ok, of "sample_upstream ''dns.example''" "sample_upstream ''tls://dns.example''"
        "sample_upstream ''quic://dns.example''" "\<lambda>_. Inr ''2001:db8::1''"]
    by (simp add: a w j)
qed

theorem clients_one_outcome_witness:
  "one_outcome (tcp_Resolve sample_lib (\<lambda>_. Inr ''1.1.1.1'') (\<lambda>t a m. (Some m, None)) (\<lambda>m. (Some m, None))
     (sample_upstream ''dns.example'') blank_msg)"
  using clients_one_outcome [of "\<lambda>t a m. (Some m, None)" "\<lambda>m. (Some m, None)" sample_lib "\<lambda>_. Inr ''1.1.1.1''"
      "sample_upstream ''dns.example''" blank_msg] by simp

end
