(* ===== verification/Pool.thy ===== *)
theory Pool
  imports Clients
begin

text \<open>
  The connection pool of the pipelined TCP and DoT clients (\<open>internal/client/tcp.go\<close>, \<open>dot.go\<close>):
  a channel of ten slots, each empty or an idle connection, the calls of \<open>Resolve\<close> that borrow a
  slot, and \<open>Close\<close>, as interleaved atomic steps. The two files differ in how a connection is
  dialed only, so the model has the dialing as a parameter. Connections are numbered in the order
  they are opened.
\<close>

section \<open>State\<close>

datatype pool_call =
    Waiting msg
  | Borrowed msg "nat option"
  | Deferred "nat option"
  | Putting "nat option"
  | Done

text \<open>
  \<open>pl_pool\<close> is \<open>None\<close> for a nil channel, \<open>pl_closers\<close> the number of \<open>Close\<close> loops under way;
  \<open>pl_open\<close> are the open connections, \<open>pl_drained\<close> counts the slots \<open>Close\<close> has taken and
  \<open>pl_results\<close> records what calls have returned for which request.
\<close>

record pool_state =
  pl_pool :: "nat option list option"
  pl_calls :: "pool_call list"
  pl_closed :: bool
  pl_closers :: nat
  pl_open :: "nat list"
  pl_next :: nat
  pl_drained :: nat
  pl_results :: "(msg \<times> msg result) list"

definition pool_new :: pool_state where
  "pool_new = \<lparr>pl_pool = None, pl_calls = [], pl_closed = False, pl_closers = 0, pl_open = [], pl_next = 0,
     pl_drained = 0, pl_results = []\<rparr>"

section \<open>One exchange on a borrowed slot\<close>

text \<open>
  What the network answers during one call: for each of the two possible dials the bootstrapper
  and the connection attempt, the two writes and the read.
\<close>

record attempt =
  at_lookup :: "string \<Rightarrow> goerr + string"
  at_dial :: "transport \<Rightarrow> string \<Rightarrow> goerr option"

record net_answers =
  na_first :: attempt
  na_write1 :: "goerr option"
  na_second :: attempt
  na_write2 :: "goerr option"
  na_read :: "goerr + msg"

text \<open>\<open>dialConn\<close> of the two clients: \<open>None\<close> is success.\<close>

definition tcp_dialConn :: "upstream_server \<Rightarrow> attempt \<Rightarrow> goerr option" where
  "tcp_dialConn cfg a =
     (case tcp_resolveAddr (at_lookup a) cfg of
        Inl e \<Rightarrow> Some e
      | Inr addr \<Rightarrow> at_dial a Net_tcp addr)"

definition dot_dialConn :: "upstream_server \<Rightarrow> attempt \<Rightarrow> goerr option" where
  "dot_dialConn cfg a =
     (case dot_prepare (at_lookup a) cfg of
        Inl e \<Rightarrow> Some e
      | Inr (addr, host) \<Rightarrow> at_dial a (Net_tcp_tls host (us_InsecureSkipVerify cfg)) addr)"

text \<open>
  The body of \<open>resolvePipeline\<close> from the borrowed slot on: the connection the deferred function
  finds, the open connections, the next connection number and the result.
\<close>

definition dial_slot :: "goerr option \<Rightarrow> nat list \<times> nat \<Rightarrow> (nat option \<times> goerr option) \<times> nat list \<times> nat" where
  "dial_slot r on = (case r of
     Some e \<Rightarrow> ((None, Some e), on)
   | None \<Rightarrow> ((Some (snd on), None), (snd on # fst on, Suc (snd on))))"

definition read_response :: "net_answers \<Rightarrow> msg \<Rightarrow> nat \<Rightarrow> nat list \<times> nat \<Rightarrow> (nat option \<times> msg result) \<times> nat list \<times> nat" where
  "read_response ans req conn on =
     (case na_read ans of
        Inl e \<Rightarrow> ((None, (None, Some (Wrapf ''read failed'' e))), (remove1 conn (fst on), snd on))
      | Inr resp \<Rightarrow>
          if Id resp \<noteq> Id req
          then ((None, (None, Some (Errorf ''ID mismatch'' []))), (remove1 conn (fst on), snd on))
          else ((Some conn, (Some resp, None)), on))"

definition write_and_read ::
  "(attempt \<Rightarrow> goerr option) \<Rightarrow> net_answers \<Rightarrow> msg \<Rightarrow> nat \<Rightarrow> nat list \<times> nat
     \<Rightarrow> (nat option \<times> msg result) \<times> nat list \<times> nat" where
  "write_and_read dialConn ans req conn on =
     (case na_write1 ans of
        None \<Rightarrow> read_response ans req conn on
      | Some e \<Rightarrow>
          (case dial_slot (dialConn (na_second ans)) (remove1 conn (fst on), snd on) of
             ((None, e), on') \<Rightarrow> ((None, (None, map_option (Wrapf ''reconnect failed'') e)), on')
           | ((Some conn', e), on') \<Rightarrow>
               (case na_write2 ans of
                  Some e2 \<Rightarrow> ((None, (None, Some (Wrapf ''write failed'' e2))), (remove1 conn' (fst on'), snd on'))
                | None \<Rightarrow> read_response ans req conn' on')))"

definition pipeline_body ::
  "(attempt \<Rightarrow> goerr option) \<Rightarrow> net_answers \<Rightarrow> msg \<Rightarrow> nat option \<Rightarrow> nat list \<times> nat
     \<Rightarrow> (nat option \<times> msg result) \<times> nat list \<times> nat" where
  "pipeline_body dialConn ans req slot on =
     (case slot of
        Some conn \<Rightarrow> write_and_read dialConn ans req conn on
      | None \<Rightarrow>
          (case dial_slot (dialConn (na_first ans)) on of
             ((None, e), on') \<Rightarrow> ((None, (None, e)), on')
           | ((Some conn, e), on') \<Rightarrow> write_and_read dialConn ans req conn on'))"

section \<open>Steps\<close>

definition initPool :: "pool_state \<Rightarrow> pool_state" where
  "initPool s = (if pl_pool s = None then s\<lparr>pl_pool := Some (replicate 10 None)\<rparr> else s)"

definition pool_enter :: "msg \<Rightarrow> pool_state \<Rightarrow> pool_state" where
  "pool_enter req s = (initPool s)\<lparr>pl_calls := pl_calls s @ [Waiting req]\<rparr>"

definition pool_cancelled :: "nat \<Rightarrow> msg \<Rightarrow> goerr \<Rightarrow> pool_state \<Rightarrow> pool_state" where
  "pool_cancelled i req e s =
     s\<lparr>pl_calls := (pl_calls s)[i := Done], pl_results := pl_results s @ [(req, (None, Some e))]\<rparr>"

definition pool_take :: "nat \<Rightarrow> msg \<Rightarrow> nat option \<Rightarrow> nat option list \<Rightarrow> pool_state \<Rightarrow> pool_state" where
  "pool_take i req slot rest s = s\<lparr>pl_pool := Some rest, pl_calls := (pl_calls s)[i := Borrowed req slot]\<rparr>"

definition pool_exchange ::
  "(attempt \<Rightarrow> goerr option) \<Rightarrow> net_answers \<Rightarrow> nat \<Rightarrow> msg \<Rightarrow> nat option \<Rightarrow> pool_state \<Rightarrow> pool_state" where
  "pool_exchange dialConn ans i req slot s =
     (case pipeline_body dialConn ans req slot (pl_open s, pl_next s) of
        ((conn, result), (opn, nxt)) \<Rightarrow>
          s\<lparr>pl_calls := (pl_calls s)[i := Deferred conn], pl_open := opn, pl_next := nxt,
            pl_results := pl_results s @ [(req, result)]\<rparr>)"

text \<open>The deferred function: the check of \<open>closed\<close>, and putting the slot back.\<close>

definition pool_deferred :: "nat \<Rightarrow> nat option \<Rightarrow> pool_state \<Rightarrow> pool_state" where
  "pool_deferred i conn s =
     (case conn of
        Some c \<Rightarrow>
          if pl_closed s
          then s\<lparr>pl_calls := (pl_calls s)[i := Putting None], pl_open := remove1 c (pl_open s)\<rparr>
          else s\<lparr>pl_calls := (pl_calls s)[i := Putting conn]\<rparr>
      | None \<Rightarrow> s\<lparr>pl_calls := (pl_calls s)[i := Putting None]\<rparr>)"

definition pool_put :: "nat \<Rightarrow> nat option \<Rightarrow> nat option list \<Rightarrow> pool_state \<Rightarrow> pool_state" where
  "pool_put i conn slots s =
     (if length slots < 10
      then s\<lparr>pl_calls := (pl_calls s)[i := Done], pl_pool := Some (slots @ [conn])\<rparr>
      else (case conn of
        Some c \<Rightarrow> s\<lparr>pl_calls := (pl_calls s)[i := Done], pl_open := remove1 c (pl_open s)\<rparr>
      | None \<Rightarrow> s\<lparr>pl_calls := (pl_calls s)[i := Done]\<rparr>))"

text \<open>\<open>Close\<close>: the flag and the test for a nil channel; one round of its loop; its end.\<close>

definition pool_close :: "pool_state \<Rightarrow> pool_state" where
  "pool_close s =
     s\<lparr>pl_closed := True, pl_closers := (if pl_pool s = None then pl_closers s else Suc (pl_closers s))\<rparr>"

definition pool_drain :: "nat option \<Rightarrow> nat option list \<Rightarrow> pool_state \<Rightarrow> pool_state" where
  "pool_drain slot rest s =
     (let s' = s\<lparr>pl_pool := Some rest, pl_drained := Suc (pl_drained s)\<rparr> in
      case slot of None \<Rightarrow> s' | Some c \<Rightarrow> s'\<lparr>pl_open := remove1 c (pl_open s)\<rparr>)"

inductive pstep :: "(attempt \<Rightarrow> goerr option) \<Rightarrow> pool_state \<Rightarrow> pool_state \<Rightarrow> bool" for dialConn where
  enter: "pstep dialConn s (pool_enter req s)"
| cancelled: "i < length (pl_calls s) \<Longrightarrow> pl_calls s ! i = Waiting req \<Longrightarrow> pstep dialConn s (pool_cancelled i req e s)"
| acquire: "i < length (pl_calls s) \<Longrightarrow> pl_calls s ! i = Waiting req \<Longrightarrow> pl_pool s = Some (slot # rest) \<Longrightarrow>
    pstep dialConn s (pool_take i req slot rest s)"
| exchange: "i < length (pl_calls s) \<Longrightarrow> pl_calls s ! i = Borrowed req slot \<Longrightarrow>
    pstep dialConn s (pool_exchange dialConn ans i req slot s)"
| deferred: "i < length (pl_calls s) \<Longrightarrow> pl_calls s ! i = Deferred conn \<Longrightarrow> pstep dialConn s (pool_deferred i conn s)"
| put: "i < length (pl_calls s) \<Longrightarrow> pl_calls s ! i = Putting conn \<Longrightarrow> pl_pool s = Some slots \<Longrightarrow>
    pstep dialConn s (pool_put i conn slots s)"
| close: "pstep dialConn s (pool_close s)"
| drain: "0 < pl_closers s \<Longrightarrow> pl_pool s = Some (slot # rest) \<Longrightarrow> pstep dialConn s (pool_drain slot rest s)"
| drained: "0 < pl_closers s \<Longrightarrow> pl_pool s = Some [] \<Longrightarrow> pstep dialConn s (s\<lparr>pl_closers := pl_closers s - 1\<rparr>)"

text \<open>The two clients.\<close>

definition tcp_pool_step :: "upstream_server \<Rightarrow> pool_state \<Rightarrow> pool_state \<Rightarrow> bool" where
  "tcp_pool_step cfg = pstep (tcp_dialConn cfg)"

definition dot_pool_step :: "upstream_server \<Rightarrow> pool_state \<Rightarrow> pool_state \<Rightarrow> bool" where
  "dot_pool_step cfg = pstep (dot_dialConn cfg)"

section \<open>Ownership during an exchange\<close>

definition conns :: "nat option multiset \<Rightarrow> nat multiset" where
  "conns M = image_mset the (filter_mset (\<lambda>x. x \<noteq> None) M)"

lemma conns_simps [simp]:
  "conns {#} = {#}" "conns (add_mset None M) = conns M" "conns (add_mset (Some c) M) = add_mset c (conns M)"
  "conns (M + N) = conns M + conns N"
  by (simp_all add: conns_def)

text \<open>The open connections are the one in the borrowed slot, if any, and the others \<open>R\<close>.\<close>

definition owns :: "nat multiset \<Rightarrow> nat option \<Rightarrow> nat list \<times> nat \<Rightarrow> bool" where
  "owns R slot on \<longleftrightarrow> mset (fst on) = conns {#slot#} + R \<and> distinct (fst on) \<and> (\<forall>c \<in> set (fst on). c < snd on)"

lemma owns_closed: "owns R (Some c) on \<Longrightarrow> owns R None (remove1 c (fst on), snd on)"
  by (auto simp: owns_def dest: set_remove1_subset [THEN subsetD])

lemma owns_dialed: "owns R None on \<Longrightarrow> owns R (Some (snd on)) (snd on # fst on, Suc (snd on))"
  by (fastforce simp: owns_def)

definition result_ok :: "msg \<Rightarrow> msg result \<Rightarrow> bool" where
  "result_ok req r \<longleftrightarrow> one_outcome r \<and> (\<forall>m. fst r = Some m \<longrightarrow> Id m = Id req)"

text \<open>The outcome of the body: the deferred function finds what the call owns.\<close>

definition body_ok :: "nat multiset \<Rightarrow> msg \<Rightarrow> (nat option \<times> msg result) \<times> nat list \<times> nat \<Rightarrow> bool" where
  "body_ok R req x \<longleftrightarrow> owns R (fst (fst x)) (snd x) \<and> result_ok req (snd (fst x))"

lemma read_response_ok: "owns R (Some c) on \<Longrightarrow> body_ok R req (read_response ans req c on)"
  by (auto simp: read_response_def body_ok_def result_ok_def owns_closed split: sum.splits)

lemma dial_slot_cases:
  assumes "owns R None on"
  obtains e where "dial_slot r on = ((None, Some e), on)" "r = Some e"
  | c on' where "dial_slot r on = ((Some c, None), on')" "owns R (Some c) on'" "r = None"
  using assms owns_dialed [of R on] by (cases r) (auto simp: dial_slot_def)

lemma write_and_read_ok:
  assumes "owns R (Some c) on"
  shows "body_ok R req (write_and_read dialConn ans req c on)"
proof (cases "na_write1 ans")
  case None
  with assms show ?thesis by (simp add: write_and_read_def read_response_ok)
next
  case (Some e)
  from owns_closed [OF assms] show ?thesis
  proof (cases rule: dial_slot_cases [of R _ "dialConn (na_second ans)"])
    case (1 e')
    with Some owns_closed [OF assms] show ?thesis
      by (simp add: write_and_read_def body_ok_def result_ok_def)
  next
    case (2 c' on')
    have eq: "write_and_read dialConn ans req c on = (case na_write2 ans of
          Some e2 \<Rightarrow> ((None, (None, Some (Wrapf ''write failed'' e2))), (remove1 c' (fst on'), snd on'))
        | None \<Rightarrow> read_response ans req c' on')"
      by (simp add: write_and_read_def Some 2(1))
    show ?thesis
    proof (cases "na_write2 ans")
      case None
      with read_response_ok [OF 2(2)] show ?thesis by (simp only: eq option.case)
    next
      case (Some e2)
      with owns_closed [OF 2(2)] show ?thesis unfolding eq by (simp add: body_ok_def result_ok_def)
    qed
  qed
qed

lemma pipeline_body_ok:
  assumes "owns R slot on"
  shows "body_ok R req (pipeline_body dialConn ans req slot on)"
proof (cases slot)
  case (Some c)
  with assms show ?thesis by (simp add: pipeline_body_def write_and_read_ok)
next
  case None
  with assms have "owns R None on" by simp
  then show ?thesis
  proof (cases rule: dial_slot_cases [of R _ "dialConn (na_first ans)"])
    case (1 e)
    with None assms show ?thesis by (simp add: pipeline_body_def body_ok_def result_ok_def)
  next
    case (2 c on')
    with None show ?thesis by (simp add: pipeline_body_def write_and_read_ok)
  qed
qed

section \<open>Invariant\<close>

definition slots :: "pool_state \<Rightarrow> nat option list" where
  "slots s = (case pl_pool s of None \<Rightarrow> [] | Some q \<Rightarrow> q)"

fun call_slot :: "pool_call \<Rightarrow> nat option list" where
  "call_slot (Borrowed _ c) = [c]"
| "call_slot (Deferred c) = [c]"
| "call_slot (Putting c) = [c]"
| "call_slot _ = []"

definition borrowed :: "pool_state \<Rightarrow> nat option multiset" where
  "borrowed s = mset (concat (map call_slot (pl_calls s)))"

definition pool_inv :: "pool_state \<Rightarrow> bool" where
  "pool_inv s \<longleftrightarrow>
     (pl_pool s = None \<longrightarrow> pl_calls s = [] \<and> pl_drained s = 0)
     \<and> (pl_pool s \<noteq> None \<longrightarrow> length (slots s) + size (borrowed s) + pl_drained s = 10)
     \<and> owns (conns (mset (slots s) + borrowed s)) None (pl_open s, pl_next s)
     \<and> (0 < pl_closers s \<or> 0 < pl_drained s \<longrightarrow> pl_closed s)
     \<and> list_all (\<lambda>(req, r). result_ok req r) (pl_results s)"

lemma borrowed_update:
  "i < length cs \<Longrightarrow> mset (concat (map call_slot (cs[i := c]))) + mset (call_slot (cs ! i))
     = mset (concat (map call_slot cs)) + mset (call_slot c)"
  by (rule mset_concat_update)

lemma owns_move: "conns M = conns N \<Longrightarrow> owns (conns M) None on \<Longrightarrow> owns (conns N) None on"
  by simp

lemma owns_split: "owns (conns (add_mset x M)) None on \<longleftrightarrow> owns (conns M) x on"
  by (cases x) (auto simp: owns_def)

text \<open>A step that moves what call \<open>i\<close> holds.\<close>

lemma borrowed_move:
  assumes "i < length (pl_calls s)" "pl_calls s ! i = c" "pl_calls s' = (pl_calls s)[i := c']"
  shows "borrowed s' + mset (call_slot c) = borrowed s + mset (call_slot c')"
  using borrowed_update [OF assms(1), of c'] assms(2,3) by (simp add: borrowed_def)

lemma pool_inv_step:
  assumes "pstep dialConn s s'" and inv: "pool_inv s"
  shows "pool_inv s'"
  using assms(1)
proof cases
  case (enter req)
  have "conns (mset (replicate 10 None)) = {#}" by (simp add: numeral_eq_Suc)
  with enter inv show ?thesis
    by (cases "pl_pool s") (auto simp: pool_inv_def pool_enter_def initPool_def slots_def borrowed_def)
next
  case (cancelled i req e)
  from borrowed_move [OF cancelled(2,3), of s' Done] cancelled inv show ?thesis
    by (simp add: pool_inv_def pool_cancelled_def slots_def result_ok_def)
next
  case (acquire i req slot rest)
  from borrowed_move [OF acquire(2,3), of s' "Borrowed req slot"] acquire inv show ?thesis
    by (simp add: pool_inv_def pool_take_def slots_def)
next
  case (exchange i req slot ans)
  obtain conn r on where b: "pipeline_body dialConn ans req slot (pl_open s, pl_next s) = ((conn, r), on)"
    by (metis prod.exhaust)
  have "slot \<in># borrowed s" using exchange(2,3) by (force simp: borrowed_def in_set_conv_nth)
  then obtain B where B: "borrowed s = add_mset slot B" by (auto dest: multi_member_split)
  have "owns (conns (mset (slots s) + B)) slot (pl_open s, pl_next s)"
    using inv owns_split [of slot "mset (slots s) + B"] by (simp add: pool_inv_def B)
  from pipeline_body_ok [OF this, of req dialConn ans] have ok: "owns (conns (mset (slots s) + B)) conn on" "result_ok req r"
    by (simp_all add: b body_ok_def)
  have s': "pl_calls s' = (pl_calls s)[i := Deferred conn]" "pl_pool s' = pl_pool s" "(pl_open s', pl_next s') = on"
    "pl_drained s' = pl_drained s" "pl_closers s' = pl_closers s" "pl_closed s' = pl_closed s"
    "pl_results s' = pl_results s @ [(req, r)]"
    using exchange(1) b by (cases on; simp add: pool_exchange_def)+
  from borrowed_move [OF exchange(2,3) s'(1)] B have B': "borrowed s' = add_mset conn B" by simp
  have "owns (conns (mset (slots s) + borrowed s')) None (pl_open s', pl_next s')"
    using ok(1) owns_split [of conn "mset (slots s) + B" on] by (simp add: B' s')
  moreover have "pl_pool s \<noteq> None" using inv B by (auto simp: pool_inv_def borrowed_def)
  ultimately show ?thesis using inv ok(2) B B' s' by (simp add: pool_inv_def slots_def)
next
  case (deferred i conn)
  show ?thesis
  proof (cases "conn \<noteq> None \<and> pl_closed s")
    case False
    from borrowed_move [OF deferred(2,3), of s' "Putting conn"] deferred inv False show ?thesis
      by (auto simp: pool_inv_def pool_deferred_def slots_def split: option.splits)
  next
    case True
    then obtain c where c: "conn = Some c" by auto
    have "conn \<in># borrowed s" using deferred(2,3) by (force simp: borrowed_def in_set_conv_nth)
    then obtain B where B: "borrowed s = add_mset conn B" by (auto dest: multi_member_split)
    from borrowed_move [OF deferred(2,3), of s' "Putting None"] deferred(1) True c B
    have "borrowed s' = add_mset None B" by (simp add: pool_deferred_def)
    moreover have "owns (conns (mset (slots s) + B)) None (remove1 c (pl_open s), pl_next s)"
      using inv owns_closed [of "conns (mset (slots s) + B)" c "(pl_open s, pl_next s)"]
        owns_split [of conn "mset (slots s) + B"] c unfolding pool_inv_def B by simp
    ultimately show ?thesis using inv deferred(1) True c B
      by (simp add: pool_inv_def pool_deferred_def slots_def)
  qed
next
  case (put i conn qs)
  have "conn \<in># borrowed s" using put(2,3) by (force simp: borrowed_def in_set_conv_nth)
  then obtain B where B: "borrowed s = add_mset conn B" by (auto dest: multi_member_split)
  with inv put(4) have "length qs < 10" by (simp add: pool_inv_def slots_def)
  moreover from this borrowed_move [OF put(2,3), of s' Done] put(1) B have "borrowed s' = B"
    by (simp add: pool_put_def)
  ultimately show ?thesis using inv put(1,4) B by (simp add: pool_inv_def pool_put_def slots_def)
next
  case close
  with inv show ?thesis by (simp add: pool_inv_def pool_close_def slots_def borrowed_def)
next
  case (drain slot rest)
  have b: "borrowed s' = borrowed s" using drain(1) by (simp add: borrowed_def pool_drain_def Let_def split: option.splits)
  have all: "mset (slots s) + borrowed s = add_mset slot (mset rest + borrowed s)" using drain(3) by (simp add: slots_def)
  have "owns (conns (mset rest + borrowed s)) slot (pl_open s, pl_next s)"
    using inv unfolding pool_inv_def all owns_split by blast
  then have "owns (conns (mset rest + borrowed s)) None (pl_open s', pl_next s')"
    using drain(1) owns_closed by (cases slot) (fastforce simp: pool_drain_def Let_def)+
  with inv drain b show ?thesis
    by (cases slot) (simp_all add: pool_inv_def pool_drain_def slots_def)
next
  case drained
  with inv show ?thesis by (simp add: pool_inv_def slots_def borrowed_def)
qed

interpretation pool: step_system "\<lambda>s. s = pool_new" "pstep dialConn" pool_inv for dialConn
proof unfold_locales
  show "pool_inv s" if "s = pool_new" for s
    using that by (simp add: pool_inv_def pool_new_def slots_def borrowed_def owns_def)
  show "pool_inv s'" if "pool_inv s" "pstep dialConn s s'" for s s'
    using that pool_inv_step by blast
qed

lemma pool_reachable: "(pstep dialConn)\<^sup>*\<^sup>* pool_new s \<Longrightarrow> pool_inv s"
  using pool.inv_reachable by blast

text \<open>A call that has borrowed a slot can give it back.\<close>

definition returns :: "(attempt \<Rightarrow> goerr option) \<Rightarrow> nat \<Rightarrow> nat option list \<Rightarrow> pool_state \<Rightarrow> bool" where
  "returns dialConn j qs s \<longleftrightarrow>
     (\<exists>s' conn. (pstep dialConn)\<^sup>*\<^sup>* s s' \<and> pl_calls s' = (pl_calls s)[j := Done] \<and> pl_pool s' = Some (qs @ [conn]))"

lemma returns_step:
  assumes "pstep dialConn s t" "pl_calls t = (pl_calls s)[j := c]" "returns dialConn j qs t"
  shows "returns dialConn j qs s"
proof -
  from assms(3) obtain s' conn where "(pstep dialConn)\<^sup>*\<^sup>* t s'" "pl_calls s' = (pl_calls t)[j := Done]"
    "pl_pool s' = Some (qs @ [conn])" unfolding returns_def by blast
  moreover from assms(1) this(1) have "(pstep dialConn)\<^sup>*\<^sup>* s s'" by (rule converse_rtranclp_into_rtranclp)
  ultimately show ?thesis using assms(2) unfolding returns_def by (intro exI [of _ s'] exI [of _ conn]) simp
qed

lemma returns_put:
  assumes "j < length (pl_calls s)" "pl_calls s ! j = Putting c" "pl_pool s = Some qs" "length qs < 10"
  shows "returns dialConn j qs s"
  unfolding returns_def
proof (intro exI conjI)
  show "(pstep dialConn)\<^sup>*\<^sup>* s (pool_put j c qs s)" using pstep.put [OF assms(1-3)] by (rule r_into_rtranclp)
qed (use assms(4) in \<open>simp_all add: pool_put_def\<close>)

lemma returns_deferred:
  assumes "j < length (pl_calls s)" "pl_calls s ! j = Deferred c" "pl_pool s = Some qs" "length qs < 10"
  shows "returns dialConn j qs s"
proof -
  let ?u = "pool_deferred j c s"
  obtain d where d: "pl_calls ?u = (pl_calls s)[j := Putting d]" "pl_pool ?u = Some qs"
    using assms(3) by (cases c; cases "pl_closed s") (simp_all add: pool_deferred_def)
  have "returns dialConn j qs ?u" by (rule returns_put [where c = d]) (use assms d in simp_all)
  with pstep.deferred [OF assms(1,2)] d(1) show ?thesis by (rule returns_step)
qed

lemma borrower_returns:
  assumes "j < length (pl_calls s)" "call_slot (pl_calls s ! j) \<noteq> []" "pl_pool s = Some qs" "length qs < 10"
  shows "returns dialConn j qs s"
proof (cases "pl_calls s ! j")
  case (Borrowed req slot)
  define ans where "ans = \<lparr>na_first = \<lparr>at_lookup = \<lambda>_. Inl err_eof, at_dial = \<lambda>_ _. None\<rparr>, na_write1 = None,
    na_second = \<lparr>at_lookup = \<lambda>_. Inl err_eof, at_dial = \<lambda>_ _. None\<rparr>, na_write2 = None, na_read = Inl err_eof\<rparr>"
  let ?t = "pool_exchange dialConn ans j req slot s"
  obtain c where c: "pl_calls ?t = (pl_calls s)[j := Deferred c]" "pl_pool ?t = Some qs"
    using assms(3) by (cases "pipeline_body dialConn ans req slot (pl_open s, pl_next s)")
      (auto simp: pool_exchange_def split: prod.splits)
  have "returns dialConn j qs ?t" by (rule returns_deferred [where c = c]) (use assms c in simp_all)
  with pstep.exchange [OF assms(1) Borrowed] c(1) show ?thesis by (rule returns_step)
qed (use assms returns_deferred returns_put in auto)

section \<open>Properties\<close>

definition client_step :: "bool \<Rightarrow> upstream_server \<Rightarrow> pool_state \<Rightarrow> pool_state \<Rightarrow> bool" where
  "client_step dot cfg = (if dot then dot_pool_step cfg else tcp_pool_step cfg)"

lemma client_step_eq: "client_step dot cfg = pstep (if dot then dot_dialConn cfg else tcp_dialConn cfg)"
  by (simp add: client_step_def dot_pool_step_def tcp_pool_step_def)

text \<open>
  C23: The pool of the TCP and of the DoT client loses no slot and shares no connection, under all
  interleavings of calls and \<open>Close\<close> and all network errors: until \<open>Close\<close> the slots in the
  channel and those in use are ten together; every open connection is in exactly one slot or
  with exactly one call; so when the pool is closed and drained and no call is left, none is open.
\<close>

theorem pool_slots_conserved:
  assumes "(client_step dot cfg)\<^sup>*\<^sup>* pool_new s"
  shows "(pl_pool s \<noteq> None \<and> \<not> pl_closed s \<longrightarrow> length (slots s) + size (borrowed s) = 10)
    \<and> length (slots s) + size (borrowed s) \<le> 10
    \<and> mset (pl_open s) = conns (mset (slots s)) + conns (borrowed s) \<and> distinct (pl_open s)
    \<and> (slots s = [] \<and> borrowed s = {#} \<longrightarrow> pl_open s = [])"
proof -
  have "pool_inv s" using assms unfolding client_step_eq by (rule pool_reachable)
  moreover from this have "pl_pool s = None \<longrightarrow> length (slots s) + size (borrowed s) = 0"
    by (auto simp: pool_inv_def slots_def borrowed_def)
  ultimately show ?thesis by (cases "pl_pool s") (auto simp: pool_inv_def owns_def)
qed

text \<open>
  C24: A call of a pipelined client returns exactly one of a response and an error, and a response
  only if it has the identifier of that call's request, whatever the connection carries.
\<close>

theorem pool_answers_own_query:
  assumes "(client_step dot cfg)\<^sup>*\<^sup>* pool_new s" and "(req, r) \<in> set (pl_results s)"
  shows "(fst r = None) \<noteq> (snd r = None) \<and> (\<forall>m. fst r = Some m \<longrightarrow> Id m = Id req)"
proof -
  have "pool_inv s" using assms(1) unfolding client_step_eq by (rule pool_reachable)
  then have "list_all (\<lambda>(req, r). result_ok req r) (pl_results s)" by (simp add: pool_inv_def)
  then have "\<forall>x \<in> set (pl_results s). case x of (req, r) \<Rightarrow> result_ok req r" unfolding list_all_iff .
  from bspec [OF this assms(2)] have "result_ok req r" by simp
  then show ?thesis unfolding result_ok_def one_outcome_def by blast
qed

text \<open>
  C38: No call starves for good: as long as the client is not closed, every waiting call can still
  get a slot, however many calls have failed before.
\<close>

theorem pool_waiting_call_served:
  assumes "(client_step dot cfg)\<^sup>*\<^sup>* pool_new s" and "\<not> pl_closed s"
    and "i < length (pl_calls s)" "pl_calls s ! i = Waiting req"
  shows "\<exists>s' slot. (client_step dot cfg)\<^sup>*\<^sup>* s s' \<and> pl_calls s' ! i = Borrowed req slot"
proof -
  let ?d = "if dot then dot_dialConn cfg else tcp_dialConn cfg"
  have inv: "pool_inv s" using assms(1) unfolding client_step_eq by (rule pool_reachable)
  from inv assms(3) obtain qs where qs: "pl_pool s = Some qs" by (cases "pl_pool s") (auto simp: pool_inv_def)
  have take: "\<exists>s' slot. (pstep ?d)\<^sup>*\<^sup>* t s' \<and> pl_calls s' ! i = Borrowed req slot"
    if "i < length (pl_calls t)" "pl_calls t ! i = Waiting req" "pl_pool t = Some (slot # rest)" for t slot rest
  proof (intro exI conjI)
    show "(pstep ?d)\<^sup>*\<^sup>* t (pool_take i req slot rest t)" using pstep.acquire [OF that] by (rule r_into_rtranclp)
  qed (use that(1) in \<open>simp add: pool_take_def\<close>)
  have "\<exists>s' slot. (pstep ?d)\<^sup>*\<^sup>* s s' \<and> pl_calls s' ! i = Borrowed req slot"
  proof (cases qs)
    case (Cons slot rest)
    with take [OF assms(3,4)] qs show ?thesis by blast
  next
    case Nil
    with inv qs assms(2) have "borrowed s \<noteq> {#}" by (auto simp: pool_inv_def slots_def)
    then obtain c where "c \<in> set (pl_calls s)" "call_slot c \<noteq> []" by (auto simp: borrowed_def)
    then obtain j where j: "j < length (pl_calls s)" "call_slot (pl_calls s ! j) \<noteq> []" by (auto simp: in_set_conv_nth)
    with assms(4) have "i \<noteq> j" by auto
    obtain t conn where t: "(pstep ?d)\<^sup>*\<^sup>* s t" "pl_calls t = (pl_calls s)[j := Done]" "pl_pool t = Some [conn]"
      using borrower_returns [OF j qs, of ?d] Nil by (auto simp: returns_def)
    have "\<exists>s' slot. (pstep ?d)\<^sup>*\<^sup>* t s' \<and> pl_calls s' ! i = Borrowed req slot"
      by (rule take) (use t \<open>i \<noteq> j\<close> assms(3,4) in simp_all)
    then obtain s' slot where "(pstep ?d)\<^sup>*\<^sup>* t s'" "pl_calls s' ! i = Borrowed req slot" by blast
    with rtranclp_trans [OF t(1)] show ?thesis by blast
  qed
  then show ?thesis unfolding client_step_eq .
qed

section \<open>Witnesses and a race\<close>

definition live_answers :: "msg \<Rightarrow> net_answers" where
  "live_answers resp = \<lparr>na_first = \<lparr>at_lookup = \<lambda>_. Inr ''192.0.2.7'', at_dial = \<lambda>_ _. None\<rparr>, na_write1 = None,
     na_second = \<lparr>at_lookup = \<lambda>_. Inr ''192.0.2.7'', at_dial = \<lambda>_ _. None\<rparr>, na_write2 = None, na_read = Inr resp\<rparr>"

text \<open>A first call: it waits, borrows an empty slot, dials and gets an answer.\<close>

definition p_wait :: pool_state where "p_wait = pool_enter blank_msg pool_new"
definition p_have :: pool_state where "p_have = pool_take 0 blank_msg None (replicate 9 None) p_wait"
definition p_done :: pool_state where
  "p_done = p_have\<lparr>pl_calls := [Deferred (Some 0)], pl_open := [0], pl_next := 1,
     pl_results := [(blank_msg, (Some blank_msg, None))]\<rparr>"

lemma p_fields:
  "pl_calls p_wait = [Waiting blank_msg]" "pl_pool p_wait = Some (replicate 10 None)" "pl_closed p_wait = False"
  "pl_calls p_have = [Borrowed blank_msg None]" "pl_pool p_have = Some (replicate 9 None)" "pl_closed p_have = False"
  "pl_open p_have = []" "pl_next p_have = 0" "pl_results p_have = []" "pl_closers p_have = 0"
  by (simp_all add: p_wait_def p_have_def pool_enter_def initPool_def pool_new_def pool_take_def)

lemma live_answers_simps:
  "na_write1 (live_answers m) = None" "na_read (live_answers m) = Inr m"
  by (simp_all add: live_answers_def)

lemma dial_sample: "tcp_dialConn (sample_upstream ''dns.example'') (na_first (live_answers m)) = None"
proof -
  have "net_SplitHostPort ''dns.example'' = None" "net_JoinHostPort ''dns.example'' ''53'' = ''dns.example:53''"
    "net_SplitHostPort ''dns.example:53'' = Some (''dns.example'', ''53'')" by code_simp+
  then show ?thesis
    by (simp add: tcp_dialConn_def tcp_resolveAddr_def sample_upstream_def live_answers_def)
qed

lemma p_reachable:
  fixes st defines "st \<equiv> client_step False (sample_upstream ''dns.example'')"
  shows "st\<^sup>*\<^sup>* pool_new p_wait" "st\<^sup>*\<^sup>* pool_new p_done"
proof -
  let ?d = "tcp_dialConn (sample_upstream ''dns.example'')"
  have st: "st = pstep ?d" by (simp add: st_def client_step_eq)
  have w: "st pool_new p_wait" unfolding st p_wait_def by (rule pstep.enter)
  then show "st\<^sup>*\<^sup>* pool_new p_wait" by simp
  have h: "st p_wait p_have" unfolding st p_have_def by (rule pstep.acquire) (simp_all add: p_fields numeral_eq_Suc)
  have "pool_exchange ?d (live_answers blank_msg) 0 blank_msg None p_have = p_done"
    by (simp add: pool_exchange_def pipeline_body_def dial_slot_def dial_sample write_and_read_def read_response_def
        p_fields p_done_def live_answers_simps)
  then have "st p_have p_done"
    using pstep.exchange [of 0 p_have blank_msg None ?d "live_answers blank_msg"] by (simp add: st p_fields)
  with h have "st\<^sup>*\<^sup>* p_wait p_done" by (simp add: converse_rtranclp_into_rtranclp)
  with w show "st\<^sup>*\<^sup>* pool_new p_done" by (rule converse_rtranclp_into_rtranclp)
qed

theorem pool_slots_conserved_witness:
  "length (slots p_done) + size (borrowed p_done) = 10 \<and> mset (pl_open p_done) = {#0#}"
  using pool_slots_conserved [OF p_reachable(2)] by (simp add: p_done_def p_fields p_have_def pool_take_def p_wait_def
      pool_enter_def initPool_def pool_new_def)

theorem pool_answers_own_query_witness:
  "Id (the (fst (snd (hd (pl_results p_done))))) = Id blank_msg"
  using pool_answers_own_query [OF p_reachable(2), of blank_msg "(Some blank_msg, None)"] by (simp add: p_done_def)

theorem pool_waiting_call_served_witness:
  "\<exists>s' slot. (client_step False (sample_upstream ''dns.example''))\<^sup>*\<^sup>* p_wait s' \<and> pl_calls s' ! 0 = Borrowed blank_msg slot"
  by (rule pool_waiting_call_served [OF p_reachable(1)]) (simp_all add: p_fields)

text \<open>
  \<open>Close\<close> between the check of \<open>closed\<close> and the put of a call: it drains the channel, and the
  call then puts an open connection into it that nothing closes any more.
\<close>

lemma Close_can_leak_connection:
  fixes st defines "st \<equiv> client_step False (sample_upstream ''dns.example'')"
  shows "\<exists>s. st\<^sup>*\<^sup>* pool_new s \<and> pl_closed s \<and> pl_closers s = 0 \<and> pl_calls s = [Done] \<and> pl_open s \<noteq> []"
proof -
  let ?d = "tcp_dialConn (sample_upstream ''dns.example'')"
  have st: "st = pstep ?d" by (simp add: st_def client_step_eq)
  define put where "put = p_done\<lparr>pl_calls := [Putting (Some 0)]\<rparr>"
  define closing where "closing = put\<lparr>pl_closed := True, pl_closers := Suc 0\<rparr>"
  have f: "pl_calls p_done = [Deferred (Some 0)]" "pl_closed p_done = False" "pl_pool p_done = Some (replicate 9 None)"
    "pl_closers p_done = 0" "pl_open p_done = [0]" by (simp_all add: p_done_def p_fields)
  have "st p_done put"
    using pstep.deferred [of 0 p_done "Some 0" ?d] by (simp add: st f pool_deferred_def put_def)
  moreover have "st put closing"
    using pstep.close [of ?d put] by (simp add: st pool_close_def put_def closing_def f)
  ultimately have c: "st\<^sup>*\<^sup>* pool_new closing"
    using p_reachable(2) unfolding st_def by (meson rtranclp.rtrancl_into_rtrancl)
  have drain: "st\<^sup>*\<^sup>* t (t\<lparr>pl_pool := Some [], pl_drained := pl_drained t + n\<rparr>)"
    if "pl_pool t = Some (replicate n None)" "pl_closers t = Suc 0" for n t
    using that
  proof (induction n arbitrary: t)
    case 0
    then show ?case by (cases t) simp
  next
    case (Suc n)
    let ?u = "pool_drain None (replicate n None) t"
    have u: "pl_pool ?u = Some (replicate n None)" "pl_closers ?u = Suc 0" "pl_drained ?u = Suc (pl_drained t)"
      "?u\<lparr>pl_pool := Some [], pl_drained := pl_drained ?u + n\<rparr> = t\<lparr>pl_pool := Some [], pl_drained := pl_drained t + Suc n\<rparr>"
      using Suc.prems by (simp_all add: pool_drain_def Let_def)
    have "st t ?u" unfolding st by (rule pstep.drain) (use Suc.prems in simp_all)
    moreover have "st\<^sup>*\<^sup>* ?u (t\<lparr>pl_pool := Some [], pl_drained := pl_drained t + Suc n\<rparr>)"
      using Suc.IH [OF u(1,2)] unfolding u(4) .
    ultimately show ?case by (rule converse_rtranclp_into_rtranclp)
  qed
  let ?e = "closing\<lparr>pl_pool := Some [], pl_drained := pl_drained closing + 9\<rparr>"
  let ?g = "?e\<lparr>pl_closers := 0\<rparr>"
  have "st\<^sup>*\<^sup>* closing ?e" by (rule drain) (simp_all add: closing_def put_def f)
  with c have e: "st\<^sup>*\<^sup>* pool_new ?e" by (rule rtranclp_trans)
  have "st ?e ?g" using pstep.drained [of ?e ?d] by (simp add: st closing_def)
  moreover have "st ?g (pool_put 0 (Some 0) [] ?g)"
    unfolding st by (rule pstep.put) (simp_all add: closing_def put_def)
  ultimately have "st\<^sup>*\<^sup>* pool_new (pool_put 0 (Some 0) [] ?g)" using e by (meson rtranclp.rtrancl_into_rtrancl)
  moreover have "pl_closed (pool_put 0 (Some 0) [] ?g)" "pl_closers (pool_put 0 (Some 0) [] ?g) = 0"
    "pl_calls (pool_put 0 (Some 0) [] ?g) = [Done]" "pl_open (pool_put 0 (Some 0) [] ?g) \<noteq> []"
    by (simp_all add: pool_put_def closing_def put_def f)
  ultimately show ?thesis by blast
qed

end
