(* ===== verification/Servers.thy ===== *)
theory Servers
  imports Clients Router
begin

text \<open>
  The request handlers of \<open>internal/server\<close>: plain DNS and DoT (\<open>dnsserver.go\<close>), DoH
  (\<open>dohserver.go\<close>) and DoQ (\<open>doqserver.go\<close>). The router is an argument: what \<open>Route\<close> returns for
  a request and a client address. A handler is the function from what it reads to what it writes.
\<close>

type_synonym route = "msg \<Rightarrow> string \<Rightarrow> msg result"

definition maxDNSMessageSize :: nat where "maxDNSMessageSize = 65535"
definition MinMsgSize :: int where "MinMsgSize = 512"

text \<open>The router as the servers call it, at one moment of its state.\<close>

definition served ::
  "dns_lib \<Rightarrow> router \<Rightarrow> route_sched \<times> route_sched \<Rightarrow> int \<times> int \<Rightarrow> query_logger option \<Rightarrow> route" where
  "served L r scheds clk logger req clientIP = fst (Route L r scheds clk req clientIP logger)"

lemma served_one_outcome: "one_outcome (served L r scheds clk logger req clientIP)"
  using Route_decided [of L r scheds clk req clientIP logger] by (auto simp: served_def one_outcome_def)

section \<open>Plain DNS and DoT\<close>

text \<open>
  What a call of \<open>ServeDNS\<close> ends in: one message handed to \<open>WriteMsg\<close>, or the panic of a nil
  dereference. That \<open>WriteMsg\<close> fails is only logged by the code and not distinguished here. The
  library's \<open>HandleFailed\<close> is documented to answer with SERVFAIL, which is \<open>SetRcode\<close> of the request;
  \<open>Truncate\<close> is a parameter.
\<close>

datatype dns_served = Wrote msg | NilPanic

definition HandleFailed :: "dns_lib \<Rightarrow> msg \<Rightarrow> dns_served" where
  "HandleFailed L req = Wrote (lib_SetRcode L req RcodeServerFailure)"

definition udpResponseSize :: "dns_lib \<Rightarrow> msg \<Rightarrow> int" where
  "udpResponseSize L req =
     (case lib_IsEdns0 L req of
        Some i \<Rightarrow>
          (let sz = int (unat (lib_UDPSize L (Extra req ! i))) in
           if MinMsgSize \<le> sz then sz else MinMsgSize)
      | None \<Rightarrow> MinMsgSize)"

text \<open>\<open>net.SplitHostPort\<close> gives the empty host with an error, which the handlers ignore.\<close>

definition host_of :: "string \<Rightarrow> string" where
  "host_of addr = (case net_SplitHostPort addr of Some (h, _) \<Rightarrow> h | None \<Rightarrow> [])"

definition ServeDNS ::
  "dns_lib \<Rightarrow> (msg \<Rightarrow> int \<Rightarrow> msg) \<Rightarrow> route \<Rightarrow> bool \<Rightarrow> string \<Rightarrow> msg \<Rightarrow> dns_served" where
  "ServeDNS L trunc route isUDP remote req =
     (if Question req = [] then HandleFailed L req
      else (case route req (host_of remote) of
        (_, Some e) \<Rightarrow> HandleFailed L req
      | (None, None) \<Rightarrow> NilPanic
      | (Some resp, None) \<Rightarrow>
          Wrote (if isUDP then trunc resp (udpResponseSize L req) else resp)))"

text \<open>
  \<open>Truncate\<close>: "ensures the reply message will fit into the requested buffer size", for sizes of at
  least 512.
\<close>

definition truncate_documented :: "wire_lib \<Rightarrow> (msg \<Rightarrow> int \<Rightarrow> msg) \<Rightarrow> bool" where
  "truncate_documented W trunc \<longleftrightarrow>
     (\<forall>m n b. MinMsgSize \<le> n \<longrightarrow> wl_Pack W (trunc m n) = Inr b \<longrightarrow> int (length b) \<le> n) \<and>
     (\<forall>m n. Id (trunc m n) = Id m \<and> Rcode (trunc m n) = Rcode m)"

section \<open>Base64\<close>

text \<open>\<open>base64.RawURLEncoding\<close>: the URL alphabet without padding; line ends are skipped.\<close>

definition b64_alphabet :: string where
  "b64_alphabet = ''ABCDEFGHIJKLMNOPQRSTUVWXYZabcdefghijklmnopqrstuvwxyz0123456789-_''"

definition b64_val :: "char \<Rightarrow> nat option" where
  "b64_val c = index_byte b64_alphabet c"

definition b64_char :: "nat \<Rightarrow> char" where
  "b64_char n = b64_alphabet ! n"

text \<open>Values of up to four characters to bytes; the left-over bits are ignored.\<close>

fun b64_bytes :: "nat list \<Rightarrow> string option" where
  "b64_bytes [] = Some []"
| "b64_bytes [a] = None"
| "b64_bytes [a, b] = Some [char_of (a * 4 + b div 16)]"
| "b64_bytes [a, b, c] = Some [char_of (a * 4 + b div 16), char_of (b mod 16 * 16 + c div 4)]"
| "b64_bytes (a # b # c # d # r) =
     map_option (\<lambda>t. char_of (a * 4 + b div 16) # char_of (b mod 16 * 16 + c div 4) # char_of (c mod 4 * 64 + d) # t)
       (b64_bytes r)"

fun b64_values :: "string \<Rightarrow> nat list option" where
  "b64_values [] = Some []"
| "b64_values (c # s) =
     (if c = LF \<or> c = CR then b64_values s
      else (case b64_val c of
        None \<Rightarrow> None
      | Some v \<Rightarrow> map_option (Cons v) (b64_values s)))"

definition RawURL_DecodeString :: "string \<Rightarrow> string option" where
  "RawURL_DecodeString s = Option.bind (b64_values s) b64_bytes"

fun RawURL_EncodeToString :: "string \<Rightarrow> string" where
  "RawURL_EncodeToString [] = []"
| "RawURL_EncodeToString [x] = [b64_char (byte x div 4), b64_char (byte x mod 4 * 16)]"
| "RawURL_EncodeToString [x, y] =
     [b64_char (byte x div 4), b64_char (byte x mod 4 * 16 + byte y div 16), b64_char (byte y mod 16 * 4)]"
| "RawURL_EncodeToString (x # y # z # r) =
     b64_char (byte x div 4) # b64_char (byte x mod 4 * 16 + byte y div 16)
       # b64_char (byte y mod 16 * 4 + byte z div 64) # b64_char (byte z mod 64) # RawURL_EncodeToString r"

lemma byte_bound: "byte c < 256"
  by (simp add: byte_def)

lemma char_of_byte [simp]: "char_of (byte c) = c"
  by (simp add: byte_def)

lemma b64_table: "\<forall>n \<in> set [0..<64]. b64_val (b64_char n) = Some n \<and> b64_char n \<noteq> LF \<and> b64_char n \<noteq> CR"
  by code_simp

lemma b64_values_Cons: "n < 64 \<Longrightarrow> b64_values (b64_char n # s) = map_option (Cons n) (b64_values s)"
  using b64_table by simp

text \<open>Six bits at a time and back.\<close>

lemma b64_split:
  fixes x y z :: nat
  assumes "x < 256" "y < 256" "z < 256"
  shows "x div 4 < 64" "x mod 4 * 16 + y div 16 < 64" "y mod 16 * 4 + z div 64 < 64" "z mod 64 < 64"
    "x mod 4 * 16 < 64" "y mod 16 * 4 < 64"
    "x div 4 * 4 + (x mod 4 * 16 + y div 16) div 16 = x"
    "(x mod 4 * 16 + y div 16) mod 16 * 16 + (y mod 16 * 4 + z div 64) div 4 = y"
    "(y mod 16 * 4 + z div 64) mod 4 * 64 + z mod 64 = z"
    "x div 4 * 4 + x mod 4 * 16 div 16 = x"
    "(x mod 4 * 16 + y div 16) mod 16 * 16 + y mod 16 * 4 div 4 = y"
proof -
  have b: "y div 16 < 16" "z div 64 < 4" "y mod 16 < 16" "x mod 4 < 4" "x div 4 < 64" "z mod 64 < 64"
    using assms by simp_all
  have dm: "(m * 16 + n) div 16 = m" "(m * 16 + n) mod 16 = n" if "n < 16" for m n :: nat using that by simp_all
  have dm4: "(m * 4 + n) div 4 = m" "(m * 4 + n) mod 4 = n" if "n < 4" for m n :: nat using that by simp_all
  show "x div 4 < 64" "z mod 64 < 64" by (fact b)+
  show "x mod 4 * 16 + y div 16 < 64" "y mod 16 * 4 + z div 64 < 64" "x mod 4 * 16 < 64" "y mod 16 * 4 < 64"
    using b(1-4) by linarith+
  show "x div 4 * 4 + (x mod 4 * 16 + y div 16) div 16 = x" unfolding dm(1) [OF b(1)] by simp
  show "(x mod 4 * 16 + y div 16) mod 16 * 16 + (y mod 16 * 4 + z div 64) div 4 = y"
    unfolding dm(2) [OF b(1)] dm4(1) [OF b(2)] by simp
  show "(y mod 16 * 4 + z div 64) mod 4 * 64 + z mod 64 = z" unfolding dm4(2) [OF b(2)] by simp
  show "x div 4 * 4 + x mod 4 * 16 div 16 = x" by simp
  show "(x mod 4 * 16 + y div 16) mod 16 * 16 + y mod 16 * 4 div 4 = y" unfolding dm(2) [OF b(1)] by simp
qed

lemma RawURL_Decode_Encode: "RawURL_DecodeString (RawURL_EncodeToString s) = Some s"
proof (induction s rule: RawURL_EncodeToString.induct)
  case 1
  show ?case by (simp add: RawURL_DecodeString_def)
next
  case (2 x)
  show ?case using b64_split [of "byte x" "byte x" "byte x", OF byte_bound byte_bound byte_bound]
    by (simp only: RawURL_EncodeToString.simps RawURL_DecodeString_def b64_values_Cons b64_values.simps(1)
        option.map bind.simps b64_bytes.simps char_of_byte)
next
  case (3 x y)
  show ?case using b64_split [of "byte x" "byte y" "byte y", OF byte_bound byte_bound byte_bound]
    by (simp only: RawURL_EncodeToString.simps RawURL_DecodeString_def b64_values_Cons b64_values.simps(1)
        option.map bind.simps b64_bytes.simps char_of_byte)
next
  case (4 x y z r)
  note sp = b64_split [of "byte x" "byte y" "byte z", OF byte_bound byte_bound byte_bound]
  from 4 obtain vs where vs: "b64_values (RawURL_EncodeToString r) = Some vs" "b64_bytes vs = Some r"
    by (auto simp: RawURL_DecodeString_def bind_eq_Some_conv)
  show ?case using sp
    by (simp only: RawURL_EncodeToString.simps RawURL_DecodeString_def b64_values_Cons vs
        option.map bind.simps b64_bytes.simps char_of_byte)
qed

section \<open>DoH\<close>

text \<open>
  What the handler reads of a request: path, method, the \<open>dns\<close> parameter of the query, the
  Content-Type and X-Forwarded-For headers, the body and the peer. \<open>mime.ParseMediaType\<close> is a
  parameter. The body is its bytes and the error that ends it.
\<close>

datatype http_method = GET | POST | OtherMethod string

record http_request =
  hr_Path :: string
  hr_Method :: http_method
  hr_dns :: string
  hr_ContentType :: string
  hr_XFF :: string
  hr_Body :: "string \<times> goerr option"
  hr_RemoteAddr :: string

text \<open>A plain error reply, or status 200 with a Content-Length and a body.\<close>

datatype http_reply = HttpError int | HttpMessage int string

definition isTrustedProxy :: "string \<Rightarrow> bool" where
  "isTrustedProxy host =
     (case net_ParseIP host of
        None \<Rightarrow> False
      | Some x \<Rightarrow> ip_IsLoopback x \<or> ip_IsPrivate x \<or> ip_IsLinkLocalUnicast x)"

definition doh_clientIP :: "string \<Rightarrow> string \<Rightarrow> string" where
  "doh_clientIP remoteAddr xff =
     (let clientIP = host_of remoteAddr in
      if isTrustedProxy clientIP \<and> xff \<noteq> []
      then (let first = strings_TrimSpace (hd (strings_Split xff (CHR '',''))) in
            if net_ParseIP first \<noteq> None then first else clientIP)
      else clientIP)"

text \<open>\<open>io.ReadAll(http.MaxBytesReader(...))\<close>: a body over the limit is an error.\<close>

definition read_limited :: "nat \<Rightarrow> string \<times> goerr option \<Rightarrow> goerr + string" where
  "read_limited n b =
     (if n < length (fst b) then Inl (Errorf ''http: request body too large'' [])
      else (case snd b of Some e \<Rightarrow> Inl e | None \<Rightarrow> Inr (fst b)))"

text \<open>
  The message of a DoH request. \<open>strings.EqualFold\<close> with an ASCII constant is equality after folding
  ASCII capitals; the two differ only for the letters outside ASCII that fold to ASCII ones.
\<close>

definition doh_message :: "(string \<Rightarrow> string option) \<Rightarrow> http_request \<Rightarrow> int + string" where
  "doh_message parseMediaType r =
     (case hr_Method r of
        GET \<Rightarrow>
          if hr_dns r = [] then Inl 400
          else (case RawURL_DecodeString (hr_dns r) of None \<Rightarrow> Inl 400 | Some b \<Rightarrow> Inr b)
      | POST \<Rightarrow>
          (let mediaType = (case parseMediaType (hr_ContentType r) of Some mt \<Rightarrow> mt | None \<Rightarrow> hr_ContentType r) in
           if strings_ToLower mediaType \<noteq> ''application/dns-message'' then Inl 415
           else (case read_limited maxDNSMessageSize (hr_Body r) of Inl e \<Rightarrow> Inl 400 | Inr b \<Rightarrow> Inr b))
      | OtherMethod _ \<Rightarrow> Inl 405)"

text \<open>\<open>None\<close> is the panic of a nil response.\<close>

definition route_or_failure :: "dns_lib \<Rightarrow> route \<Rightarrow> msg \<Rightarrow> string \<Rightarrow> msg option" where
  "route_or_failure L route req clientIP =
     (case route req clientIP of
        (_, Some e) \<Rightarrow> Some (lib_SetRcode L req RcodeServerFailure)
      | (resp, None) \<Rightarrow> resp)"

definition doh_ServeHTTP ::
  "dns_lib \<Rightarrow> wire_lib \<Rightarrow> (string \<Rightarrow> string option) \<Rightarrow> route \<Rightarrow> string \<Rightarrow> http_request \<Rightarrow> http_reply option" where
  "doh_ServeHTTP L W parseMediaType route path r =
     (if hr_Path r \<noteq> path then Some (HttpError 404)
      else (case doh_message parseMediaType r of
        Inl status \<Rightarrow> Some (HttpError status)
      | Inr dnsMsg \<Rightarrow>
          (case wl_Unpack W dnsMsg of
             Inl e \<Rightarrow> Some (HttpError 400)
           | Inr req \<Rightarrow>
               if Question req = [] then Some (HttpError 400)
               else (case route_or_failure L route req (doh_clientIP (hr_RemoteAddr r) (hr_XFF r)) of
                 None \<Rightarrow> None
               | Some resp \<Rightarrow>
                   (case wl_Pack W resp of
                      Inl e \<Rightarrow> Some (HttpError 500)
                    | Inr packedResp \<Rightarrow> Some (HttpMessage (int (length packedResp)) packedResp))))))"

section \<open>DoQ\<close>

text \<open>What is written to the stream: \<open>Inr None\<close> if it is closed without an answer, \<open>Inl ()\<close> for a panic.\<close>

definition handleQuicStream ::
  "dns_lib \<Rightarrow> wire_lib \<Rightarrow> route \<Rightarrow> string \<Rightarrow> string \<times> goerr option \<Rightarrow> unit + string option" where
  "handleQuicStream L W route remoteAddr stream =
     (case io_ReadFull 2 stream of
        Inl e \<Rightarrow> Inr None
      | Inr (lengthBytes, stream') \<Rightarrow>
          (let dnsMsgLen = get_uint16 lengthBytes in
           if dnsMsgLen = 0 then Inr None
           else (case io_ReadFull (unat dnsMsgLen) stream' of
             Inl e \<Rightarrow> Inr None
           | Inr (msgBuf, _) \<Rightarrow>
               (case wl_Unpack W msgBuf of
                  Inl e \<Rightarrow> Inr None
                | Inr req \<Rightarrow>
                    if Question req = [] then Inr None
                    else (case route_or_failure L route req (host_of remoteAddr) of
                      None \<Rightarrow> Inl ()
                    | Some resp \<Rightarrow>
                        (case wl_Pack W (resp\<lparr>Id := 0\<rparr>) of
                           Inl e \<Rightarrow> Inr None
                         | Inr packedResp \<Rightarrow>
                             if maxDNSMessageSize < length packedResp
                             then (case wl_Pack W ((lib_SetRcode L req RcodeSuccess)\<lparr>Id := 0, Truncated := True\<rparr>) of
                               Inl e \<Rightarrow> Inr None
                             | Inr packedTrunc \<Rightarrow> Inr (Some (frame packedTrunc)))
                             else Inr (Some (frame packedResp))))))))"

lemma ServeDNS_reply:
  assumes "\<forall>r c. one_outcome (route r c)" and "truncate_documented W trunc" and "reply_documented L"
  shows "\<exists>m. ServeDNS L trunc route isUDP remote req = Wrote m
    \<and> (case (if Question req = [] then None else fst (route req (host_of remote))) of
         None \<Rightarrow> Id m = Id req \<and> Rcode m = RcodeServerFailure
       | Some resp \<Rightarrow> Id m = Id resp \<and> Rcode m = Rcode resp \<and> (\<not> isUDP \<longrightarrow> m = resp)
           \<and> (isUDP \<longrightarrow> (\<forall>b. wl_Pack W m = Inr b \<longrightarrow>
                int (length b) \<le> max 512 (case lib_IsEdns0 L req of None \<Rightarrow> 0 
                  | Some i \<Rightarrow> int (unat (lib_UDPSize L (Extra req ! i)))))))"
proof -
  have failed: "HandleFailed L req = Wrote (lib_SetRcode L req RcodeServerFailure)"
    "Id (lib_SetRcode L req RcodeServerFailure) = Id req"
    "Rcode (lib_SetRcode L req RcodeServerFailure) = RcodeServerFailure"
    using assms(3) by (simp_all add: HandleFailed_def reply_documented_def)
  have sz: "udpResponseSize L req = max 512 (case lib_IsEdns0 L req of None \<Rightarrow> 0
      | Some i \<Rightarrow> int (unat (lib_UDPSize L (Extra req ! i))))"
    by (auto simp: udpResponseSize_def MinMsgSize_def Let_def split: option.splits)
  then have "MinMsgSize \<le> udpResponseSize L req" by (simp add: MinMsgSize_def)
  with assms(2) have fits: "int (length b) \<le> udpResponseSize L req"
    if "wl_Pack W (trunc m (udpResponseSize L req)) = Inr b" for m b
    using that by (simp add: truncate_documented_def)
  show ?thesis
  proof (cases "Question req = []")
    case True
    with failed show ?thesis by (simp add: ServeDNS_def)
  next
    case False
    obtain r e where re: "route req (host_of remote) = (r, e)" by (cases "route req (host_of remote)")
    with assms(1) have "one_outcome (r, e)" by metis
    with False re failed fits assms(2) show ?thesis
      by (cases r; cases e) (auto simp: ServeDNS_def one_outcome_def truncate_documented_def sz [symmetric])
  qed
qed

section \<open>Properties\<close>

text \<open>
  C37: Plain DNS and DoT answer every query with exactly one message, SERVFAIL under the query's
  identifier if it has no question or routing failed; and over UDP the packed answer fits into
  512 bytes, or into the size the client has announced if that is larger.
\<close>

theorem ServeDNS_one_reply:
  assumes "truncate_documented W trunc" and "reply_documented L"
  shows "\<exists>m. ServeDNS L trunc (served L r scheds clk logger) isUDP remote req = Wrote m
    \<and> (case (if Question req = [] then None else fst (served L r scheds clk logger req (host_of remote))) of
         None \<Rightarrow> Id m = Id req \<and> Rcode m = RcodeServerFailure
       | Some resp \<Rightarrow> Id m = Id resp \<and> Rcode m = Rcode resp \<and> (\<not> isUDP \<longrightarrow> m = resp)
           \<and> (isUDP \<longrightarrow> (\<forall>b. wl_Pack W m = Inr b \<longrightarrow>
                int (length b) \<le> max 512 (case lib_IsEdns0 L req of None \<Rightarrow> 0
                  | Some i \<Rightarrow> int (unat (lib_UDPSize L (Extra req ! i)))))))"
  using assms by (intro ServeDNS_reply) (simp_all add: served_one_outcome)

text \<open>
  Nobody but a loopback, private or link-local peer can set the client address that is
  logged: for any other peer the X-Forwarded-For header has no effect, and a trusted peer can
  only replace its own address by the well-formed IP address that comes first in the header.
\<close>

theorem forwarded_address_trusted:
  "(\<not> isTrustedProxy (host_of remote) \<longrightarrow> doh_clientIP remote xff = host_of remote)
   \<and> (doh_clientIP remote xff \<noteq> host_of remote \<longrightarrow>
        isTrustedProxy (host_of remote) \<and> net_ParseIP (doh_clientIP remote xff) \<noteq> None
        \<and> doh_clientIP remote xff = strings_TrimSpace (hd (strings_Split xff (CHR '',''))))"
  by (auto simp: doh_clientIP_def Let_def)

text \<open>
  C36: A DoH query in the URL is answered like the same query in the body: for every message of 1
  to 65535 bytes a GET with its base64url encoding gives the reply of the POST, whatever the
  parameters of the POST's media type are.
\<close>

theorem doh_GET_equals_POST:
  assumes "b \<noteq> []" "length b \<le> 65535" and "hr_Path r = hr_Path r'"
    and "hr_XFF r = hr_XFF r'" "hr_RemoteAddr r = hr_RemoteAddr r'"
    and "hr_Method r = GET" "hr_dns r = RawURL_EncodeToString b"
    and "hr_Method r' = POST" "hr_Body r' = (b, None)"
    and "parseMediaType (hr_ContentType r') = Some mt" "strings_ToLower mt = ''application/dns-message''"
  shows "doh_ServeHTTP L W parseMediaType route path r = doh_ServeHTTP L W parseMediaType route path r'"
proof -
  have "RawURL_EncodeToString b \<noteq> []" using assms(1) by (cases b rule: RawURL_EncodeToString.cases) simp_all
  with assms have m: "doh_message parseMediaType r = doh_message parseMediaType r'"
    by (simp add: doh_message_def RawURL_Decode_Encode read_limited_def maxDNSMessageSize_def)
  show ?thesis by (simp only: doh_ServeHTTP_def m assms(3-5))
qed

text \<open>
  C35: A DoQ query through the client and the server of this program: the router is asked what the
  bytes unpack to that the client has packed its prepared query into under identifier 0 (\<open>asked\<close>),
  and the client gets what the bytes of the routed answer unpack to (\<open>got\<close>; SERVFAIL if routing
  fails) under the identifier of its query, or a truncated empty answer if the packed one exceeds
  65535 bytes. Packing is not assumed to be without loss: it masks the host bits of a client
  subnet, for example.
\<close>

theorem doq_end_to_end:
  assumes "edns0_documented L"
    and net: "doq_address lookup cfg = Inr (addr, host)" "qn_dial Q addr host (us_InsecureSkipVerify cfg) = None"
      "qn_open Q = None" "qn_write_length Q = None" "qn_write_body Q = None"
    and server: "\<forall>bytes. qn_reply Q bytes =
      (case handleQuicStream L W route remote (bytes, None) of Inr (Some out) \<Rightarrow> (out, None) | _ \<Rightarrow> ([], None))"
    and q: "wl_Pack W ((ensureECS L req (us_ECSIP cfg))\<lparr>Id := 0\<rparr>) = Inr b" "b \<noteq> []" "length b \<le> 65535"
      "wl_Unpack W b = Inr asked" "Question asked \<noteq> []"
    and resp: "route_or_failure L route asked (host_of remote) = Some resp" "wl_Pack W (resp\<lparr>Id := 0\<rparr>) = Inr rb"
      "length rb \<le> 65535 \<longrightarrow> wl_Unpack W rb = Inr got"
    and t: "wl_Pack W ((lib_SetRcode L asked RcodeSuccess)\<lparr>Id := 0, Truncated := True\<rparr>) = Inr tb" "length tb \<le> 65535"
      "wl_Unpack W tb = Inr short"
  shows "doq_Resolve L W lookup Q cfg req =
    (Some ((if length rb \<le> 65535 then got else short)\<lparr>Id := Id req\<rparr>), None)"
proof -
  have gp: "get_uint16 (put_uint16 w) = w" for w using get_put_uint16 [of w "[]"] by simp
  have len: "unat (uint16_len x) = length x" if "length x \<le> 65535" for x using that by (intro unat_uint16_len) simp
  have "uint16_len b \<noteq> 0" using len [OF q(3)] q(2) by (auto simp: unat_eq_zero)
  then have srv: "handleQuicStream L W route remote (put_uint16 (uint16_len b) @ b, None)
      = Inr (Some (frame (if length rb \<le> 65535 then rb else tb)))"
    using q resp(1,2) t
    by (simp add: handleQuicStream_def io_ReadFull_def gp len Let_def maxDNSMessageSize_def)
  have "doq_read_response W i (frame x, None) = (Some (m\<lparr>Id := i\<rparr>), None)"
    if "length x \<le> 65535" "wl_Unpack W x = Inr m" for i x m
    using that by (simp add: doq_read_response_def frame_def io_ReadFull_def gp len)
  then have "doq_read_response W i (frame (if length rb \<le> 65535 then rb else tb), None)
      = (Some ((if length rb \<le> 65535 then got else short)\<lparr>Id := i\<rparr>), None)" for i
    using resp(3) t(2,3) by simp
  with net server srv q(1) ensureECS_Id [OF assms(1)] show ?thesis
    by (simp add: doq_Resolve_def Let_def)
qed

text \<open>
  Whatever a DoQ peer sends, what the server writes back is nothing or one well-formed frame
  of at most 65535 bytes, if an empty answer packs into that size.
\<close>

theorem doq_reply_framed:
  assumes "\<forall>req b. wl_Pack W ((lib_SetRcode L req RcodeSuccess)\<lparr>Id := 0, Truncated := True\<rparr>) = Inr b \<longrightarrow> length b \<le> 65535"
  shows "\<exists>out. handleQuicStream L W (served L r scheds clk logger) remote stream = Inr out
    \<and> (case out of None \<Rightarrow> True
       | Some bytes \<Rightarrow> \<exists>b. bytes = frame b \<and> length b \<le> 65535 \<and> read_frame (bytes, None) = Inr b
           \<and> (\<exists>m. wl_Pack W m = Inr b \<and> Id m = 0))"
proof -
  have some: "route_or_failure L (served L r scheds clk logger) q c \<noteq> None" for q c
  proof -
    have "one_outcome (served L r scheds clk logger q c)" by (rule served_one_outcome)
    then show ?thesis
      by (cases "served L r scheds clk logger q c") (auto simp: route_or_failure_def one_outcome_def split: option.splits)
  qed
  have frame: "read_frame (frame b, None) = Inr b" if "length b \<le> 65535" for b
    using read_frame_frame [of b "[]" None] that by simp
  have ok: "\<exists>b'. frame b = frame b' \<and> length b' \<le> 65535 \<and> read_frame (frame b, None) = Inr b'
      \<and> (\<exists>m. wl_Pack W m = Inr b' \<and> Id m = 0)" if "length b \<le> 65535" "wl_Pack W m = Inr b" "Id m = 0" for b m
    using that frame by blast
  show ?thesis
    using assms
    by (auto simp: handleQuicStream_def Let_def maxDNSMessageSize_def some
        split: sum.splits option.splits intro!: ok)
qed

section \<open>Witnesses\<close>

definition sample_question :: msg where
  "sample_question = (sample_request ''a.example.'' TypeA)\<lparr>Id := 0\<rparr>"

definition servfail :: msg where
  "servfail = (lib_SetRcode sample_lib sample_question RcodeServerFailure)\<lparr>Id := 0\<rparr>"

definition truncated_reply :: msg where
  "truncated_reply = (lib_SetRcode sample_lib sample_question RcodeSuccess)\<lparr>Id := 0, Truncated := True\<rparr>"

definition three_wire :: wire_lib where
  "three_wire = \<lparr>
     wl_Pack = \<lambda>m. if m = sample_question then Inr ''q'' else if m = servfail then Inr ''f''
                   else if m = truncated_reply then Inr ''t'' else Inl (Errorf ''pack'' []),
     wl_Unpack = \<lambda>s. if s = ''q'' then Inr sample_question else if s = ''f'' then Inr servfail
                     else if s = ''t'' then Inr truncated_reply else Inl (Errorf ''unpack'' [])\<rparr>"

lemma three_wire_length: "wl_Pack three_wire m = Inr b \<Longrightarrow> length b = 1"
  by (auto simp: three_wire_def split: if_splits)

lemma three_distinct: "servfail \<noteq> sample_question" "truncated_reply \<noteq> sample_question" "truncated_reply \<noteq> servfail"
  by (simp_all add: servfail_def sample_question_def truncated_reply_def sample_lib_def sample_request_def
      blank_msg_def dns_consts)

theorem ServeDNS_one_reply_witness:
  "\<exists>m. ServeDNS sample_lib (\<lambda>m n. m) (served sample_lib sample_router (sample_sched, sample_sched) (0, 0) None)
         True ''192.0.2.1:53'' (blank_msg\<lparr>Id := 9\<rparr>) = Wrote m \<and> Id m = 9 \<and> Rcode m = RcodeServerFailure"
proof -
  have "truncate_documented three_wire (\<lambda>m n. m)"
    by (auto simp: truncate_documented_def MinMsgSize_def dest: three_wire_length)
  from ServeDNS_one_reply [OF this sample_reply_documented, of sample_router "(sample_sched, sample_sched)" "(0, 0)" None True
      "''192.0.2.1:53''" "blank_msg\<lparr>Id := 9\<rparr>"]
  show ?thesis by (auto simp: blank_msg_def)
qed

theorem doh_GET_equals_POST_witness:
  "let r = \<lparr>hr_Path = ''/dns-query'', hr_Method = GET, hr_dns = RawURL_EncodeToString ''q'', hr_ContentType = [],
            hr_XFF = [], hr_Body = ([], None), hr_RemoteAddr = ''192.0.2.1:4''\<rparr>;
       r' = r\<lparr>hr_Method := POST, hr_ContentType := ''application/dns-message'', hr_Body := (''q'', None)\<rparr>
   in doh_ServeHTTP sample_lib three_wire Some (\<lambda>q c. (Some servfail, None)) ''/dns-query'' r
      = doh_ServeHTTP sample_lib three_wire Some (\<lambda>q c. (Some servfail, None)) ''/dns-query'' r'"
proof -
  have l: "strings_ToLower ''application/dns-message'' = ''application/dns-message''" by code_simp
  show ?thesis unfolding Let_def
    by (rule doh_GET_equals_POST [where b = "''q''" and mt = "''application/dns-message''"]) (simp_all add: l)
qed

theorem doq_end_to_end_witness:
  "doq_Resolve sample_lib three_wire (\<lambda>_. Inr ''192.0.2.7'')
     \<lparr>qn_dial = \<lambda>_ _ _. None, qn_open = None, qn_write_length = None, qn_write_body = None,
      qn_reply = \<lambda>bytes. case handleQuicStream sample_lib three_wire (\<lambda>q c. (None, Some err_eof)) ''192.0.2.1:9'' (bytes, None)
                 of Inr (Some out) \<Rightarrow> (out, None) | _ \<Rightarrow> ([], None)\<rparr>
     (sample_upstream ''quic://dns.example'') (sample_question\<lparr>Id := 21\<rparr>) = (Some (servfail\<lparr>Id := 21\<rparr>), None)"
proof -
  have addr: "doq_address (\<lambda>_. Inr ''192.0.2.7'') (sample_upstream ''quic://dns.example'') = Inr (''192.0.2.7:853'', ''dns.example'')"
    by (simp add: doq_address_def sample_upstream_def) code_simp
  have ids: "ensureECS sample_lib (sample_question\<lparr>Id := 21\<rparr>) (us_ECSIP (sample_upstream ''quic://dns.example''))
      = sample_question\<lparr>Id := 21\<rparr>" by (simp add: ensureECS_def sample_upstream_def)
  have q: "sample_question = (sample_question\<lparr>Id := 21\<rparr>)\<lparr>Id := 0\<rparr>" by (simp add: sample_question_def)
  have s: "(lib_SetRcode sample_lib sample_question RcodeServerFailure) = servfail" "servfail\<lparr>Id := 0\<rparr> = servfail"
    by (simp_all add: servfail_def sample_lib_def sample_question_def blank_msg_def)
  have ne: "Question sample_question \<noteq> []" by (simp add: sample_question_def sample_request_def)
  show ?thesis
    by (subst doq_end_to_end [where asked = sample_question and b = "''q''" and resp = servfail and rb = "''f''"
          and got = servfail and short = truncated_reply and tb = "''t''" and L = sample_lib and W = three_wire
          and route = "\<lambda>q c. (None, Some err_eof)" and remote = "''192.0.2.1:9''",
          OF sample_edns0_documented addr])
      (simp_all add: ids q [symmetric] s ne route_or_failure_def three_wire_def three_distinct truncated_reply_def [symmetric])
qed

theorem doq_reply_framed_witness:
  "\<exists>out. handleQuicStream sample_lib three_wire (served sample_lib sample_router (sample_sched, sample_sched) (0, 0) None)
      ''192.0.2.1:9'' (frame ''q'', None) = Inr out"
  using doq_reply_framed [of three_wire sample_lib sample_router "(sample_sched, sample_sched)" "(0, 0)" None
      "''192.0.2.1:9''" "(frame ''q'', None)"] three_wire_length by fastforce

end
