(* ===== verification/Util.thy ===== *)
theory Util
  imports Config_Store
begin

text \<open>
  \<open>internal/util\<close>: downloading a file with validation and replacement (\<open>download.go\<close>), ports of
  addresses (\<open>net.go\<close>), certificates (\<open>tls.go\<close>, \<open>certmanager.go\<close>; the certificate library and
  autocert are parameters), and what the atomic replacement of a file is worth over many runs.
\<close>

section \<open>Download\<close>

definition maxDownloadSize :: nat where "maxDownloadSize = 512 * 2 ^ 20"

text \<open>
  What the outside answers: creating the temporary file, the HTTP response (status, the bytes of
  the body and the error that ends it), a failing write, and the other system calls.
\<close>

record download_env =
  de_create :: "goerr option"
  de_perm :: nat
  de_get :: "goerr + int \<times> string \<times> goerr option"
  de_write :: "(nat \<times> goerr) option"
  de_sync :: "goerr option"
  de_close :: "goerr option"
  de_rename :: "goerr option"
  de_remove :: bool

text \<open>\<open>io.Copy(out, io.LimitReader(body, max+1))\<close>: what is written, and the error.\<close>

definition copy_limited :: "nat \<Rightarrow> string \<times> goerr option \<Rightarrow> (nat \<times> goerr) option \<Rightarrow> string \<times> goerr option" where
  "copy_limited n body wr =
     (let got = take n (fst body);
          readErr = (if length (fst body) < n then snd body else None)
      in case wr of
           Some (k, e) \<Rightarrow> if k < length got then (take k got, Some e) else (got, readErr)
         | None \<Rightarrow> (got, readErr))"

definition DownloadFile ::
  "download_env \<Rightarrow> (string \<Rightarrow> goerr option) option \<Rightarrow> string \<Rightarrow> files \<Rightarrow> files list \<times> goerr option" where
  "DownloadFile env validator path fs =
     (let tempFile = path @ ''.tmp'';
          perm = (case fs tempFile of Some (_, p) \<Rightarrow> p | None \<Rightarrow> de_perm env)
      in case de_create env of
           Some e \<Rightarrow> ([fs], Some (Wrapf ''creating the temporary file failed'' e))
         | None \<Rightarrow>
        (let fs1 = fs(tempFile \<mapsto> ([], perm));
             fail = (\<lambda>states fs' e. (states @ [if de_remove env then fs'(tempFile := None) else fs'], Some e))
         in case de_get env of
              Inl e \<Rightarrow> fail [fs1] fs1 (Wrapf ''HTTP request failed'' e)
            | Inr (status, body) \<Rightarrow>
              if status \<noteq> 200 then fail [fs1] fs1 (Errorf ''download failed, status '' [])
              else
                (case copy_limited (maxDownloadSize + 1) body (de_write env) of (written, copyErr) \<Rightarrow>
                 (let fs2 = fs1(tempFile \<mapsto> (written, perm));
                      fs3 = fs2(tempFile := None, path \<mapsto> (written, perm))
                  in case copyErr of
                       Some e \<Rightarrow> fail [fs1, fs2] fs2 (Wrapf ''writing failed'' e)
                     | None \<Rightarrow>
                  if maxDownloadSize < length written then fail [fs1, fs2] fs2 (Errorf ''download too large'' [])
                  else if written = [] then fail [fs1, fs2] fs2 (Errorf ''download is empty'' [])
                  else (case de_sync env of
                       Some e \<Rightarrow> fail [fs1, fs2] fs2 (Wrapf ''sync failed'' e)
                     | None \<Rightarrow>
                  (case de_close env of
                       Some e \<Rightarrow> fail [fs1, fs2] fs2 (Wrapf ''close failed'' e)
                     | None \<Rightarrow>
                  (case (case validator of None \<Rightarrow> None | Some v \<Rightarrow> v written) of
                       Some e \<Rightarrow> fail [fs1, fs2] fs2 (Wrapf ''validation failed'' e)
                     | None \<Rightarrow>
                  (case de_rename env of
                       Some e \<Rightarrow> fail [fs1, fs2] fs2 (Wrapf ''rename failed'' e)
                     | None \<Rightarrow> ([fs1, fs2, fs3], None)))))))))"

section \<open>Ports and certificates\<close>

text \<open>\<open>strconv.Atoi\<close> on an \<open>int\<close> of 64 bits: an optional sign and decimal digits.\<close>

fun digits_val :: "nat \<Rightarrow> string \<Rightarrow> nat option" where
  "digits_val acc [] = Some acc"
| "digits_val acc (c # s) = (case digit_val c of None \<Rightarrow> None | Some d \<Rightarrow> digits_val (acc * 10 + d) s)"

definition strconv_Atoi :: "string \<Rightarrow> int option" where
  "strconv_Atoi s =
     (let neg = strings_HasPrefix s ''-'';
          ds = (if neg \<or> strings_HasPrefix s ''+'' then tl s else s)
      in if ds = [] then None
         else (case digits_val 0 ds of
           None \<Rightarrow> None
         | Some n \<Rightarrow>
             (let x = (if neg then - int n else int n) in if in_i64 x then Some x else None)))"

definition ParsePort :: "string \<Rightarrow> int" where
  "ParsePort addr =
     (case (case net_SplitHostPort addr of
              Some (_, portStr) \<Rightarrow> Some portStr
            | None \<Rightarrow>
                if strings_HasPrefix addr '':'' then Some (strings_TrimPrefix addr '':'') else None) of
        None \<Rightarrow> 0
      | Some portStr \<Rightarrow> (case strconv_Atoi portStr of None \<Rightarrow> 0 | Some port \<Rightarrow> port))"

text \<open>Loading a key pair is a parameter; all pairs must load.\<close>

fun LoadServerCertificates :: "(string \<Rightarrow> string \<Rightarrow> goerr + 'c) \<Rightarrow> tls_cert_config list \<Rightarrow> goerr + 'c list" where
  "LoadServerCertificates load [] = Inr []"
| "LoadServerCertificates load (c # cs) =
     (case load (tc_CertFile c) (tc_KeyFile c) of
        Inl e \<Rightarrow> Inl (Wrapf ''loading certificate and key failed'' e)
      | Inr cert \<Rightarrow> map_sum id (Cons cert) (LoadServerCertificates load cs))"

definition LoadServerCertificate :: "(string \<Rightarrow> string \<Rightarrow> goerr + 'c) \<Rightarrow> string \<Rightarrow> string \<Rightarrow> goerr + 'c list" where
  "LoadServerCertificate load certFile keyFile =
     (case load certFile keyFile of
        Inl e \<Rightarrow> Inl (Wrapf ''loading certificate and key failed'' e)
      | Inr cert \<Rightarrow> Inr [cert])"

text \<open>A certificate manager is disabled or has a cache directory, an e-mail and its domains.\<close>

datatype cert_manager = CertDisabled | CertEnabled string string "string list"

definition NewCertManager :: "(string \<Rightarrow> goerr option) \<Rightarrow> config \<Rightarrow> goerr + cert_manager" where
  "NewCertManager mkdirAll cfg =
     (let ac = cf_AutoCert cfg in
      if \<not> ac_Enabled ac then Inr CertDisabled
      else if ac_Domains ac = [] then Inl (Errorf ''auto_cert enabled but no domains specified'' [])
      else if ac_Email ac = [] then Inl (Errorf ''auto_cert enabled but email not specified'' [])
      else
        (let certDir = (if ac_CertDir ac = [] then ''certs'' else ac_CertDir ac) in
         case mkdirAll certDir of
           Some e \<Rightarrow> Inl (Wrapf ''failed to create cert dir'' e)
         | None \<Rightarrow> Inr (CertEnabled certDir (ac_Email ac) (ac_Domains ac))))"

text \<open>\<open>GetCertificateFunc() != nil\<close>.\<close>

fun GetCertificateFunc :: "cert_manager \<Rightarrow> bool" where
  "GetCertificateFunc CertDisabled = False"
| "GetCertificateFunc (CertEnabled _ _ _) = True"

section \<open>Replacing a file atomically\<close>

text \<open>Any number of runs of an operation, each of which may be cut off at any moment by a crash.\<close>

inductive crashing_runs :: "('e \<Rightarrow> files \<Rightarrow> files list) \<Rightarrow> files \<Rightarrow> files \<Rightarrow> bool" for run where
  none: "crashing_runs run fs fs"
| more: "crashing_runs run fs fs' \<Longrightarrow> fs'' \<in> set (run e fs') \<Longrightarrow> crashing_runs run fs fs''"

text \<open>
  The contract of an operation that replaces a file: at every moment of a run the file is as it
  was before, or good. It then holds after any number of runs.
\<close>

locale atomic_replacement =
  fixes run :: "'e \<Rightarrow> files \<Rightarrow> files list" and path :: string and good :: "(string \<times> nat) \<Rightarrow> bool"
  assumes run_atomic: "fs' \<in> set (run e fs) \<Longrightarrow> fs' path = fs path \<or> (\<exists>x. fs' path = Some x \<and> good x)"
begin

lemma crashing_runs_good:
  "crashing_runs run fs fs' \<Longrightarrow> fs' path = fs path \<or> (\<exists>x. fs' path = Some x \<and> good x)"
proof (induction rule: crashing_runs.induct)
  case (more fs fs' fs'' e)
  from run_atomic [OF more.hyps(2)] more.IH show ?case by metis
qed simp

end

text \<open>What a download may leave: a complete body that passed the validation and the size check.\<close>

definition validated :: "(string \<Rightarrow> goerr option) option \<Rightarrow> string \<times> nat \<Rightarrow> bool" where
  "validated v x \<longleftrightarrow> fst x \<noteq> [] \<and> length (fst x) \<le> maxDownloadSize \<and> (case v of None \<Rightarrow> True | Some f \<Rightarrow> f (fst x) = None)"

lemma tmp_other [simp]: "path @ ''.tmp'' \<noteq> path"
  by simp

lemma copy_limited_all: "copy_limited (Suc n) b wr = (w, None) \<Longrightarrow> length w \<le> n \<Longrightarrow> w = fst b"
  by (auto simp: copy_limited_def Let_def split: option.splits if_splits prod.splits)

lemma copy_limited_complete:
  "copy_limited (Suc n) b wr = (w, None) \<Longrightarrow> length w \<le> n \<Longrightarrow> snd b = None"
  by (auto simp: copy_limited_def Let_def split: option.splits if_splits prod.splits)

text \<open>Either a run fails and touches the temporary file only, or it installs a validated body.\<close>

definition failed_ok :: "bool \<Rightarrow> string \<Rightarrow> files \<Rightarrow> files list \<times> goerr option \<Rightarrow> bool" where
  "failed_ok removed path fs r \<longleftrightarrow> fst r \<noteq> [] \<and> (snd r \<noteq> None \<longrightarrow>
     (\<forall>fs' \<in> set (fst r). \<forall>q. q \<noteq> path @ ''.tmp'' \<longrightarrow> fs' q = fs q)
     \<and> (removed \<longrightarrow> last (fst r) (path @ ''.tmp'') = None))"

lemma failed_ok_created: "tmp = path @ ''.tmp'' \<Longrightarrow> fs1 = fs(tmp \<mapsto> a) \<Longrightarrow>
    failed_ok (rm \<and> x) path fs ([fs1] @ [if rm then fs1(tmp := None) else fs1], Some e)"
  unfolding failed_ok_def by auto

lemma failed_ok_written: "tmp = path @ ''.tmp'' \<Longrightarrow> fs1 = fs(tmp \<mapsto> a) \<Longrightarrow> fs2 = fs1(tmp \<mapsto> b) \<Longrightarrow>
    failed_ok (rm \<and> x) path fs ([fs1, fs2] @ [if rm then fs2(tmp := None) else fs2], Some e)"
  unfolding failed_ok_def by auto

lemma failed_ok_option:
  "failed_ok rm path fs a \<Longrightarrow> (\<And>e. failed_ok rm path fs (f e)) \<Longrightarrow> failed_ok rm path fs (case x of None \<Rightarrow> a | Some e \<Rightarrow> f e)"
  by (cases x) simp_all

lemma failed_ok_if: "failed_ok rm path fs a \<Longrightarrow> failed_ok rm path fs b \<Longrightarrow> failed_ok rm path fs (if p then a else b)"
  by simp

lemma DownloadFile_failed_ok:
  "failed_ok (de_remove env \<and> de_create env = None) path fs (DownloadFile env v path fs)"
proof (cases "de_create env")
  case (Some e)
  then show ?thesis by (simp add: DownloadFile_def failed_ok_def)
next
  case c: None
  show ?thesis
  proof (cases "de_get env")
    case (Inl e)
    with c show ?thesis by (simp add: DownloadFile_def Let_def failed_ok_def)
  next
    case (Inr sb)
    obtain status body where sb: "sb = (status, body)" by (cases sb)
    obtain w ce where w: "copy_limited (maxDownloadSize + 1) body (de_write env) = (w, ce)" by fastforce
    define perm where "perm = (case fs (path @ ''.tmp'') of Some (_, p) \<Rightarrow> p | None \<Rightarrow> de_perm env)"
    define fs1 where "fs1 = fs(path @ ''.tmp'' \<mapsto> ([], perm))"
    define fs2 where "fs2 = fs1(path @ ''.tmp'' \<mapsto> (w, perm))"
    note leaf1 = failed_ok_created [OF refl fs1_def] and leaf2 = failed_ok_written [OF refl fs1_def fs2_def]
    have leaf3: "failed_ok rm path fs ([fs1, fs2, fs3], None)" for rm fs3
      by (simp add: failed_ok_def)
    show ?thesis
      unfolding DownloadFile_def Let_def Inr sb sum.case prod.case w perm_def [symmetric] fs1_def [symmetric]
        fs2_def [symmetric]
      by (simp only: c option.case) (intro failed_ok_option failed_ok_if leaf1 leaf2 leaf3)
  qed
qed

lemma DownloadFile_failed:
  assumes "DownloadFile env v path fs = (states, Some e)"
  shows "\<forall>fs' \<in> set states. \<forall>q. q \<noteq> path @ ''.tmp'' \<longrightarrow> fs' q = fs q"
    and "de_remove env \<Longrightarrow> de_create env = None \<Longrightarrow> last states (path @ ''.tmp'') = None" and "states \<noteq> []"
  using DownloadFile_failed_ok [of env path fs v] assms by (simp_all add: failed_ok_def)

lemma DownloadFile_nonempty: "fst (DownloadFile env v path fs) \<noteq> []"
  using DownloadFile_failed_ok [of env path fs v] by (simp add: failed_ok_def)

lemma DownloadFile_done:
  assumes "DownloadFile env v path fs = (states, None)"
  obtains w perm where "de_get env = Inr (200, w, None)" "validated v (w, perm)"
    "\<forall>fs' \<in> set states. fs' path = fs path \<or> fs' path = Some (w, perm)"
    "last states = fs(path @ ''.tmp'' := None, path \<mapsto> (w, perm))"
    "\<forall>fs' \<in> set states. \<forall>q. q \<noteq> path \<and> q \<noteq> path @ ''.tmp'' \<longrightarrow> fs' q = fs q"
proof -
  obtain status body where g: "de_get env = Inr (status, body)"
    using assms by (auto simp: DownloadFile_def Let_def split: option.splits sum.splits)
  obtain w ce where c: "copy_limited (Suc maxDownloadSize) body (de_write env) = (w, ce)" by fastforce
  define perm where "perm = (case fs (path @ ''.tmp'') of Some (_, p) \<Rightarrow> p | None \<Rightarrow> de_perm env)"
  from assms g c have f: "status = 200" "ce = None" "length w \<le> maxDownloadSize" "w \<noteq> []"
    "case v of None \<Rightarrow> True | Some f \<Rightarrow> f w = None"
    and st: "states = [fs(path @ ''.tmp'' \<mapsto> ([], perm)), fs(path @ ''.tmp'' \<mapsto> (w, perm)),
        fs(path @ ''.tmp'' := None, path \<mapsto> (w, perm))]"
    by (auto simp: DownloadFile_def Let_def perm_def fun_upd_twist split: option.splits if_splits)
  from copy_limited_all [of maxDownloadSize body "de_write env" w] copy_limited_complete [of maxDownloadSize body "de_write env" w] c f
  have "body = (w, None)" by (cases body) simp
  show thesis
    by (rule that [of w perm]) (use f g st \<open>body = (w, None)\<close> in \<open>auto simp: validated_def split: option.splits\<close>)
qed

lemma DownloadFile_atomic:
  assumes "fs' \<in> set (fst (DownloadFile env v path fs))"
  shows "fs' path = fs path \<or> (\<exists>x. fs' path = Some x \<and> validated v x)"
proof (cases "snd (DownloadFile env v path fs)")
  case None
  then have "DownloadFile env v path fs = (fst (DownloadFile env v path fs), None)" by (simp add: prod_eq_iff)
  then show ?thesis by (rule DownloadFile_done) (use assms in blast)
next
  case (Some e)
  then have "DownloadFile env v path fs = (fst (DownloadFile env v path fs), Some e)" by (simp add: prod_eq_iff)
  from DownloadFile_failed(1) [OF this] assms tmp_other [of path] show ?thesis by metis
qed

interpretation downloads: atomic_replacement "\<lambda>env fs. fst (DownloadFile env v path fs)" path "validated v" for v path
  by unfold_locales (rule DownloadFile_atomic)

text \<open>A new temporary file never has the name of an existing one.\<close>

interpretation config_writes: atomic_replacement "\<lambda>f fs. if wf_temp f = Inr path then [] else fst (writeFileAtomic f path data perm fs)"
    path "\<lambda>x. x = (data, perm)" for path data perm
  by unfold_locales (auto split: if_splits dest: writeFileAtomic_states)

section \<open>Properties\<close>

text \<open>
  C25: A database file is only ever replaced by a complete, non-empty download of at most 512 MB
  that passed its validation: this holds at every moment of a download, whatever fails, and so
  after any number of downloads that crash anywhere; a download that reports an error has changed
  no file but its temporary one, which it removes if it can.
\<close>

theorem downloads_keep_good_file:
  assumes "crashing_runs (\<lambda>env fs. fst (DownloadFile env v path fs)) fs fs'"
    and "DownloadFile env v path fs' = (states, err)"
  shows "(fs' path = fs path \<or> (\<exists>x. fs' path = Some x \<and> validated v x))
    \<and> (err \<noteq> None \<longrightarrow> (\<forall>fs'' \<in> set states. \<forall>q. q \<noteq> path @ ''.tmp'' \<longrightarrow> fs'' q = fs' q)
          \<and> (de_remove env \<and> de_create env = None \<longrightarrow> last states (path @ ''.tmp'') = None))
    \<and> (err = None \<longrightarrow> (\<exists>w perm. de_get env = Inr (200, w, None) \<and> validated v (w, perm)
          \<and> last states path = Some (w, perm)))"
proof (intro conjI impI)
  show "fs' path = fs path \<or> (\<exists>x. fs' path = Some x \<and> validated v x)"
    using assms(1) by (rule downloads.crashing_runs_good)
  { assume "err \<noteq> None"
    then obtain e where "DownloadFile env v path fs' = (states, Some e)" using assms(2) by auto
    from DownloadFile_failed [OF this]
    show "\<forall>fs'' \<in> set states. \<forall>q. q \<noteq> path @ ''.tmp'' \<longrightarrow> fs'' q = fs' q"
      "de_remove env \<and> de_create env = None \<Longrightarrow> last states (path @ ''.tmp'') = None" by blast+ }
  assume "err = None"
  with assms(2) have "DownloadFile env v path fs' = (states, None)" by simp
  then show "\<exists>w perm. de_get env = Inr (200, w, None) \<and> validated v (w, perm) \<and> last states path = Some (w, perm)"
    by (rule DownloadFile_done) simp
qed

declare dec_string.simps [simp del]

lemma digits_val_snoc: "digits_val acc (s @ [c]) =
    Option.bind (digits_val acc s) (\<lambda>n. map_option (\<lambda>d. n * 10 + d) (digit_val c))"
  by (induction s arbitrary: acc) (auto split: option.splits)

lemma digit_val_dec: "n < 10 \<Longrightarrow> digit_val (dec_digit n) = Some n"
  by (simp add: digit_val_def dec_digit_def byte_def)

lemma digits_val_dec: "digits_val 0 (dec_string n) = Some n"
proof (induction n rule: dec_string.induct)
  case (1 n)
  show ?case
  proof (cases "n < 10")
    case True
    then show ?thesis by (subst dec_string.simps) (simp add: digit_val_dec)
  next
    case False
    with 1 show ?thesis
      by (subst dec_string.simps) (simp add: digits_val_snoc digit_val_dec)
  qed
qed

lemma dec_string_digits: "c \<in> set (dec_string n) \<Longrightarrow> 48 \<le> byte c \<and> byte c \<le> 57"
proof (induction n rule: dec_string.induct)
  case (1 n)
  have d: "48 \<le> byte (dec_digit k) \<and> byte (dec_digit k) \<le> 57" if "k < 10" for k
    using that by (simp add: dec_digit_def byte_def)
  from 1 d show ?case
    by (subst (asm) dec_string.simps) (auto split: if_splits)
qed

lemma dec_string_nonempty [simp]: "dec_string n \<noteq> []"
  by (subst dec_string.simps) simp

lemma Atoi_dec: "int n < 2 ^ 63 \<Longrightarrow> strconv_Atoi (dec_string n) = Some (int n)"
proof -
  assume n: "int n < 2 ^ 63"
  have "hd (dec_string n) \<in> set (dec_string n)" by (rule hd_in_set) simp
  from dec_string_digits [OF this] have "hd (dec_string n) \<noteq> CHR ''-'' \<and> hd (dec_string n) \<noteq> CHR ''+''"
    by (auto simp: byte_def)
  moreover obtain c s where "dec_string n = c # s" using dec_string_nonempty [of n] by (meson neq_Nil_conv)
  ultimately have "\<not> strings_HasPrefix (dec_string n) ''-''" "\<not> strings_HasPrefix (dec_string n) ''+''"
    by (auto simp: strings_HasPrefix_def)
  with n show ?thesis
    by (simp add: strconv_Atoi_def digits_val_dec in_i64_def)
qed

text \<open>
  The port of an address that joins a host and a decimal port is read back, for host names,
  IPv4 and IPv6 addresses; and so is that of a value that is a colon and a port.
\<close>

theorem ParsePort_reads_port:
  assumes "CHR ''['' \<notin> set h" "CHR '']'' \<notin> set h" "int n < 2 ^ 63"
  shows "ParsePort (net_JoinHostPort h (dec_string n)) = int n \<and> ParsePort (CHR '':'' # dec_string n) = int n"
proof -
  have digits: "c \<notin> set (dec_string n)" if "\<not> (48 \<le> byte c \<and> byte c \<le> 57)" for c
    using that dec_string_digits by blast
  have plain: "CHR '':'' \<notin> set (dec_string n)" "CHR ''['' \<notin> set (dec_string n)" "CHR '']'' \<notin> set (dec_string n)"
    by (rule digits, simp add: byte_def)+
  from net_SplitHostPort_JoinHostPort [OF assms(1,2) plain] assms(3)
  have "ParsePort (net_JoinHostPort h (dec_string n)) = int n"
    by (simp add: ParsePort_def Atoi_dec)
  moreover have "net_JoinHostPort [] (dec_string n) = CHR '':'' # dec_string n"
    by (simp add: net_JoinHostPort_def)
  with net_SplitHostPort_JoinHostPort [of "[]", OF _ _ plain] assms(3)
  have "ParsePort (CHR '':'' # dec_string n) = int n"
    by (simp add: ParsePort_def Atoi_dec)
  ultimately show ?thesis by blast
qed

section \<open>Witnesses\<close>

definition sample_download :: download_env where
  "sample_download = \<lparr>de_create = None, de_perm = 420, de_get = Inr (200, ''data'', None), de_write = None,
     de_sync = None, de_close = None, de_rename = Some ContextCanceled, de_remove = True\<rparr>"

theorem downloads_keep_good_file_witness:
  "\<exists>states err. DownloadFile sample_download None ''geo'' (Map.empty(''geo'' \<mapsto> (''old'', 420))) = (states, err)
     \<and> (err \<noteq> None \<longrightarrow> last states ''geo.tmp'' = None)"
proof -
  let ?fs = "Map.empty(''geo'' \<mapsto> (''old'', 420))"
  let ?d = "DownloadFile sample_download None ''geo'' ?fs"
  have "?d = (fst ?d, snd ?d)" by simp
  from downloads_keep_good_file [OF crashing_runs.none this] show ?thesis
    by (intro exI [of _ "fst ?d"] exI [of _ "snd ?d"]) (simp add: sample_download_def)
qed

theorem ParsePort_reads_port_witness: "ParsePort ''[::1]:8443'' = 8443"
proof -
  have "dec_string 8443 = ''8443''"
    by (simp add: dec_string.simps [of 8443] dec_string.simps [of 844] dec_string.simps [of 84] dec_string.simps [of 8]
        dec_digit_def) code_simp
  moreover have "net_JoinHostPort ''::1'' ''8443'' = ''[::1]:8443''" by code_simp
  ultimately show ?thesis using ParsePort_reads_port [of "''::1''" 8443] by simp
qed

end
