(* ===== verification/Manager.thy ===== *)
theory Manager
  imports Router Util LogFile
begin

text \<open>
  The service manager (\<open>internal/manager/manager.go\<close>) and the construction of the servers it
  starts (\<open>internal/server\<close>): starting, stopping and reloading with rollback, the automatic
  update of the databases, and their interleavings. A server is represented by what it was made
  for. Starting one spawns its goroutines, which bind the ports on their own time and may fail to;
  a failed bind is only logged. So what is recorded is which servers have been launched and not
  been stopped, that is, which can be listening; which Stop calls have reported an error (the
  manager logs it and forgets the server, which may go on listening); and how many routers and
  query loggers are open.
\<close>

section \<open>Servers\<close>

text \<open>A DNS server with its UDP and TCP address (empty for none), and so on; a DoQ server knows whether its listener could be made.\<close>

datatype server =
    ACMEServer
  | DNSServer string string
  | DoTServer string
  | DoQServer string bool
  | DoHServer string string

definition NewDNSServer :: "config \<Rightarrow> server" where
  "NewDNSServer cfg = DNSServer (DNSUDPAddr (cf_Listen cfg)) (DNSTCPAddr (cf_Listen cfg))"

text \<open>The certificates of the TLS servers: autocert, the configured pairs or the default pair.\<close>

definition server_certificates ::
  "(string \<Rightarrow> string \<Rightarrow> goerr + unit) \<Rightarrow> config \<Rightarrow> cert_manager option \<Rightarrow> goerr option" where
  "server_certificates load cfg cm =
     (if (case cm of Some c \<Rightarrow> GetCertificateFunc c | None \<Rightarrow> False) then None
      else (case (if cf_TLSCertificates cfg \<noteq> [] then LoadServerCertificates load (cf_TLSCertificates cfg)
                  else LoadServerCertificate load ''server.crt'' ''server.key'') of
        Inl e \<Rightarrow> Some e
      | Inr certs \<Rightarrow> None))"

definition NewDoTServer ::
  "(string \<Rightarrow> string \<Rightarrow> goerr + unit) \<Rightarrow> config \<Rightarrow> cert_manager option \<Rightarrow> server option" where
  "NewDoTServer load cfg cm =
     (if server_certificates load cfg cm \<noteq> None then None else Some (DoTServer (DOTAddr (cf_Listen cfg))))"

definition NewDoHServer ::
  "(string \<Rightarrow> string \<Rightarrow> goerr + unit) \<Rightarrow> config \<Rightarrow> cert_manager option \<Rightarrow> server option" where
  "NewDoHServer load cfg cm =
     (let dohPath = (if lc_DoHPath (cf_Listen cfg) = [] then ''/dns-query'' else lc_DoHPath (cf_Listen cfg)) in
      if server_certificates load cfg cm \<noteq> None then None else Some (DoHServer (DOHAddr (cf_Listen cfg)) dohPath))"

text \<open>\<open>NewDoQServer\<close> and its \<open>Start\<close>, which creates the listener.\<close>

definition NewDoQServer ::
  "(string \<Rightarrow> string \<Rightarrow> goerr + unit) \<Rightarrow> (string \<Rightarrow> goerr option) \<Rightarrow> config \<Rightarrow> cert_manager option \<Rightarrow> server" where
  "NewDoQServer load listen cfg cm =
     (let addr = DOQAddr (cf_Listen cfg) in
      DoQServer addr (server_certificates load cfg cm = None \<and> listen addr = None))"

text \<open>Whether \<open>Start\<close> leaves a goroutine behind that serves or is about to bind.\<close>

fun launches :: "server \<Rightarrow> bool" where
  "launches (DNSServer udp tcp) = (udp \<noteq> [] \<or> tcp \<noteq> [])"
| "launches (DoQServer addr ok) = ok"
| "launches _ = True"

section \<open>State\<close>

record manager =
  m_Config :: config
  m_GeoManager :: "geo_data_manager option"
  m_Router :: "router option"
  m_CertManager :: "cert_manager option"
  m_QueryLog :: "query_logger option"
  m_ACMEServer :: "server option"
  m_DNSServer :: "server option"
  m_DoTServer :: "server option"
  m_DoQServer :: "server option"
  m_DoHServer :: "server option"
  m_stopAutoUpdate :: bool
  m_launched :: "server list"
  m_stopFailed :: "server list"
  m_openRouters :: nat
  m_openLogs :: nat

definition NewServiceManager :: "config \<Rightarrow> manager" where
  "NewServiceManager cfg = \<lparr>m_Config = cfg, m_GeoManager = None, m_Router = None, m_CertManager = None,
     m_QueryLog = None, m_ACMEServer = None, m_DNSServer = None, m_DoTServer = None, m_DoQServer = None,
     m_DoHServer = None, m_stopAutoUpdate = False, m_launched = [], m_stopFailed = [], m_openRouters = 0, m_openLogs = 0\<rparr>"

text \<open>What the outside answers while services start and stop.\<close>

record start_env =
  se_geoip :: "string \<Rightarrow> goerr + (ip \<Rightarrow> string list)"
  se_geosite :: "string \<Rightarrow> goerr + (string \<Rightarrow> string list)"
  se_regexp :: "string \<Rightarrow> goerr + (string \<Rightarrow> bool)"
  se_connect :: "bootstrap_server list \<Rightarrow> client_kind \<Rightarrow> dns_client"
  se_mkdir :: "string \<Rightarrow> goerr option"
  se_load :: "string \<Rightarrow> string \<Rightarrow> goerr + unit"
  se_quic :: "string \<Rightarrow> goerr option"
  se_json :: json_lib
  se_log :: "string \<Rightarrow> opened"
  se_now :: int

record stop_env =
  so_server :: "server \<Rightarrow> goerr option"
  so_router :: "goerr option"

section \<open>Starting\<close>

text \<open>Put a server into its field and start it.\<close>

definition start_server :: "(server option \<Rightarrow> manager \<Rightarrow> manager) \<Rightarrow> server option \<Rightarrow> manager \<Rightarrow> manager" where
  "start_server setf so m =
     (let m' = setf so m in
      case so of
        None \<Rightarrow> m'
      | Some s \<Rightarrow> if launches s then m'\<lparr>m_launched := m_launched m' @ [s]\<rparr> else m')"

definition set_ACME :: "server option \<Rightarrow> manager \<Rightarrow> manager" where "set_ACME s m = m\<lparr>m_ACMEServer := s\<rparr>"
definition set_DNS :: "server option \<Rightarrow> manager \<Rightarrow> manager" where "set_DNS s m = m\<lparr>m_DNSServer := s\<rparr>"
definition set_DoT :: "server option \<Rightarrow> manager \<Rightarrow> manager" where "set_DoT s m = m\<lparr>m_DoTServer := s\<rparr>"
definition set_DoQ :: "server option \<Rightarrow> manager \<Rightarrow> manager" where "set_DoQ s m = m\<lparr>m_DoQServer := s\<rparr>"
definition set_DoH :: "server option \<Rightarrow> manager \<Rightarrow> manager" where "set_DoH s m = m\<lparr>m_DoHServer := s\<rparr>"

definition start_log :: "start_env \<Rightarrow> manager \<Rightarrow> manager" where
  "start_log env m =
     (let q = cf_QueryLog (m_Config m);
          logFile = (if ql_SaveToFile q \<and> ql_File q = [] then ''query.log'' else ql_File q);
          m1 = (if m_QueryLog m \<noteq> None then m\<lparr>m_openLogs := m_openLogs m - 1\<rparr> else m)
      in m1\<lparr>m_QueryLog := Some (NewQueryLogger (se_json env) (se_log env logFile) (ql_Enabled q) (ql_MaxHistory q)
                                  (ql_MaxSizeMB q) logFile (ql_SaveToFile q) (se_now env)),
            m_openLogs := m_openLogs m1 + 1\<rparr>)"

definition start_servers :: "start_env \<Rightarrow> manager \<Rightarrow> manager" where
  "start_servers env m =
     (let cfg = m_Config m;
          cm = m_CertManager m;
          l = cf_Listen cfg;
          m1 = (if ac_Enabled (cf_AutoCert cfg) \<and> cm \<noteq> None then start_server set_ACME (Some ACMEServer) m else m);
          m2 = (if lc_DNSUDP l \<noteq> [] \<or> lc_DNSTCP l \<noteq> [] then start_server set_DNS (Some (NewDNSServer cfg)) m1 else m1);
          m3 = (if lc_DOT l \<noteq> [] then start_server set_DoT (NewDoTServer (se_load env) cfg cm) m2 else m2);
          m4 = (if lc_DOQ l \<noteq> [] then start_server set_DoQ (Some (NewDoQServer (se_load env) (se_quic env) cfg cm)) m3 else m3)
      in if lc_DOH l \<noteq> [] then start_server set_DoH (NewDoHServer (se_load env) cfg cm) m4 else m4)"

definition startInternal :: "start_env \<Rightarrow> manager \<Rightarrow> manager \<times> goerr option" where
  "startInternal env m =
     (let cfg = m_Config m in
      case (if m_GeoManager m = None
            then NewGeoDataManager (se_geoip env) (se_geosite env) (gd_GeoIPDat (cf_GeoData cfg)) (gd_GeoSiteDat (cf_GeoData cfg))
            else (m_GeoManager m, None)) of
        (_, Some e) \<Rightarrow> (m, Some (Wrapf ''GeoManager init failed'' e))
      | (geo, None) \<Rightarrow>
          (let m1 = start_log env (m\<lparr>m_GeoManager := geo\<rparr>);
               m2 = m1\<lparr>m_Router := Some (NewRouter (se_regexp env) (se_connect env) cfg geo),
                       m_openRouters := m_openRouters m1 + 1\<rparr>;
               m3 = m2\<lparr>m_CertManager := (case NewCertManager (se_mkdir env) cfg of Inl e \<Rightarrow> None | Inr cm \<Rightarrow> Some cm)\<rparr>
           in (start_servers env m3, None)))"

section \<open>Stopping\<close>

text \<open>
  Stop a server if there is one; the field is cleared whatever \<open>Stop\<close> reports. A server whose \<open>Stop\<close>
  reports no error has ended (what that means for each kind of server is in Lifecycle); one whose
  \<open>Stop\<close> reports an error stays among the launched ones and is noted.
\<close>

definition stop_server ::
  "stop_env \<Rightarrow> (manager \<Rightarrow> server option) \<Rightarrow> (server option \<Rightarrow> manager \<Rightarrow> manager)
     \<Rightarrow> manager \<times> goerr option \<Rightarrow> manager \<times> goerr option" where
  "stop_server env getf setf me =
     (case getf (fst me) of
        None \<Rightarrow> me
      | Some s \<Rightarrow>
          (let err = so_server env s;
               m = (if \<not> launches s then fst me
                    else if err = None then (fst me)\<lparr>m_launched := remove1 s (m_launched (fst me))\<rparr>
                    else (fst me)\<lparr>m_stopFailed := s # m_stopFailed (fst me)\<rparr>)
           in (setf None m, if snd me = None then err else snd me)))"

definition stop_router :: "stop_env \<Rightarrow> manager \<times> goerr option \<Rightarrow> manager \<times> goerr option" where
  "stop_router env me =
     (if m_Router (fst me) = None then me
      else ((fst me)\<lparr>m_Router := None, m_openRouters := m_openRouters (fst me) - 1\<rparr>,
            if snd me = None then so_router env else snd me))"

definition stop_log :: "manager \<times> goerr option \<Rightarrow> manager \<times> goerr option" where
  "stop_log me =
     (if m_QueryLog (fst me) = None then me
      else ((fst me)\<lparr>m_QueryLog := None, m_openLogs := m_openLogs (fst me) - 1\<rparr>, snd me))"

definition stopInternal :: "stop_env \<Rightarrow> manager \<Rightarrow> manager \<times> goerr option" where
  "stopInternal env m =
     stop_log (stop_router env
       (stop_server env m_DoHServer set_DoH
         (stop_server env m_DoQServer set_DoQ
           (stop_server env m_DoTServer set_DoT
             (stop_server env m_DNSServer set_DNS
               (stop_server env m_ACMEServer set_ACME (m, None)))))))"

section \<open>Operations\<close>

definition manager_Start :: "start_env \<Rightarrow> manager \<Rightarrow> manager \<times> goerr option" where
  "manager_Start env m = startInternal env m"

text \<open>\<open>Reload\<close>: the log file it removes, the manager and the error. The answers are those of the
  stop, the start, and the stop and the start of the rollback.\<close>

definition removed_log :: "config \<Rightarrow> config \<Rightarrow> string option" where
  "removed_log oldCfg newCfg =
     (if ql_SaveToFile (cf_QueryLog oldCfg) \<and> \<not> ql_SaveToFile (cf_QueryLog newCfg)
      then Some (if ql_File (cf_QueryLog oldCfg) = [] then ''query.log'' else ql_File (cf_QueryLog oldCfg))
      else None)"

definition Reload ::
  "stop_env \<Rightarrow> start_env \<Rightarrow> stop_env \<Rightarrow> start_env \<Rightarrow> config \<Rightarrow> manager \<Rightarrow> string option \<times> manager \<times> goerr option" where
  "Reload so1 se1 so2 se2 newCfg m =
     (let oldGeo = cf_GeoData (m_Config m);
          geoChanged = (gd_GeoIPDat oldGeo \<noteq> gd_GeoIPDat (cf_GeoData newCfg) \<or>
                        gd_GeoSiteDat oldGeo \<noteq> gd_GeoSiteDat (cf_GeoData newCfg));
          m1 = fst (stopInternal so1 (if geoChanged then m\<lparr>m_GeoManager := None\<rparr> else m));
          oldCfg = m_Config m1;
          logGone = removed_log oldCfg newCfg
      in case startInternal se1 (m1\<lparr>m_Config := newCfg\<rparr>) of
           (m2, None) \<Rightarrow> (logGone, m2, None)
         | (m2, Some e) \<Rightarrow>
             (let m3 = fst (stopInternal so2 (m2\<lparr>m_Config := oldCfg, m_GeoManager := None\<rparr>)) in
              case startInternal se2 m3 of
                (m4, Some e2) \<Rightarrow>
                  (logGone, m4, Some (Wrapf ''failed to restart services (and the rollback failed)'' e))
              | (m4, None) \<Rightarrow> (logGone, m4, Some (Wrapf ''failed to restart services'' e))))"

definition reloadCurrent :: "stop_env \<Rightarrow> start_env \<Rightarrow> manager \<Rightarrow> manager \<times> goerr option" where
  "reloadCurrent so se m =
     (case startInternal se (fst (stopInternal so (m\<lparr>m_GeoManager := None\<rparr>))) of
        (m', None) \<Rightarrow> (m', None)
      | (m', Some e) \<Rightarrow> (m', Some (Wrapf ''failed to restart services'' e)))"

definition Snapshot :: "manager \<Rightarrow> config \<times> router option \<times> query_logger option" where
  "Snapshot m = (m_Config m, m_Router m, m_QueryLog m)"

section \<open>What is running\<close>

definition opt_list :: "'a option \<Rightarrow> 'a list" where
  "opt_list x = (case x of None \<Rightarrow> [] | Some a \<Rightarrow> [a])"

lemma opt_list_simps [simp]: "opt_list None = []" "opt_list (Some a) = [a]"
  by (simp_all add: opt_list_def)

definition servers :: "manager \<Rightarrow> server list" where
  "servers m = opt_list (m_ACMEServer m) @ opt_list (m_DNSServer m) @ opt_list (m_DoTServer m)
     @ opt_list (m_DoQServer m) @ opt_list (m_DoHServer m)"

text \<open>
  Everything launched and not stopped is in its field, or its \<open>Stop\<close> has reported an error; no
  router and no query logger is open that the manager does not hold.
\<close>

definition manager_inv :: "manager \<Rightarrow> bool" where
  "manager_inv m \<longleftrightarrow> mset (m_launched m) = mset (filter launches (servers m)) + mset (m_stopFailed m)
     \<and> m_openRouters m = (if m_Router m = None then 0 else 1)
     \<and> m_openLogs m = (if m_QueryLog m = None then 0 else 1)"

text \<open>Nothing is held, nothing is open, and only servers whose \<open>Stop\<close> reported an error can be listening.\<close>

definition idle :: "manager \<Rightarrow> bool" where
  "idle m \<longleftrightarrow> servers m = [] \<and> m_Router m = None \<and> m_QueryLog m = None
     \<and> mset (m_launched m) = mset (m_stopFailed m) \<and> m_openRouters m = 0 \<and> m_openLogs m = 0"

lemma idle_inv: "idle m \<Longrightarrow> manager_inv m"
  by (simp add: idle_def manager_inv_def)

text \<open>Every failed \<open>Stop\<close> is one that the answers in \<open>S\<close> let fail.\<close>

definition blamed :: "stop_env set \<Rightarrow> manager \<Rightarrow> bool" where
  "blamed S m \<longleftrightarrow> (\<forall>s \<in> set (m_stopFailed m). \<exists>env \<in> S. so_server env s \<noteq> None)"

text \<open>The rest of the manager, which starting and stopping a server does not touch.\<close>

definition rest :: "manager \<Rightarrow> config \<times> geo_data_manager option \<times> router option \<times> cert_manager option
    \<times> query_logger option \<times> bool \<times> nat \<times> nat" where
  "rest m = (m_Config m, m_GeoManager m, m_Router m, m_CertManager m, m_QueryLog m, m_stopAutoUpdate m,
     m_openRouters m, m_openLogs m)"

lemma rest_inv: "rest m = rest m' \<Longrightarrow>
    mset (m_launched m) = mset (filter launches (servers m)) + mset (m_stopFailed m) \<Longrightarrow>
    manager_inv m' \<Longrightarrow> manager_inv m"
  by (simp add: rest_def manager_inv_def)

text \<open>
  The interface between the start and stop sequences and a field for a server: what is proved of
  it holds for each of the five.
\<close>

locale server_slot =
  fixes getf :: "manager \<Rightarrow> server option" and setf :: "server option \<Rightarrow> manager \<Rightarrow> manager"
  assumes get_set: "getf (setf s m) = s"
    and servers_set: "mset (servers (setf s m)) + mset (opt_list (getf m)) = mset (servers m) + mset (opt_list s)"
    and running_set: "m_launched (setf s m) = m_launched m"
    and failed_set: "m_stopFailed (setf s m) = m_stopFailed m"
    and get_running: "getf (m\<lparr>m_launched := r\<rparr>) = getf m" "getf (m\<lparr>m_stopFailed := f\<rparr>) = getf m"
    and rest_set: "rest (setf s m) = rest m"
begin

lemma servers_running [simp]: "servers (m\<lparr>m_launched := r\<rparr>) = servers m" "servers (m\<lparr>m_stopFailed := f\<rparr>) = servers m"
  by (simp_all add: servers_def)

lemma rest_running [simp]: "rest (m\<lparr>m_launched := r\<rparr>) = rest m" "rest (m\<lparr>m_stopFailed := f\<rparr>) = rest m"
  by (simp_all add: rest_def)

lemma start_failed [simp]: "m_stopFailed (start_server setf so m) = m_stopFailed m"
  by (simp add: start_server_def Let_def failed_set split: option.split)

lemma start_rest: "rest (start_server setf so m) = rest m"
  by (simp add: start_server_def Let_def rest_set split: option.split)

lemma start_inv:
  assumes "manager_inv m" "getf m = None"
  shows "manager_inv (start_server setf so m)"
proof (rule rest_inv [OF start_rest _ assms(1)])
  have "mset (servers (setf so m)) = mset (servers m) + mset (opt_list so)"
    using servers_set [of so m] assms(2) by simp
  then have f: "mset (filter launches (servers (setf so m))) + mset (m_stopFailed m)
      = mset (m_launched m) + mset (filter launches (opt_list so))"
    using assms(1) by (simp add: manager_inv_def)
  then show "mset (m_launched (start_server setf so m))
      = mset (filter launches (servers (start_server setf so m))) + mset (m_stopFailed (start_server setf so m))"
    by (auto simp: start_server_def Let_def running_set failed_set split: option.split)
qed

lemma stop_rest: "rest (fst (stop_server env getf setf me)) = rest (fst me)"
  by (simp add: stop_server_def Let_def rest_set split: option.split)

lemma stop_fields:
  assumes "getf (fst me) = Some s"
  shows "add_mset s (mset (servers (fst (stop_server env getf setf me)))) = mset (servers (fst me))"
  using servers_set [of None "fst me"] servers_set [of None "(fst me)\<lparr>m_launched := remove1 s (m_launched (fst me))\<rparr>"]
    servers_set [of None "(fst me)\<lparr>m_stopFailed := s # m_stopFailed (fst me)\<rparr>"] assms
  by (simp add: stop_server_def Let_def get_running)

lemma stop_none: "getf (fst me) = None \<Longrightarrow> stop_server env getf setf me = me"
  by (simp add: stop_server_def)

lemma stop_get: "getf (fst (stop_server env getf setf me)) = None"
  by (cases "getf (fst me)") (simp_all add: stop_none stop_server_def Let_def get_set)

lemma stop_inv:
  assumes "manager_inv (fst me)"
  shows "manager_inv (fst (stop_server env getf setf me))"
proof (cases "getf (fst me)")
  case None
  then show ?thesis using assms by (simp add: stop_none)
next
  case (Some s)
  let ?m' = "fst (stop_server env getf setf me)"
  let ?A = "filter_mset launches (mset (servers ?m'))" and ?F = "mset (m_stopFailed (fst me))"
  have m: "mset (m_launched (fst me)) = filter_mset launches (mset (servers (fst me))) + ?F"
    using assms by (simp add: manager_inv_def)
  have A: "filter_mset launches (mset (servers (fst me))) = (if launches s then add_mset s ?A else ?A)"
    by (simp flip: stop_fields [OF Some, of env])
  have "mset (m_launched ?m') = ?A + mset (m_stopFailed ?m')"
  proof (cases "launches s")
    case True
    with m A have "mset (m_launched (fst me)) = add_mset s ?A + ?F" by simp
    then show ?thesis using Some True
      by (simp add: stop_server_def Let_def running_set failed_set)
  next
    case False
    with m A Some show ?thesis by (simp add: stop_server_def Let_def running_set failed_set)
  qed
  then show ?thesis by (intro rest_inv [OF stop_rest _ assms]) simp
qed

lemma stop_failed:
  "set (m_stopFailed (fst (stop_server env getf setf me)))
     \<subseteq> set (m_stopFailed (fst me)) \<union> {s. so_server env s \<noteq> None}"
  by (auto simp: stop_server_def Let_def failed_set split: option.splits if_splits)

end

interpretation ACME_slot: server_slot m_ACMEServer set_ACME
  by unfold_locales (simp_all add: set_ACME_def servers_def rest_def)
interpretation DNS_slot: server_slot m_DNSServer set_DNS
  by unfold_locales (simp_all add: set_DNS_def servers_def rest_def)
interpretation DoT_slot: server_slot m_DoTServer set_DoT
  by unfold_locales (simp_all add: set_DoT_def servers_def rest_def)
interpretation DoQ_slot: server_slot m_DoQServer set_DoQ
  by unfold_locales (simp_all add: set_DoQ_def servers_def rest_def)
interpretation DoH_slot: server_slot m_DoHServer set_DoH
  by unfold_locales (simp_all add: set_DoH_def servers_def rest_def)

lemmas set_defs = set_ACME_def set_DNS_def set_DoT_def set_DoQ_def set_DoH_def

text \<open>Starting or stopping one server leaves the fields of the others alone.\<close>

lemma start_others [simp]:
  "m_DNSServer (start_server set_ACME so m) = m_DNSServer m" "m_DoTServer (start_server set_ACME so m) = m_DoTServer m"
  "m_DoQServer (start_server set_ACME so m) = m_DoQServer m" "m_DoHServer (start_server set_ACME so m) = m_DoHServer m"
  "m_DoTServer (start_server set_DNS so m) = m_DoTServer m" "m_DoQServer (start_server set_DNS so m) = m_DoQServer m"
  "m_DoHServer (start_server set_DNS so m) = m_DoHServer m" "m_DoQServer (start_server set_DoT so m) = m_DoQServer m"
  "m_DoHServer (start_server set_DoT so m) = m_DoHServer m" "m_DoHServer (start_server set_DoQ so m) = m_DoHServer m"
  by (simp_all add: start_server_def Let_def set_defs split: option.split)

lemma stop_others [simp]:
  "m_ACMEServer (fst (stop_server env m_DNSServer set_DNS me)) = m_ACMEServer (fst me)"
  "m_ACMEServer (fst (stop_server env m_DoTServer set_DoT me)) = m_ACMEServer (fst me)"
  "m_ACMEServer (fst (stop_server env m_DoQServer set_DoQ me)) = m_ACMEServer (fst me)"
  "m_ACMEServer (fst (stop_server env m_DoHServer set_DoH me)) = m_ACMEServer (fst me)"
  "m_DNSServer (fst (stop_server env m_DoTServer set_DoT me)) = m_DNSServer (fst me)"
  "m_DNSServer (fst (stop_server env m_DoQServer set_DoQ me)) = m_DNSServer (fst me)"
  "m_DNSServer (fst (stop_server env m_DoHServer set_DoH me)) = m_DNSServer (fst me)"
  "m_DoTServer (fst (stop_server env m_DoQServer set_DoQ me)) = m_DoTServer (fst me)"
  "m_DoTServer (fst (stop_server env m_DoHServer set_DoH me)) = m_DoTServer (fst me)"
  "m_DoQServer (fst (stop_server env m_DoHServer set_DoH me)) = m_DoQServer (fst me)"
  by (simp_all add: stop_server_def Let_def set_defs split: option.split)

lemmas start_slots = ACME_slot.start_inv DNS_slot.start_inv DoT_slot.start_inv DoQ_slot.start_inv DoH_slot.start_inv
lemmas start_rests = ACME_slot.start_rest DNS_slot.start_rest DoT_slot.start_rest DoQ_slot.start_rest DoH_slot.start_rest
lemmas stop_slots = ACME_slot.stop_inv DNS_slot.stop_inv DoT_slot.stop_inv DoQ_slot.stop_inv DoH_slot.stop_inv
lemmas stop_rests = ACME_slot.stop_rest DNS_slot.stop_rest DoT_slot.stop_rest DoQ_slot.stop_rest DoH_slot.stop_rest
lemmas stop_gets = ACME_slot.stop_get DNS_slot.stop_get DoT_slot.stop_get DoQ_slot.stop_get DoH_slot.stop_get

lemma start_servers_inv:
  assumes "manager_inv m" "servers m = []"
  shows "manager_inv (start_servers env m) \<and> rest (start_servers env m) = rest m"
proof -
  from assms(2) have "m_ACMEServer m = None" "m_DNSServer m = None" "m_DoTServer m = None" "m_DoQServer m = None"
    "m_DoHServer m = None" by (simp_all add: servers_def opt_list_def split: option.splits)
  with assms(1) show ?thesis
    by (auto simp: start_servers_def Let_def start_rests intro!: start_slots)
qed

text \<open>Stopping forgets everything, and what it does not end is a server whose \<open>Stop\<close> failed.\<close>

lemma stopInternal_rest:
  "m_Config (fst (stopInternal env m)) = m_Config m" "m_GeoManager (fst (stopInternal env m)) = m_GeoManager m"
  "m_stopAutoUpdate (fst (stopInternal env m)) = m_stopAutoUpdate m"
  "m_Router (fst (stopInternal env m)) = None" "m_QueryLog (fst (stopInternal env m)) = None"
  "servers (fst (stopInternal env m)) = []"
proof -
  define me where "me = stop_server env m_DoHServer set_DoH (stop_server env m_DoQServer set_DoQ
     (stop_server env m_DoTServer set_DoT (stop_server env m_DNSServer set_DNS (stop_server env m_ACMEServer set_ACME (m, None)))))"
  have rest: "rest (fst me) = rest m" by (simp add: me_def stop_rests)
  have none: "servers (fst me) = []"
    unfolding me_def servers_def by (simp add: stop_gets)
  show "m_Config (fst (stopInternal env m)) = m_Config m" "m_GeoManager (fst (stopInternal env m)) = m_GeoManager m"
    "m_stopAutoUpdate (fst (stopInternal env m)) = m_stopAutoUpdate m"
    "m_Router (fst (stopInternal env m)) = None" "m_QueryLog (fst (stopInternal env m)) = None"
    "servers (fst (stopInternal env m)) = []"
    using rest none by (simp_all add: stopInternal_def me_def [symmetric] rest_def stop_router_def stop_log_def servers_def)
qed

lemma stopInternal_idle:
  assumes "manager_inv m"
  shows "idle (fst (stopInternal env m))"
proof -
  define me where "me = stop_server env m_DoHServer set_DoH (stop_server env m_DoQServer set_DoQ
     (stop_server env m_DoTServer set_DoT (stop_server env m_DNSServer set_DNS (stop_server env m_ACMEServer set_ACME (m, None)))))"
  have inv: "manager_inv (fst me)" unfolding me_def using assms by (intro stop_slots) simp_all
  have none: "servers (fst me) = []" unfolding me_def servers_def by (simp add: stop_gets)
  from inv none show ?thesis
    by (auto simp: stopInternal_def me_def [symmetric] idle_def manager_inv_def stop_router_def stop_log_def servers_def)
qed

lemmas stop_faileds = ACME_slot.stop_failed DNS_slot.stop_failed DoT_slot.stop_failed DoQ_slot.stop_failed DoH_slot.stop_failed

lemma subset_chain: "A \<subseteq> M \<union> E \<Longrightarrow> B \<subseteq> A \<union> E \<Longrightarrow> B \<subseteq> M \<union> E"
  by blast

lemma stopInternal_failed:
  "set (m_stopFailed (fst (stopInternal env m))) \<subseteq> set (m_stopFailed m) \<union> {s. so_server env s \<noteq> None}"
proof -
  define me where "me = stop_server env m_DoHServer set_DoH (stop_server env m_DoQServer set_DoQ
     (stop_server env m_DoTServer set_DoT (stop_server env m_DNSServer set_DNS (stop_server env m_ACMEServer set_ACME (m, None)))))"
  have e: "m_stopFailed (fst (stopInternal env m)) = m_stopFailed (fst me)"
    by (simp add: stopInternal_def me_def stop_router_def stop_log_def)
  have "set (m_stopFailed (fst me)) \<subseteq> set (m_stopFailed (fst (m, None :: goerr option))) \<union> {s. so_server env s \<noteq> None}"
    unfolding me_def by (intro subset_chain [OF _ stop_faileds(5)] subset_chain [OF _ stop_faileds(4)]
        subset_chain [OF _ stop_faileds(3)] subset_chain [OF _ stop_faileds(2)] stop_faileds(1))
  with e show ?thesis by simp
qed

lemma start_servers_stopFailed [simp]: "m_stopFailed (start_servers env m) = m_stopFailed m"
  unfolding start_servers_def Let_def by simp

lemma start_log_stopFailed [simp]: "m_stopFailed (start_log env m) = m_stopFailed m"
  by (simp add: start_log_def Let_def)

lemma startInternal_stopFailed [simp]: "m_stopFailed (fst (startInternal env m)) = m_stopFailed m"
  by (simp add: startInternal_def Let_def split: prod.split option.split)

lemma stopInternal_blamed: "blamed S m \<Longrightarrow> env \<in> S \<Longrightarrow> blamed S (fst (stopInternal env m))"
  using stopInternal_failed [of env m] unfolding blamed_def by blast

text \<open>What a successful start makes of an idle manager.\<close>

lemma startInternal_started:
  assumes "startInternal env m = (m', None)" "idle m"
  shows "manager_inv m'" "m_Config m' = m_Config m" "m_stopAutoUpdate m' = m_stopAutoUpdate m"
    "m_Router m' \<noteq> None" "m_QueryLog m' \<noteq> None" "m_GeoManager m' \<noteq> None"
proof -
  obtain geo where geo: "(if m_GeoManager m = None
            then NewGeoDataManager (se_geoip env) (se_geosite env) (gd_GeoIPDat (cf_GeoData (m_Config m))) (gd_GeoSiteDat (cf_GeoData (m_Config m)))
            else (m_GeoManager m, None)) = (Some geo, None)"
    using assms(1) by (auto simp: startInternal_def NewGeoDataManager_def Let_def split: sum.splits if_splits)
  define m3 where "m3 = (let m1 = start_log env (m\<lparr>m_GeoManager := Some geo\<rparr>);
      m2 = m1\<lparr>m_Router := Some (NewRouter (se_regexp env) (se_connect env) (m_Config m) (Some geo)), m_openRouters := m_openRouters m1 + 1\<rparr>
    in m2\<lparr>m_CertManager := (case NewCertManager (se_mkdir env) (m_Config m) of Inl e \<Rightarrow> None | Inr cm \<Rightarrow> Some cm)\<rparr>)"
  have m': "m' = start_servers env m3"
    using assms(1) by (simp add: startInternal_def geo m3_def Let_def)
  have "manager_inv m3" "servers m3 = []"
    using assms(2) by (simp_all add: m3_def Let_def start_log_def manager_inv_def idle_def servers_def opt_list_def split: option.splits)
  from start_servers_inv [OF this, of env] have inv: "manager_inv m'" and r: "rest m' = rest m3" unfolding m' by blast+
  from r have f: "m_Config m' = m_Config m3" "m_stopAutoUpdate m' = m_stopAutoUpdate m3" "m_Router m' = m_Router m3"
    "m_QueryLog m' = m_QueryLog m3" "m_GeoManager m' = m_GeoManager m3" by (simp_all add: rest_def)
  show "manager_inv m'" by (rule inv)
  show "m_Config m' = m_Config m" "m_stopAutoUpdate m' = m_stopAutoUpdate m"
    "m_Router m' \<noteq> None" "m_QueryLog m' \<noteq> None" "m_GeoManager m' \<noteq> None"
    using f by (simp_all add: m3_def Let_def start_log_def)
qed

lemma startInternal_failed: "startInternal env m = (m', Some e) \<Longrightarrow> m' = m"
  by (auto simp: startInternal_def Let_def split: prod.splits option.splits)

subsection \<open>The servers a configuration asks for\<close>

definition wanted :: "start_env \<Rightarrow> config \<Rightarrow> cert_manager option \<Rightarrow> server list" where
  "wanted env cfg cm =
     (let l = cf_Listen cfg in
      (if ac_Enabled (cf_AutoCert cfg) \<and> cm \<noteq> None then [ACMEServer] else [])
      @ (if lc_DNSUDP l \<noteq> [] \<or> lc_DNSTCP l \<noteq> [] then [NewDNSServer cfg] else [])
      @ (if lc_DOT l \<noteq> [] then opt_list (NewDoTServer (se_load env) cfg cm) else [])
      @ (if lc_DOQ l \<noteq> [] then [NewDoQServer (se_load env) (se_quic env) cfg cm] else [])
      @ (if lc_DOH l \<noteq> [] then opt_list (NewDoHServer (se_load env) cfg cm) else []))"

lemma start_servers_wanted:
  assumes "servers m = []"
  shows "servers (start_servers env m) = wanted env (m_Config m) (m_CertManager m)"
proof -
  have f: "m_ACMEServer m = None" "m_DNSServer m = None" "m_DoTServer m = None" "m_DoQServer m = None"
    "m_DoHServer m = None" using assms by (simp_all add: servers_def opt_list_def split: option.splits)
  have a: "m_ACMEServer (start_server set_ACME so x) = so" "m_DNSServer (start_server set_DNS so x) = so"
    "m_DoTServer (start_server set_DoT so x) = so" "m_DoQServer (start_server set_DoQ so x) = so"
    "m_DoHServer (start_server set_DoH so x) = so" for so x
    by (simp_all add: start_server_def Let_def set_defs split: option.split)
  have b: "m_ACMEServer (start_server set_DNS so x) = m_ACMEServer x" "m_ACMEServer (start_server set_DoT so x) = m_ACMEServer x"
    "m_ACMEServer (start_server set_DoQ so x) = m_ACMEServer x" "m_ACMEServer (start_server set_DoH so x) = m_ACMEServer x"
    "m_DNSServer (start_server set_DoT so x) = m_DNSServer x" "m_DNSServer (start_server set_DoQ so x) = m_DNSServer x"
    "m_DNSServer (start_server set_DoH so x) = m_DNSServer x" "m_DoTServer (start_server set_DoQ so x) = m_DoTServer x"
    "m_DoTServer (start_server set_DoH so x) = m_DoTServer x" "m_DoQServer (start_server set_DoH so x) = m_DoQServer x" for so x
    by (simp_all add: start_server_def Let_def set_defs split: option.split)
  have s1: "m_ACMEServer (start_servers env m) = (if ac_Enabled (cf_AutoCert (m_Config m)) \<and> m_CertManager m \<noteq> None then Some ACMEServer else None)"
    by (simp add: start_servers_def Let_def a b f)
  have s2: "m_DNSServer (start_servers env m) = (if lc_DNSUDP (cf_Listen (m_Config m)) \<noteq> [] \<or> lc_DNSTCP (cf_Listen (m_Config m)) \<noteq> []
      then Some (NewDNSServer (m_Config m)) else None)"
    by (simp add: start_servers_def Let_def a b f)
  have s3: "m_DoTServer (start_servers env m) = (if lc_DOT (cf_Listen (m_Config m)) \<noteq> []
      then NewDoTServer (se_load env) (m_Config m) (m_CertManager m) else None)"
    by (simp add: start_servers_def Let_def a b f)
  have s4: "m_DoQServer (start_servers env m) = (if lc_DOQ (cf_Listen (m_Config m)) \<noteq> []
      then Some (NewDoQServer (se_load env) (se_quic env) (m_Config m) (m_CertManager m)) else None)"
    by (simp add: start_servers_def Let_def a b f)
  have s5: "m_DoHServer (start_servers env m) = (if lc_DOH (cf_Listen (m_Config m)) \<noteq> []
      then NewDoHServer (se_load env) (m_Config m) (m_CertManager m) else None)"
    by (simp add: start_servers_def Let_def a b f)
  show ?thesis by (simp add: servers_def s1 s2 s3 s4 s5 wanted_def Let_def)
qed

text \<open>A manager that serves a configuration.\<close>

definition serving :: "start_env \<Rightarrow> config \<Rightarrow> manager \<Rightarrow> bool" where
  "serving env cfg m \<longleftrightarrow> manager_inv m \<and> m_Config m = cfg \<and> m_Router m \<noteq> None \<and> m_QueryLog m \<noteq> None
     \<and> m_GeoManager m \<noteq> None \<and> servers m = wanted env cfg (m_CertManager m)"

lemma startInternal_serving:
  assumes "startInternal env m = (m', None)" "idle m"
  shows "serving env (m_Config m) m'"
proof -
  note st = startInternal_started [OF assms]
  obtain m3 where m3: "m' = start_servers env m3" "servers m3 = []" "m_Config m3 = m_Config m"
    using assms by (fastforce simp: startInternal_def Let_def start_log_def idle_def servers_def
        split: prod.splits option.splits)
  have "rest (start_servers env m3) = rest m3" unfolding start_servers_def Let_def by (simp add: start_rests)
  then have "m_CertManager m' = m_CertManager m3" by (simp add: m3(1) rest_def)
  with start_servers_wanted [OF m3(2), of env] m3 have "servers m' = wanted env (m_Config m) (m_CertManager m')"
    by simp
  with st show ?thesis by (simp add: serving_def)
qed

text \<open>A start succeeds exactly if the databases are there already or load.\<close>

definition geo_loads :: "start_env \<Rightarrow> geo_data_config \<Rightarrow> bool" where
  "geo_loads env g \<longleftrightarrow> snd (NewGeoDataManager (se_geoip env) (se_geosite env) (gd_GeoIPDat g) (gd_GeoSiteDat g)) = None"

lemma startInternal_ok_iff:
  "snd (startInternal env m) = None \<longleftrightarrow> m_GeoManager m \<noteq> None \<or> geo_loads env (cf_GeoData (m_Config m))"
  by (auto simp: startInternal_def geo_loads_def Let_def split: prod.splits option.splits)

lemma idle_set [simp]: "idle (m\<lparr>m_Config := c\<rparr>) = idle m" "idle (m\<lparr>m_GeoManager := g\<rparr>) = idle m"
  by (simp_all add: idle_def servers_def)

lemma manager_inv_geo [simp]: "manager_inv (m\<lparr>m_GeoManager := g\<rparr>) = manager_inv m"
  by (simp add: manager_inv_def servers_def)

text \<open>Start from idle: either it serves, or nothing has changed.\<close>

lemma startInternal_cases:
  assumes "idle m"
  obtains (ok) m' where "startInternal env m = (m', None)" "serving env (m_Config m) m'"
      "m_stopAutoUpdate m' = m_stopAutoUpdate m"
  | (failed) e where "startInternal env m = (m, Some e)" "m_GeoManager m = None" "\<not> geo_loads env (cf_GeoData (m_Config m))"
proof (cases "startInternal env m")
  case (Pair m' err)
  show thesis
  proof (cases err)
    case None
    with Pair have "startInternal env m = (m', None)" by simp
    with startInternal_serving [OF this assms] startInternal_started(3) [OF this assms] show thesis by (intro ok)
  next
    case (Some e)
    with Pair have s: "startInternal env m = (m', Some e)" by simp
    with startInternal_ok_iff [of env m] startInternal_failed [OF s] show thesis by (intro failed) auto
  qed
qed

lemma serving_inv: "serving env cfg m \<Longrightarrow> manager_inv m" by (simp add: serving_def)

text \<open>Whether a reload keeps the databases.\<close>

definition geo_kept :: "config \<Rightarrow> manager \<Rightarrow> bool" where
  "geo_kept newCfg m \<longleftrightarrow> m_GeoManager m \<noteq> None
     \<and> gd_GeoIPDat (cf_GeoData (m_Config m)) = gd_GeoIPDat (cf_GeoData newCfg)
     \<and> gd_GeoSiteDat (cf_GeoData (m_Config m)) = gd_GeoSiteDat (cf_GeoData newCfg)"

lemma Reload_outcome:
  assumes inv: "manager_inv m"
    and r: "Reload so1 se1 so2 se2 newCfg m = (gone, m', err)"
  shows "manager_inv m'" "m_stopAutoUpdate m' = m_stopAutoUpdate m"
    "err = None \<Longrightarrow> serving se1 newCfg m'"
    "err \<noteq> None \<Longrightarrow> m_Config m' = m_Config m
       \<and> (if geo_loads se2 (cf_GeoData (m_Config m)) then serving se2 (m_Config m) m' else idle m')"
    "err = None \<longleftrightarrow> geo_kept newCfg m \<or> geo_loads se1 (cf_GeoData newCfg)"
proof -
  define changed where "changed \<longleftrightarrow> gd_GeoIPDat (cf_GeoData (m_Config m)) \<noteq> gd_GeoIPDat (cf_GeoData newCfg)
     \<or> gd_GeoSiteDat (cf_GeoData (m_Config m)) \<noteq> gd_GeoSiteDat (cf_GeoData newCfg)"
  define m0 where "m0 = (if changed then m\<lparr>m_GeoManager := None\<rparr> else m)"
  define m1 where "m1 = fst (stopInternal so1 m0)"
  have m0: "manager_inv m0" "m_Config m0 = m_Config m" "m_stopAutoUpdate m0 = m_stopAutoUpdate m"
    "m_GeoManager m0 \<noteq> None \<longleftrightarrow> geo_kept newCfg m"
    using inv by (auto simp: m0_def geo_kept_def changed_def)
  have m1: "idle m1" "m_Config m1 = m_Config m" "m_stopAutoUpdate m1 = m_stopAutoUpdate m"
    "m_GeoManager m1 \<noteq> None \<longleftrightarrow> geo_kept newCfg m"
    using stopInternal_idle [OF m0(1)] stopInternal_rest [of so1 m0] m0 by (simp_all add: m1_def)
  define m2 where "m2 = m1\<lparr>m_Config := newCfg\<rparr>"
  have m2: "idle m2" "m_Config m2 = newCfg" "m_stopAutoUpdate m2 = m_stopAutoUpdate m"
    "m_GeoManager m2 \<noteq> None \<longleftrightarrow> geo_kept newCfg m"
    using m1 by (simp_all add: m2_def)
  have red: "Reload so1 se1 so2 se2 newCfg m = (case startInternal se1 m2 of
      (m2', None) \<Rightarrow> (removed_log (m_Config m) newCfg, m2', None)
    | (m2', Some e) \<Rightarrow> (case startInternal se2 (fst (stopInternal so2 (m2'\<lparr>m_Config := m_Config m, m_GeoManager := None\<rparr>))) of
          (m4, Some e2) \<Rightarrow> (removed_log (m_Config m) newCfg, m4, Some (Wrapf ''failed to restart services (and the rollback failed)'' e))
        | (m4, None) \<Rightarrow> (removed_log (m_Config m) newCfg, m4, Some (Wrapf ''failed to restart services'' e))))"
    unfolding Reload_def Let_def changed_def [symmetric] m0_def [symmetric] m1_def [symmetric] m1(2) m2_def [symmetric]
    by (rule refl)
  have "manager_inv m' \<and> m_stopAutoUpdate m' = m_stopAutoUpdate m \<and> (err = None \<longrightarrow> serving se1 newCfg m')
    \<and> (err \<noteq> None \<longrightarrow> m_Config m' = m_Config m
         \<and> (if geo_loads se2 (cf_GeoData (m_Config m)) then serving se2 (m_Config m) m' else idle m'))
    \<and> (err = None \<longleftrightarrow> geo_kept newCfg m \<or> geo_loads se1 (cf_GeoData newCfg))"
    using m2(1)
  proof (cases rule: startInternal_cases [of m2 se1])
    case (ok ms)
    with r red have "m' = ms" "err = None" by simp_all
    with ok m2 startInternal_ok_iff [of se1 m2] show ?thesis by (simp add: serving_inv)
  next
    case (failed e)
    define m3 where "m3 = fst (stopInternal so2 (m2\<lparr>m_Config := m_Config m, m_GeoManager := None\<rparr>))"
    have m3: "idle m3" "m_Config m3 = m_Config m" "m_stopAutoUpdate m3 = m_stopAutoUpdate m" "m_GeoManager m3 = None"
      using stopInternal_idle [of "m2\<lparr>m_Config := m_Config m, m_GeoManager := None\<rparr>"] m2 idle_inv
      by (simp_all add: m3_def stopInternal_rest)
    have r2: "(gone, m', err) = (case startInternal se2 m3 of
          (m4, Some e2) \<Rightarrow> (removed_log (m_Config m) newCfg, m4, Some (Wrapf ''failed to restart services (and the rollback failed)'' e))
        | (m4, None) \<Rightarrow> (removed_log (m_Config m) newCfg, m4, Some (Wrapf ''failed to restart services'' e)))"
      using r red failed(1) by (simp add: m3_def)
    from m2(4) failed(2,3) m2(2) have no: "\<not> (geo_kept newCfg m \<or> geo_loads se1 (cf_GeoData newCfg))" by simp
    show ?thesis using m3(1)
    proof (cases rule: startInternal_cases [of m3 se2])
      case (ok ms)
      with r2 have "m' = ms" "err \<noteq> None" by simp_all
      moreover have "geo_loads se2 (cf_GeoData (m_Config m))"
        using startInternal_ok_iff [of se2 m3] ok(1) m3 by simp
      moreover have "m_Config ms = m_Config m" using ok(2) m3(2) by (simp add: serving_def)
      ultimately show ?thesis using ok m3 no by (auto simp: serving_inv)
    next
      case (failed e')
      with r2 have "m' = m3" "err \<noteq> None" by simp_all
      with failed m3 no show ?thesis by (auto simp: idle_inv)
    qed
  qed
  then show "manager_inv m'" "m_stopAutoUpdate m' = m_stopAutoUpdate m"
    "err = None \<Longrightarrow> serving se1 newCfg m'"
    "err \<noteq> None \<Longrightarrow> m_Config m' = m_Config m
       \<and> (if geo_loads se2 (cf_GeoData (m_Config m)) then serving se2 (m_Config m) m' else idle m')"
    "err = None \<longleftrightarrow> geo_kept newCfg m \<or> geo_loads se1 (cf_GeoData newCfg)" by simp_all
qed

lemma reloadCurrent_outcome:
  assumes "manager_inv m" "reloadCurrent so se m = (m', err)"
  shows "manager_inv m'" "m_stopAutoUpdate m' = m_stopAutoUpdate m" "m_Config m' = m_Config m"
    "if err = None then serving se (m_Config m) m' else idle m'"
proof -
  define m1 where "m1 = fst (stopInternal so (m\<lparr>m_GeoManager := None\<rparr>))"
  have m1: "idle m1" "m_Config m1 = m_Config m" "m_stopAutoUpdate m1 = m_stopAutoUpdate m"
    using stopInternal_idle [of "m\<lparr>m_GeoManager := None\<rparr>"] assms(1)
    by (simp_all add: m1_def stopInternal_rest)
  have "manager_inv m' \<and> m_stopAutoUpdate m' = m_stopAutoUpdate m \<and> m_Config m' = m_Config m
      \<and> (if err = None then serving se (m_Config m) m' else idle m')"
    using m1(1)
  proof (cases rule: startInternal_cases [of m1 se])
    case (ok ms)
    with assms(2) have "m' = ms" "err = None" by (simp_all add: reloadCurrent_def m1_def)
    with ok m1 show ?thesis by (simp add: serving_def)
  next
    case (failed e)
    with assms(2) have "m' = m1" "err \<noteq> None" by (auto simp: reloadCurrent_def m1_def)
    with m1 show ?thesis by (auto simp: idle_inv)
  qed
  then show "manager_inv m'" "m_stopAutoUpdate m' = m_stopAutoUpdate m" "m_Config m' = m_Config m"
    "if err = None then serving se (m_Config m) m' else idle m'" by simp_all
qed

lemma blamed_set [simp]: "blamed S (m\<lparr>m_Config := c\<rparr>) = blamed S m" "blamed S (m\<lparr>m_GeoManager := g\<rparr>) = blamed S m"
  "blamed S (m\<lparr>m_stopAutoUpdate := b\<rparr>) = blamed S m" "blamed S (fst (startInternal env m)) = blamed S m"
  by (simp_all add: blamed_def)

lemma startInternal_blamed: "startInternal env m = (m', err) \<Longrightarrow> blamed S m' = blamed S m"
  using blamed_set(4) [of S env m] by simp

lemma Reload_blamed:
  assumes "blamed S m" "so1 \<in> S" "so2 \<in> S" "Reload so1 se1 so2 se2 newCfg m = (gone, m', err)"
  shows "blamed S m'"
proof -
  have a: "blamed S (fst (stopInternal so1 x))" if "blamed S x" for x by (rule stopInternal_blamed [OF that assms(2)])
  have b: "blamed S (fst (stopInternal so2 x))" if "blamed S x" for x by (rule stopInternal_blamed [OF that assms(3)])
  from assms(4) show ?thesis
    unfolding Reload_def Let_def
    by (auto dest!: startInternal_blamed [of _ _ _ _ S] simp: a b assms(1) split: prod.splits option.splits if_splits)
qed

lemma reloadCurrent_blamed:
  assumes "blamed S m" "so \<in> S" "reloadCurrent so se m = (m', err)"
  shows "blamed S m'"
  using assms(3) stopInternal_blamed [of S "m\<lparr>m_GeoManager := None\<rparr>" so] assms(1,2)
  by (auto simp: reloadCurrent_def dest!: startInternal_blamed [of _ _ _ _ S] split: prod.splits option.splits)

lemma NewServiceManager_idle: "idle (NewServiceManager cfg)"
  by (simp add: NewServiceManager_def idle_def servers_def)

section \<open>Properties\<close>

text \<open>
  C13: Reloading a configuration never leaves the service half switched, whatever ran before and
  whether or not the servers stop without an error: if it succeeds, exactly the servers that the
  new configuration asks for are held, with a router, a query logger and databases, and it fails
  only if the databases are new and do not load; if it fails, the old configuration is back and
  serves again, unless its own databases no longer load, in which case nothing is held. In every
  case the routers and query loggers that are not used any more have been closed, and a server
  that was launched and is not held any more has been stopped or is one whose \<open>Stop\<close> has reported
  an error, then or before (\<open>m_stopFailed\<close>).
\<close>

theorem reload_serves_new_or_old:
  assumes "manager_inv m"
    and "Reload so1 se1 so2 se2 newCfg m = (gone, m', err)"
  shows "manager_inv m'
    \<and> (\<forall>S. blamed S m \<and> {so1, so2} \<subseteq> S \<longrightarrow> blamed S m')
    \<and> (err = None \<longleftrightarrow> geo_kept newCfg m \<or> geo_loads se1 (cf_GeoData newCfg))
    \<and> (case err of
         None \<Rightarrow> serving se1 newCfg m'
       | Some _ \<Rightarrow> m_Config m' = m_Config m
           \<and> (if geo_loads se2 (cf_GeoData (m_Config m)) then serving se2 (m_Config m) m' else idle m'))"
proof (intro conjI allI impI)
  show "manager_inv m'" by (rule Reload_outcome(1) [OF assms])
  show "blamed S m'" if "blamed S m \<and> {so1, so2} \<subseteq> S" for S using that Reload_blamed [OF _ _ _ assms(2)] by blast
  show "err = None \<longleftrightarrow> geo_kept newCfg m \<or> geo_loads se1 (cf_GeoData newCfg)" by (rule Reload_outcome(5) [OF assms])
  show "case err of
         None \<Rightarrow> serving se1 newCfg m'
       | Some _ \<Rightarrow> m_Config m' = m_Config m
           \<and> (if geo_loads se2 (cf_GeoData (m_Config m)) then serving se2 (m_Config m) m' else idle m')"
    using Reload_outcome(3,4) [OF assms] by (cases err) (simp_all only: option.case option.simps, blast+)
qed

section \<open>Witnesses\<close>

text \<open>Databases load unless their name is \<open>bad.dat\<close>, and every server stops.\<close>

definition sample_start :: start_env where
  "sample_start = \<lparr>se_geoip = \<lambda>p. if p = ''bad.dat'' then Inl (Errorf ''bad'' []) else Inr (\<lambda>ip. []),
     se_geosite = \<lambda>p. Inr (\<lambda>d. []), se_regexp = \<lambda>p. Inr (\<lambda>s. False),
     se_connect = \<lambda>bs k req. (None, Some ContextCanceled), se_mkdir = \<lambda>d. None,
     se_load = \<lambda>c k. Inl (Errorf ''no certificate'' []), se_quic = \<lambda>a. None,
     se_json = sample_json, se_log = \<lambda>p. Inl (Errorf ''no file'' []), se_now = 0\<rparr>"

definition sample_stop :: stop_env where
  "sample_stop = \<lparr>so_server = \<lambda>s. None, so_router = None\<rparr>"

definition sample_manager :: manager where
  "sample_manager = fst (startInternal sample_start (NewServiceManager sample_config))"

definition bad_config :: config where
  "bad_config = sample_config\<lparr>cf_GeoData := (cf_GeoData sample_config)\<lparr>gd_GeoIPDat := ''bad.dat''\<rparr>\<rparr>"

lemma sample_geo: "geo_loads sample_start (cf_GeoData sample_config)" "\<not> geo_loads sample_start (cf_GeoData bad_config)"
  by (simp_all add: geo_loads_def NewGeoDataManager_def sample_start_def sample_config_def bad_config_def abs_path_def)

lemma sample_started: "startInternal sample_start (NewServiceManager sample_config) = (sample_manager, None)"
  using startInternal_ok_iff [of sample_start "NewServiceManager sample_config"] sample_geo
  by (simp add: sample_manager_def prod_eq_iff NewServiceManager_def)

lemma sample_serving: "serving sample_start sample_config sample_manager"
  using startInternal_serving [OF sample_started NewServiceManager_idle] by (simp add: NewServiceManager_def)

text \<open>Every server but the DNS server stops.\<close>

definition stuck_stop :: stop_env where
  "stuck_stop = sample_stop\<lparr>so_server := (\<lambda>s. case s of DNSServer _ _ \<Rightarrow> Some ContextCanceled | _ \<Rightarrow> None)\<rparr>"

lemma sample_blamed: "blamed S sample_manager"
  by (simp add: sample_manager_def) (simp add: blamed_def NewServiceManager_def)

text \<open>The databases of the new configuration are bad and the DNS server does not stop.\<close>

theorem reload_serves_new_or_old_witness:
  "\<exists>gone m' err. Reload stuck_stop sample_start stuck_stop sample_start bad_config sample_manager = (gone, m', err)
     \<and> err \<noteq> None \<and> serving sample_start sample_config m' \<and> blamed {stuck_stop} m'"
proof -
  let ?r = "Reload stuck_stop sample_start stuck_stop sample_start bad_config sample_manager"
  obtain gone m' err where r: "?r = (gone, m', err)" using prod_cases3 by blast
  have c: "m_Config sample_manager = sample_config" using sample_serving by (simp add: serving_def)
  then have "\<not> geo_kept bad_config sample_manager"
    by (simp add: geo_kept_def bad_config_def sample_config_def abs_path_def slash_def)
  with reload_serves_new_or_old [OF serving_inv [OF sample_serving] r] sample_geo c sample_blamed [of "{stuck_stop}"]
  have "err \<noteq> None \<and> serving sample_start sample_config m' \<and> blamed {stuck_stop} m'" by (auto split: option.splits)
  with r show ?thesis by blast
qed

end
