(* ===== verification/Auto_Update.thy ===== *)
theory Auto_Update
  imports Manager
begin

text \<open>
  The downloads and the update goroutine of the service manager
  (\<open>CheckAndDownloadGeoFiles\<close>, \<open>downloadGeoFiles\<close>, \<open>runAutoUpdate\<close>, \<open>Stop\<close> of
  \<open>internal/manager/manager.go\<close>): which files a download touches, when an update is due, and the
  interleavings of the goroutine with \<open>Start\<close>, \<open>Stop\<close> and \<open>Reload\<close>.
\<close>

section \<open>Downloading the databases\<close>

text \<open>
  The answers of the outside to a download are a \<open>download_env\<close> each, for GeoIP and for GeoSite;
  the validators are the third-party loaders. \<open>stat_err\<close> is an error of \<open>os.Stat\<close> other than that
  the file does not exist.
\<close>

definition shouldDownload :: "(string \<Rightarrow> goerr option) \<Rightarrow> files \<Rightarrow> string \<Rightarrow> bool" where
  "shouldDownload stat_err fs path =
     (case stat_err path of
        Some e \<Rightarrow> False
      | None \<Rightarrow> (case fs path of None \<Rightarrow> True | Some (content, _) \<Rightarrow> length content = 0))"

text \<open>The files after a download of \<open>path\<close> from \<open>url\<close>, whose error is only logged.\<close>

definition download_to :: "download_env \<Rightarrow> (string \<Rightarrow> goerr option) \<Rightarrow> string \<Rightarrow> string \<Rightarrow> files \<Rightarrow> files" where
  "download_to env validator path url fs =
     (if url = [] then fs else last (fst (DownloadFile env (Some validator) path fs)))"

definition CheckAndDownloadGeoFiles ::
  "(string \<Rightarrow> goerr option) \<Rightarrow> download_env \<times> download_env \<Rightarrow> (string \<Rightarrow> goerr option) \<times> (string \<Rightarrow> goerr option)
     \<Rightarrow> config \<Rightarrow> files \<Rightarrow> files" where
  "CheckAndDownloadGeoFiles stat_err envs verify cfg fs =
     (let g = cf_GeoData cfg;
          fs1 = (if shouldDownload stat_err fs (gd_GeoIPDat g)
                 then download_to (fst envs) (fst verify) (gd_GeoIPDat g) (gd_GeoIPDownloadURL g) fs else fs)
      in if shouldDownload stat_err fs1 (gd_GeoSiteDat g)
         then download_to (snd envs) (snd verify) (gd_GeoSiteDat g) (gd_GeoSiteDownloadURL g) fs1 else fs1)"

definition downloadGeoFiles ::
  "download_env \<times> download_env \<Rightarrow> (string \<Rightarrow> goerr option) \<times> (string \<Rightarrow> goerr option)
     \<Rightarrow> config option \<Rightarrow> files \<Rightarrow> files" where
  "downloadGeoFiles envs verify cfg fs =
     (case cfg of
        None \<Rightarrow> fs
      | Some c \<Rightarrow>
          (let g = cf_GeoData c in
           download_to (snd envs) (snd verify) (gd_GeoSiteDat g) (gd_GeoSiteDownloadURL g)
             (download_to (fst envs) (fst verify) (gd_GeoIPDat g) (gd_GeoIPDownloadURL g) fs)))"

text \<open>The two databases and their temporary files are four different files.\<close>

definition separate_files :: "geo_data_config \<Rightarrow> bool" where
  "separate_files g \<longleftrightarrow> gd_GeoIPDat g \<noteq> gd_GeoSiteDat g \<and> gd_GeoIPDat g \<noteq> gd_GeoSiteDat g @ ''.tmp''
     \<and> gd_GeoSiteDat g \<noteq> gd_GeoIPDat g @ ''.tmp''"

lemma download_to_other:
  assumes "q \<noteq> path" "q \<noteq> path @ ''.tmp''"
  shows "download_to env v path url fs q = fs q"
proof (cases "snd (DownloadFile env (Some v) path fs)")
  case None
  then have "DownloadFile env (Some v) path fs = (fst (DownloadFile env (Some v) path fs), None)" by (simp add: prod_eq_iff)
  then show ?thesis by (rule DownloadFile_done) (use assms in \<open>simp add: download_to_def\<close>)
next
  case (Some e)
  then have "DownloadFile env (Some v) path fs = (fst (DownloadFile env (Some v) path fs), Some e)" by (simp add: prod_eq_iff)
  from DownloadFile_failed(1,3) [OF this] assms(2) show ?thesis by (simp add: download_to_def)
qed

lemma download_to_self:
  "download_to env v path url fs path = fs path \<or> (\<exists>x. download_to env v path url fs path = Some x \<and> validated (Some v) x)"
  using DownloadFile_atomic [OF last_in_set [OF DownloadFile_nonempty], of env "Some v" path fs]
  by (auto simp: download_to_def)

lemma downloadGeoFiles_valid:
  assumes "separate_files (cf_GeoData c)"
    and "fs' = downloadGeoFiles envs verify (Some c) fs"
  shows "fs' (gd_GeoIPDat (cf_GeoData c)) = fs (gd_GeoIPDat (cf_GeoData c))
       \<or> (\<exists>x. fs' (gd_GeoIPDat (cf_GeoData c)) = Some x \<and> validated (Some (fst verify)) x)"
    and "fs' (gd_GeoSiteDat (cf_GeoData c)) = fs (gd_GeoSiteDat (cf_GeoData c))
       \<or> (\<exists>x. fs' (gd_GeoSiteDat (cf_GeoData c)) = Some x \<and> validated (Some (snd verify)) x)"
proof -
  let ?g = "cf_GeoData c"
  define fs1 where "fs1 = download_to (fst envs) (fst verify) (gd_GeoIPDat ?g) (gd_GeoIPDownloadURL ?g) fs"
  have fs': "fs' = download_to (snd envs) (snd verify) (gd_GeoSiteDat ?g) (gd_GeoSiteDownloadURL ?g) fs1"
    by (simp add: assms(2) downloadGeoFiles_def Let_def fs1_def)
  have "fs' (gd_GeoIPDat ?g) = fs1 (gd_GeoIPDat ?g)" unfolding fs'
    by (rule download_to_other) (use assms(1) in \<open>simp_all add: separate_files_def\<close>)
  then show "fs' (gd_GeoIPDat ?g) = fs (gd_GeoIPDat ?g) \<or> (\<exists>x. fs' (gd_GeoIPDat ?g) = Some x \<and> validated (Some (fst verify)) x)"
    using download_to_self [of "fst envs" "fst verify" "gd_GeoIPDat ?g" "gd_GeoIPDownloadURL ?g" fs] by (simp add: fs1_def)
  have "fs1 (gd_GeoSiteDat ?g) = fs (gd_GeoSiteDat ?g)" unfolding fs1_def
    by (rule download_to_other) (use assms(1) in \<open>auto simp: separate_files_def\<close>)
  then show "fs' (gd_GeoSiteDat ?g) = fs (gd_GeoSiteDat ?g) \<or> (\<exists>x. fs' (gd_GeoSiteDat ?g) = Some x \<and> validated (Some (snd verify)) x)"
    using download_to_self [of "snd envs" "snd verify" "gd_GeoSiteDat ?g" "gd_GeoSiteDownloadURL ?g" fs1] by (simp add: fs')
qed

text \<open>The check at the start never touches a database that has content.\<close>

lemma CheckAndDownload_keeps:
  assumes "separate_files (cf_GeoData cfg)" "p = gd_GeoIPDat (cf_GeoData cfg) \<or> p = gd_GeoSiteDat (cf_GeoData cfg)"
    and "fs p = Some (content, perm)" "content \<noteq> []"
  shows "CheckAndDownloadGeoFiles stat_err envs verify cfg fs p = fs p"
proof -
  let ?g = "cf_GeoData cfg"
  define fs1 where "fs1 = (if shouldDownload stat_err fs (gd_GeoIPDat ?g)
     then download_to (fst envs) (fst verify) (gd_GeoIPDat ?g) (gd_GeoIPDownloadURL ?g) fs else fs)"
  have no: "\<not> shouldDownload stat_err f p" if "f p = fs p" for f
    using assms(3,4) that by (simp add: shouldDownload_def split: option.split)
  have first: "fs1 p = fs p"
  proof (cases "p = gd_GeoIPDat ?g")
    case True
    then show ?thesis using no [of fs] by (simp add: fs1_def)
  next
    case False
    with assms(1,2) have "p \<noteq> gd_GeoIPDat ?g @ ''.tmp''" by (auto simp: separate_files_def)
    with False show ?thesis by (simp add: fs1_def download_to_other)
  qed
  have "(if shouldDownload stat_err fs1 (gd_GeoSiteDat ?g)
     then download_to (snd envs) (snd verify) (gd_GeoSiteDat ?g) (gd_GeoSiteDownloadURL ?g) fs1 else fs1) p = fs1 p"
  proof (cases "p = gd_GeoSiteDat ?g")
    case True
    then show ?thesis using no [of fs1] first by simp
  next
    case False
    with assms(1,2) have "p \<noteq> gd_GeoSiteDat ?g @ ''.tmp''" by (auto simp: separate_files_def)
    with False show ?thesis by (simp add: download_to_other)
  qed
  with first show ?thesis unfolding CheckAndDownloadGeoFiles_def Let_def fs1_def [symmetric] by simp
qed

section \<open>When an update is due\<close>

text \<open>
  \<open>time.Parse("15:04", s)\<close>: an hour of one or two digits, a colon and a minute of two digits.
  Times are nanoseconds since the epoch.
\<close>

definition getnum :: "string \<Rightarrow> bool \<Rightarrow> (nat \<times> string) option" where
  "getnum s fixed =
     (case s of
        [] \<Rightarrow> None
      | c # r \<Rightarrow>
          (case digit_val c of
             None \<Rightarrow> None
           | Some d \<Rightarrow>
               (case (case r of [] \<Rightarrow> None | c' # r' \<Rightarrow> map_option (\<lambda>d'. (d * 10 + d', r')) (digit_val c')) of
                  Some x \<Rightarrow> Some x
                | None \<Rightarrow> if fixed then None else Some (d, r))))"

definition time_Parse_clock :: "string \<Rightarrow> (nat \<times> nat) option" where
  "time_Parse_clock s =
     (case getnum s False of
        None \<Rightarrow> None
      | Some (h, r) \<Rightarrow>
          if 24 \<le> h \<or> \<not> strings_HasPrefix r '':'' then None
          else (case getnum (tl r) True of
                  None \<Rightarrow> None
                | Some (m, r') \<Rightarrow> if 60 \<le> m \<or> r' \<noteq> [] then None else Some (h, m)))"

definition time_Second :: int where "time_Second = 1000000000"
definition time_Hour :: int where "time_Hour = 3600 * time_Second"
definition day_length :: int where "day_length = 24 * time_Hour"

text \<open>
  \<open>time.Date\<close> with the year, month and day of \<open>now\<close>, at a fixed offset from UTC (Asia/Shanghai has
  been at UTC+8 without daylight saving time since 1991).
\<close>

definition target_time :: "int \<Rightarrow> int \<Rightarrow> nat \<Rightarrow> nat \<Rightarrow> int" where
  "target_time offset now h m =
     (let local = now + offset in
      local - local mod day_length + (int h * 3600 + int m * 60) * time_Second - offset)"

text \<open>The modification time of the GeoIP file, or an error of \<open>Stat\<close>.\<close>

definition shouldUpdate :: "int \<Rightarrow> string \<Rightarrow> int \<Rightarrow> goerr + int \<Rightarrow> bool" where
  "shouldUpdate offset autoUpdate now stat =
     (if autoUpdate = [] then False
      else (case time_Parse_clock autoUpdate of
        None \<Rightarrow> False
      | Some (h, m) \<Rightarrow>
          (let targetTime = target_time offset now h m in
           if now \<ge> targetTime
           then (case stat of Inl e \<Rightarrow> True | Inr modTime \<Rightarrow> modTime < targetTime)
           else False)))"

text \<open>The last attempt is a time of the monotonic clock, none before the first attempt.\<close>

definition attempt_allowed :: "int \<Rightarrow> int option \<Rightarrow> bool" where
  "attempt_allowed clock lastAttempt =
     (case lastAttempt of None \<Rightarrow> True | Some t \<Rightarrow> \<not> clock - t < time_Hour)"

lemma clock_values: "time_Parse_clock s = Some (h, m) \<Longrightarrow> h < 24 \<and> m < 60"
  by (auto simp: time_Parse_clock_def split: option.splits prod.splits if_splits)

lemma clock_in_day: "h < 24 \<Longrightarrow> m < 60 \<Longrightarrow> 0 \<le> (int h * 3600 + int m * 60) * time_Second \<and> (int h * 3600 + int m * 60) * time_Second < day_length"
  by (simp add: time_Second_def day_length_def time_Hour_def)

text \<open>The updates of the days: day \<open>k\<close> after the epoch, in local time.\<close>

definition occurrence :: "int \<Rightarrow> nat \<Rightarrow> nat \<Rightarrow> int \<Rightarrow> int" where
  "occurrence offset h m k = k * day_length + (int h * 3600 + int m * 60) * time_Second - offset"

lemma target_occurrence: "target_time offset now h m = occurrence offset h m ((now + offset) div day_length)"
  by (simp add: target_time_def occurrence_def Let_def minus_mod_eq_div_mult)

text \<open>\<open>now\<close> is on local day \<open>k\<close>.\<close>

definition on_day :: "int \<Rightarrow> int \<Rightarrow> int \<Rightarrow> bool" where
  "on_day offset now k \<longleftrightarrow> k * day_length \<le> now + offset \<and> now + offset < (k + 1) * day_length"

lemma on_day_iff: "on_day offset now k \<longleftrightarrow> (now + offset) div day_length = k"
proof -
  let ?a = "now + offset"
  have d: "0 < day_length" by (simp add: day_length_def time_Hour_def time_Second_def)
  have a: "?a = ?a div day_length * day_length + ?a mod day_length" by simp
  show ?thesis
  proof
    assume "on_day offset now k"
    then show "?a div day_length = k"
      by (intro int_div_pos_eq [where r = "?a - day_length * k"]) (simp_all add: on_day_def algebra_simps)
  next
    assume "?a div day_length = k"
    with a pos_mod_bound [OF d, of ?a] pos_mod_sign [OF d, of ?a] show "on_day offset now k"
      by (simp add: on_day_def algebra_simps)
  qed
qed

lemma shouldUpdate_on_day:
  assumes "time_Parse_clock s = Some (h, m)" "on_day offset now k"
  shows "shouldUpdate offset s now (Inr t) \<longleftrightarrow> t < occurrence offset h m k \<and> occurrence offset h m k \<le> now"
proof -
  have "s \<noteq> []" using assms(1) by (auto simp: time_Parse_clock_def getnum_def)
  with assms show ?thesis by (auto simp: shouldUpdate_def target_occurrence Let_def on_day_iff)
qed

section \<open>The update goroutine and its environment\<close>

text \<open>
  Where the goroutine is: not started; at its \<open>select\<close>; downloading with the configuration it read;
  before the test of \<open>stopped\<close>; after a test that found no stop, before \<open>reloadCurrent\<close>; returned.
\<close>

datatype updater = NotRunning | AtSelect | Downloading config | Downloaded | Committed | Returned

text \<open>
  The manager's mutex makes each of its critical sections one step. \<open>us_stopping\<close> is the number of
  calls of \<open>Stop\<close> that have closed the channel and wait for the mutex, \<open>us_attempts\<close> records when
  updates were started, the last one first.
\<close>

record update_state =
  us_manager :: manager
  us_updater :: updater
  us_lastAttempt :: "int option"
  us_clock :: int
  us_stopping :: nat
  us_attempts :: "int list"

definition update_init :: "config \<Rightarrow> int \<Rightarrow> update_state" where
  "update_init cfg t = \<lparr>us_manager = NewServiceManager cfg, us_updater = NotRunning, us_lastAttempt = None,
     us_clock = t, us_stopping = 0, us_attempts = []\<rparr>"

text \<open>\<open>Start\<close>: the goroutine runs only if the services could be started.\<close>

definition Start_step :: "start_env \<Rightarrow> update_state \<Rightarrow> update_state" where
  "Start_step env s =
     (case manager_Start env (us_manager s) of
        (m, Some e) \<Rightarrow> s\<lparr>us_manager := m\<rparr>
      | (m, None) \<Rightarrow> s\<lparr>us_manager := m, us_updater := AtSelect\<rparr>)"

text \<open>\<open>Stop\<close>: the channel is closed (once), then the services are stopped under the mutex.\<close>

definition Stop_signal :: "update_state \<Rightarrow> update_state" where
  "Stop_signal s = s\<lparr>us_manager := (us_manager s)\<lparr>m_stopAutoUpdate := True\<rparr>, us_stopping := us_stopping s + 1\<rparr>"

definition Stop_services :: "stop_env \<Rightarrow> update_state \<Rightarrow> update_state" where
  "Stop_services env s = s\<lparr>us_manager := fst (stopInternal env (us_manager s)), us_stopping := us_stopping s - 1\<rparr>"

definition Reload_step :: "stop_env \<Rightarrow> start_env \<Rightarrow> stop_env \<Rightarrow> start_env \<Rightarrow> config \<Rightarrow> update_state \<Rightarrow> update_state" where
  "Reload_step so1 se1 so2 se2 cfg s =
     s\<lparr>us_manager := fst (snd (Reload so1 se1 so2 se2 cfg (us_manager s)))\<rparr>"

text \<open>A tick: the update is started unless it is not due or the last attempt is too recent.\<close>

definition tick_step :: "int \<Rightarrow> int \<Rightarrow> goerr + int \<Rightarrow> update_state \<Rightarrow> update_state" where
  "tick_step offset now stat s =
     (let cfg = m_Config (us_manager s) in
      if shouldUpdate offset (gd_AutoUpdate (cf_GeoData cfg)) now stat \<and> attempt_allowed (us_clock s) (us_lastAttempt s)
      then s\<lparr>us_updater := Downloading cfg, us_lastAttempt := Some (us_clock s), us_attempts := us_clock s # us_attempts s\<rparr>
      else s)"

definition test_stopped :: "update_state \<Rightarrow> update_state" where
  "test_stopped s = s\<lparr>us_updater := (if m_stopAutoUpdate (us_manager s) then Returned else Committed)\<rparr>"

definition reload_step :: "stop_env \<Rightarrow> start_env \<Rightarrow> update_state \<Rightarrow> update_state" where
  "reload_step so se s = s\<lparr>us_manager := fst (reloadCurrent so se (us_manager s)), us_updater := AtSelect\<rparr>"

text \<open>
  The steps, labelled by who makes them. A closed channel and a tick may both be ready at the
  \<open>select\<close>, which then takes either. The main program calls \<open>Start\<close> once, before there is anything
  to stop or reload. \<open>S\<close> are the answers that stopping servers may give.
\<close>

datatype who = Main_Start | Main_Stop | Web_Reload | Updater | Clock

inductive ustep :: "stop_env set \<Rightarrow> who \<Rightarrow> update_state \<Rightarrow> update_state \<Rightarrow> bool" for S where
  start: "us_updater s = NotRunning \<Longrightarrow> idle (us_manager s) \<Longrightarrow> ustep S Main_Start s (Start_step env s)"
| stop_signal: "ustep S Main_Stop s (Stop_signal s)"
| stop_services: "0 < us_stopping s \<Longrightarrow> env \<in> S \<Longrightarrow> ustep S Main_Stop s (Stop_services env s)"
| reload: "so1 \<in> S \<Longrightarrow> so2 \<in> S \<Longrightarrow> ustep S Web_Reload s (Reload_step so1 se1 so2 se2 cfg s)"
| clock: "us_clock s \<le> t \<Longrightarrow> ustep S Clock s (s\<lparr>us_clock := t\<rparr>)"
| tick: "us_updater s = AtSelect \<Longrightarrow> ustep S Updater s (tick_step offset now stat s)"
| stopped: "us_updater s = AtSelect \<Longrightarrow> m_stopAutoUpdate (us_manager s) \<Longrightarrow> ustep S Updater s (s\<lparr>us_updater := Returned\<rparr>)"
| download: "us_updater s = Downloading cfg \<Longrightarrow> ustep S Updater s (s\<lparr>us_updater := Downloaded\<rparr>)"
| test: "us_updater s = Downloaded \<Longrightarrow> ustep S Updater s (test_stopped s)"
| reload_current: "us_updater s = Committed \<Longrightarrow> so \<in> S \<Longrightarrow> ustep S Updater s (reload_step so se s)"

definition urun :: "stop_env set \<Rightarrow> who set \<Rightarrow> update_state \<Rightarrow> update_state \<Rightarrow> bool" where
  "urun S ws = (\<lambda>s s'. \<exists>w \<in> ws. ustep S w s s')\<^sup>*\<^sup>*"

definition update_inv :: "stop_env set \<Rightarrow> update_state \<Rightarrow> bool" where
  "update_inv S s \<longleftrightarrow> manager_inv (us_manager s) \<and> blamed S (us_manager s)
     \<and> sorted_wrt (\<lambda>a b. time_Hour \<le> a - b) (us_attempts s)
     \<and> us_lastAttempt s = (case us_attempts s of [] \<Rightarrow> None | a # _ \<Rightarrow> Some a)
     \<and> (\<forall>a \<in> set (us_attempts s). a \<le> us_clock s)
     \<and> (0 < us_stopping s \<longrightarrow> m_stopAutoUpdate (us_manager s))"

lemma manager_inv_stop [simp]: "manager_inv (m\<lparr>m_stopAutoUpdate := b\<rparr>) = manager_inv m"
  by (simp add: manager_inv_def servers_def)

lemma tick_inv: "update_inv S s \<Longrightarrow> update_inv S (tick_step offset now stat s)"
  using clock_in_day [of 1 0]
  by (cases "us_attempts s")
    (auto simp: update_inv_def tick_step_def Let_def attempt_allowed_def)

text \<open>What the steps do to the manager: it stays whole, and the stop signal stays.\<close>

lemma ustep_manager:
  assumes "ustep S w s s'" "manager_inv (us_manager s)" "blamed S (us_manager s)"
  shows "manager_inv (us_manager s') \<and> blamed S (us_manager s')
    \<and> (m_stopAutoUpdate (us_manager s) \<longrightarrow> m_stopAutoUpdate (us_manager s'))"
  using assms(1)
proof (cases rule: ustep.cases)
  case (start env)
  then have "idle (us_manager s)" by simp
  then show ?thesis
  proof (cases rule: startInternal_cases [of _ env])
    case (ok m')
    with start assms(3) startInternal_blamed [OF ok(1), of S]
    show ?thesis by (simp add: Start_step_def manager_Start_def serving_inv)
  next
    case (failed e)
    with start idle_inv assms(3) show ?thesis by (simp add: Start_step_def manager_Start_def)
  qed
next
  case (stop_services env)
  with assms(2,3) stopInternal_idle [of "us_manager s" env] stopInternal_blamed [of S "us_manager s" env] show ?thesis
    by (simp add: Stop_services_def stopInternal_rest idle_inv)
next
  case (reload so1 so2 se1 se2 cfg)
  obtain gone m' err where r: "Reload so1 se1 so2 se2 cfg (us_manager s) = (gone, m', err)" by (rule prod_cases3)
  from Reload_outcome [OF assms(2) r] Reload_blamed [OF assms(3) _ _ r] reload r show ?thesis by (simp add: Reload_step_def)
next
  case (reload_current so se)
  obtain m' err where r: "reloadCurrent so se (us_manager s) = (m', err)" by fastforce
  from reloadCurrent_outcome [OF assms(2) r] reloadCurrent_blamed [OF assms(3) _ r] reload_current r
  show ?thesis by (simp add: reload_step_def)
qed (use assms(2,3) in \<open>auto simp: Stop_signal_def tick_step_def Let_def test_stopped_def\<close>)

lemma Start_step_frame [simp]:
  "us_attempts (Start_step env s) = us_attempts s" "us_lastAttempt (Start_step env s) = us_lastAttempt s"
  "us_clock (Start_step env s) = us_clock s" "us_stopping (Start_step env s) = us_stopping s"
  by (auto simp: Start_step_def split: prod.split option.split)

lemma ustep_inv:
  assumes "update_inv S s" "ustep S w s s'"
  shows "update_inv S s'"
proof -
  have m: "manager_inv (us_manager s')" "blamed S (us_manager s')"
    "m_stopAutoUpdate (us_manager s) \<Longrightarrow> m_stopAutoUpdate (us_manager s')"
    using ustep_manager [OF assms(2)] assms(1) by (simp_all add: update_inv_def)
  from assms(2) show ?thesis
  proof (cases rule: ustep.cases)
    case (tick offset now stat)
    with tick_inv [OF assms(1)] show ?thesis by simp
  qed (use assms(1) m in \<open>force simp: update_inv_def Stop_signal_def Stop_services_def Reload_step_def test_stopped_def reload_step_def\<close>)+
qed

interpretation updates: step_system "\<lambda>s. \<exists>cfg t. s = update_init cfg t"
    "\<lambda>s s'. \<exists>w. ustep S w s s'" "update_inv S" for S
proof unfold_locales
  fix s assume "\<exists>cfg t. s = update_init cfg t"
  then show "update_inv S s" using idle_inv [OF NewServiceManager_idle]
    by (auto simp: update_inv_def update_init_def) (simp add: blamed_def NewServiceManager_def)
next
  fix s s' assume "update_inv S s" "\<exists>w. ustep S w s s'"
  then show "update_inv S s'" using ustep_inv by blast
qed

lemma urun_inv:
  assumes "urun S ws s s'" "update_inv S s"
  shows "update_inv S s'"
proof -
  have "(\<lambda>s s'. \<exists>w. ustep S w s s')\<^sup>*\<^sup>* s s'"
    using assms(1) unfolding urun_def by (rule rtranclp_mono [THEN predicate2D, rotated]) blast
  then show ?thesis using assms(2) by (rule updates.inv_run)
qed

lemma urun_init_inv: "urun S ws (update_init cfg t) s \<Longrightarrow> update_inv S s"
  using urun_inv [of S ws "update_init cfg t" s] updates.inv_init [of "update_init cfg t" S] by blast

text \<open>
  Once the stop signal is given and no restart is committed, the update goroutine changes nothing
  any more, whatever the others do, and only a reload or a start can bring services back.
\<close>

definition quiet :: "who set" where "quiet = {Main_Stop, Updater, Clock}"

definition stopping :: "update_state \<Rightarrow> bool" where
  "stopping s \<longleftrightarrow> m_stopAutoUpdate (us_manager s) \<and> us_updater s \<noteq> Committed"

lemma stopping_step:
  assumes "ustep S w s s'" "stopping s" "update_inv S s"
  shows "stopping s' \<and> (w = Updater \<longrightarrow> us_manager s' = us_manager s)"
proof -
  have m: "m_stopAutoUpdate (us_manager s')"
    using ustep_manager [OF assms(1)] assms(2,3) by (simp add: stopping_def update_inv_def)
  from assms(1) show ?thesis
    by (cases rule: ustep.cases)
      (use assms(2) m in \<open>auto simp: stopping_def tick_step_def Let_def test_stopped_def Stop_signal_def Stop_services_def
         Reload_step_def Start_step_def split: prod.splits option.splits\<close>)
qed

lemma stopping_run:
  assumes "urun S ws s s'" "stopping s" "update_inv S s"
  shows "stopping s' \<and> update_inv S s'"
  using assms(1) unfolding urun_def
proof (induction rule: rtranclp_induct)
  case (step y z)
  then obtain w where "ustep S w y z" by blast
  with stopping_step [OF this] ustep_inv [OF _ this] step.IH show ?case by blast
qed (use assms in simp)

lemma quiet_step:
  assumes "ustep S w s s'" "w \<in> quiet" "stopping s" "idle (us_manager s)"
  shows "idle (us_manager s')"
  using assms(1)
proof (cases rule: ustep.cases)
  case stop_signal
  with assms(4) show ?thesis by (simp add: Stop_signal_def idle_def servers_def)
next
  case (stop_services env)
  with assms(4) stopInternal_idle [of "us_manager s" env] show ?thesis
    by (auto simp: Stop_services_def idle_inv)
qed (use assms(2-4) in \<open>auto simp: quiet_def stopping_def tick_step_def Let_def test_stopped_def\<close>)

lemma quiet_run:
  assumes "urun S quiet s s'" "stopping s" "update_inv S s" "idle (us_manager s)"
  shows "idle (us_manager s')"
  using assms(1) unfolding urun_def
proof (induction rule: rtranclp_induct)
  case base
  show ?case using assms(4) by simp
next
  case (step y z)
  then obtain w where w: "ustep S w y z" "w \<in> quiet" by blast
  have "urun S quiet s y" using step.hyps(1) by (simp add: urun_def)
  from stopping_run [OF this assms(2,3)] have "stopping y" by blast
  from quiet_step [OF w this step.IH] show ?case .
qed

lemma urun_refl [simp]: "urun S ws s s"
  by (simp add: urun_def)

lemma urun_step: "urun S ws s s' \<Longrightarrow> ustep S w s' s'' \<Longrightarrow> w \<in> ws \<Longrightarrow> urun S ws s s''"
  unfolding urun_def by (rule rtranclp.rtrancl_into_rtrancl) blast+

lemma urun_mono: "urun S ws s s' \<Longrightarrow> ws \<subseteq> ws' \<Longrightarrow> urun S ws' s s'"
  unfolding urun_def by (erule rtranclp_mono [THEN predicate2D, rotated]) blast

text \<open>The goroutine returns, whatever it is doing.\<close>

lemma updater_returns:
  assumes "stopping s" "us_updater s \<noteq> NotRunning"
  shows "\<exists>s'. urun S {Updater} s s' \<and> us_updater s' = Returned"
proof -
  have test: "urun S {Updater} s (test_stopped s')"
    if "urun S {Updater} s s'" "us_updater s' = Downloaded" for s'
    by (rule urun_step [OF that(1) ustep.test [OF that(2)]]) simp
  show ?thesis
  proof (cases "us_updater s")
    case AtSelect
    with assms(1) have "ustep S Updater s (s\<lparr>us_updater := Returned\<rparr>)"
      by (intro ustep.stopped) (simp_all add: stopping_def)
    from urun_step [OF urun_refl this] show ?thesis by (intro exI) auto
  next
    case (Downloading cfg)
    let ?d = "s\<lparr>us_updater := Downloaded\<rparr>"
    have "urun S {Updater} s ?d" by (rule urun_step [OF urun_refl ustep.download [OF Downloading]]) simp
    from test [OF this] show ?thesis
      by (intro exI [of _ "test_stopped ?d"]) (use assms(1) in \<open>simp add: test_stopped_def stopping_def\<close>)
  next
    case Downloaded
    from test [OF urun_refl this] show ?thesis
      by (intro exI [of _ "test_stopped s"]) (use assms(1) in \<open>simp add: test_stopped_def stopping_def\<close>)
  next
    case Returned
    then show ?thesis by (intro exI [of _ s]) simp
  qed (use assms in \<open>simp_all add: stopping_def\<close>)
qed

section \<open>Properties\<close>

text \<open>
  C22: An update is due on a day exactly if the time of the configuration has passed and the GeoIP
  file is older than it or cannot be examined. A file written after that time is left alone until
  the time of the next day, so that a successful update is the only one of its day.
\<close>

theorem updates_once_a_day:
  assumes "time_Parse_clock s = Some (h, m)" "on_day offset now k"
  shows "(shouldUpdate offset s now (Inr t) \<longleftrightarrow> t < occurrence offset h m k \<and> occurrence offset h m k \<le> now)
    \<and> (shouldUpdate offset s now (Inl e) \<longleftrightarrow> occurrence offset h m k \<le> now)
    \<and> (occurrence offset h m k \<le> t \<and> now' < occurrence offset h m (k + 1) \<longrightarrow> \<not> shouldUpdate offset s now' (Inr t))"
proof (intro conjI impI notI)
  show "shouldUpdate offset s now (Inr t) \<longleftrightarrow> t < occurrence offset h m k \<and> occurrence offset h m k \<le> now"
    by (rule shouldUpdate_on_day [OF assms])
  have "s \<noteq> []" using assms(1) by (auto simp: time_Parse_clock_def getnum_def)
  then show "shouldUpdate offset s now (Inl e) \<longleftrightarrow> occurrence offset h m k \<le> now"
    using assms by (simp add: shouldUpdate_def target_occurrence Let_def on_day_iff)
next
  assume t: "occurrence offset h m k \<le> t \<and> now' < occurrence offset h m (k + 1)" and due: "shouldUpdate offset s now' (Inr t)"
  define k' where "k' = (now' + offset) div day_length"
  have "on_day offset now' k'" by (simp add: on_day_iff k'_def)
  from shouldUpdate_on_day [OF assms(1) this] due
  have k': "t < occurrence offset h m k'" "occurrence offset h m k' \<le> now'" by simp_all
  have mono: "occurrence offset h m a \<le> occurrence offset h m b \<longleftrightarrow> a \<le> b" for a b
    by (simp add: occurrence_def day_length_def time_Hour_def time_Second_def)
  from k' t have "\<not> k' \<le> k" using mono [of k' k] by linarith
  moreover from k' t have "\<not> k + 1 \<le> k'" using mono [of "k + 1" k'] by linarith
  ultimately show False by simp
qed

text \<open>
  C15: Whatever \<open>Start\<close>, \<open>Stop\<close>, \<open>Reload\<close>, the update goroutine and the clock do in any order, the
  manager never loses track of what it started: no router or query logger is open that it does
  not hold, and every server that was launched and not stopped is one it holds or one whose \<open>Stop\<close>
  reported an error, which only happens for a server and an answer that \<open>S\<close> lets fail. Two attempts
  to update the databases are at least an hour apart, also when updates fail.
\<close>

theorem manager_runs_whole:
  assumes "urun S UNIV (update_init cfg t) s"
  shows "manager_inv (us_manager s) \<and> blamed S (us_manager s)
    \<and> sorted_wrt (\<lambda>a b. time_Hour \<le> a - b) (us_attempts s)"
  using urun_init_inv [OF assms] by (simp add: update_inv_def)

text \<open>
  C14: \<open>Stop\<close> is final for the update goroutine: if it has not passed its test of the stop signal when
  the signal is given, it never starts or stops a service again, in every interleaving with
  further stops, reloads and starts. Once \<open>Stop\<close> has stopped the services, nothing is held or open
  any more as long as only \<open>Stop\<close>, the goroutine and the clock make steps (a reload from the web
  interface does start services after \<open>Stop\<close>), the goroutine can return, and a server that can
  still be listening is one whose \<open>Stop\<close> reported an error.
\<close>

theorem stop_is_final:
  assumes "urun S UNIV (update_init cfg t) s" and "us_updater s \<noteq> Committed"
    and "urun S UNIV (Stop_signal s) s1"
  shows "(\<forall>s2. ustep S Updater s1 s2 \<longrightarrow> us_manager s2 = us_manager s1)
    \<and> (\<forall>env s2. env \<in> S \<and> urun S quiet (Stop_services env s1) s2 \<longrightarrow>
         idle (us_manager s2) \<and> blamed S (us_manager s2)
         \<and> (us_updater s2 \<noteq> NotRunning \<longrightarrow>
              (\<exists>s3. urun S {Updater} s2 s3 \<and> us_updater s3 = Returned \<and> idle (us_manager s3))))"
proof -
  have "update_inv S (Stop_signal s)" using urun_init_inv [OF assms(1)] ustep.stop_signal by (rule ustep_inv)
  moreover have "stopping (Stop_signal s)" using assms(2) by (simp add: stopping_def Stop_signal_def)
  ultimately have s1: "stopping s1" "update_inv S s1" using stopping_run [OF assms(3)] by blast+
  have "us_manager s2 = us_manager s1" if "ustep S Updater s1 s2" for s2
    using stopping_step [OF that s1] by simp
  moreover have "idle (us_manager s2) \<and> blamed S (us_manager s2) \<and> (us_updater s2 \<noteq> NotRunning \<longrightarrow>
      (\<exists>s3. urun S {Updater} s2 s3 \<and> us_updater s3 = Returned \<and> idle (us_manager s3)))"
    if env: "env \<in> S" and run: "urun S quiet (Stop_services env s1) s2" for env s2
  proof -
    have "stopping (Stop_services env s1)" "idle (us_manager (Stop_services env s1))" "update_inv S (Stop_services env s1)"
      using s1 stopInternal_idle [of "us_manager s1" env] stopInternal_blamed [OF _ env, of "us_manager s1"]
      by (auto simp: stopping_def Stop_services_def stopInternal_rest update_inv_def idle_inv)
    with stopping_run [OF run] quiet_run [OF run] have s2: "stopping s2" "update_inv S s2" "idle (us_manager s2)" by blast+
    have "\<exists>s3. urun S {Updater} s2 s3 \<and> us_updater s3 = Returned \<and> idle (us_manager s3)"
      if running: "us_updater s2 \<noteq> NotRunning"
    proof -
      obtain s3 where s3: "urun S {Updater} s2 s3" "us_updater s3 = Returned"
        using updater_returns [OF s2(1) running] by blast
      then have "urun S quiet s2 s3" by (intro urun_mono [OF s3(1)]) (simp add: quiet_def)
      from quiet_run [OF this s2] s3 show ?thesis by blast
    qed
    with s2 show ?thesis by (simp add: update_inv_def)
  qed
  ultimately show ?thesis by blast
qed

section \<open>Witnesses\<close>

definition update_config :: config where
  "update_config = sample_config\<lparr>cf_GeoData := (cf_GeoData sample_config)\<lparr>gd_AutoUpdate := ''4:05''\<rparr>\<rparr>"

lemma sample_clock: "time_Parse_clock ''4:05'' = Some (4, 5)"
  by code_simp

theorem updates_once_a_day_witness:
  "shouldUpdate 0 ''4:05'' (5 * time_Hour) (Inr 0) \<and> \<not> shouldUpdate 0 ''4:05'' (27 * time_Hour) (Inr (5 * time_Hour))"
proof -
  have "on_day 0 (5 * time_Hour) 0" by (simp add: on_day_def day_length_def time_Hour_def time_Second_def)
  from updates_once_a_day [OF sample_clock this, of 0 ContextCanceled 0]
    updates_once_a_day [OF sample_clock this, of "5 * time_Hour" ContextCanceled "27 * time_Hour"]
  show ?thesis by (simp add: occurrence_def day_length_def time_Hour_def time_Second_def)
qed

text \<open>A manager that has started, and its update.\<close>

definition started :: update_state where
  "started = Start_step sample_start (update_init update_config 0)"

lemma update_geo: "geo_loads sample_start (cf_GeoData update_config)"
  using sample_geo(1) by (simp add: geo_loads_def update_config_def)

lemma started_manager:
  "us_updater started = AtSelect" "serving sample_start update_config (us_manager started)"
  "m_stopAutoUpdate (us_manager started) = False" "us_lastAttempt started = None" "us_clock started = 0"
  "us_stopping started = 0"
proof -
  have "\<exists>m'. startInternal sample_start (NewServiceManager update_config) = (m', None)
      \<and> serving sample_start update_config m' \<and> \<not> m_stopAutoUpdate m'"
    using NewServiceManager_idle [of update_config]
  proof (cases rule: startInternal_cases [of _ sample_start])
    case (ok m')
    then show ?thesis by (simp add: NewServiceManager_def)
  next
    case (failed e)
    with update_geo show ?thesis by (simp add: NewServiceManager_def)
  qed
  then show "us_updater started = AtSelect" "serving sample_start update_config (us_manager started)"
    "m_stopAutoUpdate (us_manager started) = False"
    by (auto simp: started_def Start_step_def manager_Start_def update_init_def)
qed (simp_all add: started_def update_init_def)

lemma started_run: "urun S UNIV (update_init update_config 0) started"
proof -
  have "ustep S Main_Start (update_init update_config 0) started" unfolding started_def
    by (rule ustep.start) (simp_all add: update_init_def NewServiceManager_idle)
  from urun_step [OF urun_refl this] show ?thesis by simp
qed

theorem manager_runs_whole_witness: "manager_inv (us_manager started) \<and> blamed {} (us_manager started)"
  using manager_runs_whole [OF started_run, of "{}"] by simp

text \<open>A reload comes between the signal and the stop, and the DNS server does not stop.\<close>

theorem stop_is_final_witness:
  "\<exists>s1. urun {stuck_stop} UNIV (Stop_signal started) s1 \<and> us_manager s1 \<noteq> us_manager started
     \<and> idle (us_manager (Stop_services stuck_stop s1)) \<and> blamed {stuck_stop} (us_manager (Stop_services stuck_stop s1))"
proof -
  let ?s1 = "Reload_step stuck_stop sample_start stuck_stop sample_start sample_config (Stop_signal started)"
  have run: "urun {stuck_stop} UNIV (Stop_signal started) ?s1"
    by (rule urun_step [OF urun_refl ustep.reload]) simp_all
  let ?m = "us_manager (Stop_signal started)"
  obtain gone m' err where r: "Reload stuck_stop sample_start stuck_stop sample_start sample_config ?m = (gone, m', err)"
    by (rule prod_cases3)
  have st: "serving sample_start update_config (us_manager started)" by (rule started_manager(2))
  then have "manager_inv ?m" "geo_kept sample_config ?m"
    by (simp_all add: Stop_signal_def serving_def geo_kept_def) (simp add: update_config_def)
  with Reload_outcome(3,5) [OF _ r] have "m_Config m' = sample_config" by (simp add: serving_def)
  then have "m_Config (us_manager ?s1) \<noteq> m_Config (us_manager started)"
    using st r by (simp add: Reload_step_def serving_def) (simp add: update_config_def sample_config_def)
  moreover have "idle (us_manager (Stop_services stuck_stop ?s1)) \<and> blamed {stuck_stop} (us_manager (Stop_services stuck_stop ?s1))"
    using stop_is_final [OF started_run _ run] started_manager(1) by simp
  ultimately show ?thesis using run by (intro exI [of _ ?s1]) auto
qed

section \<open>Observations\<close>

text \<open>
  If the signal is given just after the test of \<open>stopped\<close>, the goroutine still restarts every
  service after \<open>Stop\<close> has returned.
\<close>

lemma stop_can_be_undone:
  "\<exists>s s'. urun {sample_stop} UNIV (update_init update_config 0) s
     \<and> m_stopAutoUpdate (us_manager s) \<and> us_stopping s = 0 \<and> idle (us_manager s)
     \<and> ustep {sample_stop} Updater s s' \<and> serving sample_start update_config (us_manager s')"
proof -
  let ?S = "{sample_stop}"
  define now where "now = 5 * time_Hour"
  define s1 where "s1 = tick_step 0 now (Inr 0) started"
  define s2 where "s2 = s1\<lparr>us_updater := Downloaded\<rparr>"
  define s3 where "s3 = test_stopped s2"
  define s4 where "s4 = Stop_services sample_stop (Stop_signal s3)"
  define s5 where "s5 = reload_step sample_stop sample_start s4"
  have cfg: "m_Config (us_manager started) = update_config" using started_manager(2) by (simp add: serving_def)
  have day: "on_day 0 now 0" by (simp add: now_def on_day_def day_length_def time_Hour_def time_Second_def)
  have due: "shouldUpdate 0 ''4:05'' now (Inr 0)"
    unfolding shouldUpdate_on_day [OF sample_clock day]
    by (simp add: now_def occurrence_def day_length_def time_Hour_def time_Second_def)
  have s1: "s1 = started\<lparr>us_updater := Downloading update_config, us_lastAttempt := Some 0, us_attempts := 0 # us_attempts started\<rparr>"
    using due by (simp add: s1_def tick_step_def cfg started_manager attempt_allowed_def) (simp add: update_config_def)
  have s3: "us_updater s3 = Committed" "us_manager s3 = us_manager started" "us_stopping s3 = 0"
    by (simp_all add: s3_def test_stopped_def s2_def s1 started_manager)
  have "urun ?S UNIV (update_init update_config 0) s1" unfolding s1_def
    by (rule urun_step [OF started_run ustep.tick [OF started_manager(1)]]) simp
  then have "urun ?S UNIV (update_init update_config 0) s2" unfolding s2_def
    by (rule urun_step [OF _ ustep.download [of _ update_config]]) (simp_all add: s1)
  then have "urun ?S UNIV (update_init update_config 0) s3" unfolding s3_def
    by (rule urun_step [OF _ ustep.test]) (simp_all add: s2_def)
  then have "urun ?S UNIV (update_init update_config 0) (Stop_signal s3)"
    by (rule urun_step [OF _ ustep.stop_signal]) simp
  then have run: "urun ?S UNIV (update_init update_config 0) s4" unfolding s4_def
    by (rule urun_step [OF _ ustep.stop_services]) (simp_all add: Stop_signal_def)
  have inv: "manager_inv (us_manager (Stop_signal s3))"
    using serving_inv [OF started_manager(2)] by (simp add: Stop_signal_def s3)
  have idle: "idle (us_manager s4)" using stopInternal_idle [OF inv, of sample_stop] by (simp add: s4_def Stop_services_def)
  have s4: "m_stopAutoUpdate (us_manager s4)" "us_stopping s4 = 0" "us_updater s4 = Committed" "m_Config (us_manager s4) = update_config"
    by (simp_all add: s4_def Stop_services_def stopInternal_rest Stop_signal_def s3 cfg)
  have step: "ustep ?S Updater s4 s5" unfolding s5_def by (rule ustep.reload_current) (simp_all add: s4)
  obtain m' err where r: "reloadCurrent sample_stop sample_start (us_manager s4) = (m', err)" by fastforce
  define m1 where "m1 = fst (stopInternal sample_stop ((us_manager s4)\<lparr>m_GeoManager := None\<rparr>))"
  have "m_Config m1 = update_config" "idle m1"
    using stopInternal_idle [of "(us_manager s4)\<lparr>m_GeoManager := None\<rparr>" sample_stop] idle_inv [OF idle] s4
    by (simp_all add: m1_def stopInternal_rest)
  then have "snd (startInternal sample_start m1) = None" using startInternal_ok_iff [of sample_start m1] update_geo by simp
  then have "err = None" using r by (auto simp: reloadCurrent_def m1_def split: prod.splits option.splits)
  with reloadCurrent_outcome(4) [OF idle_inv [OF idle] r] s4 have "serving sample_start update_config m'" by simp
  then have "serving sample_start update_config (us_manager s5)" using r by (simp add: s5_def reload_step_def)
  with run s4 idle step show ?thesis by blast
qed

end
