(* ===== verification/Lifecycle.thy ===== *)
theory Lifecycle
  imports Go_Prelude
begin

text \<open>
  Starting and stopping the listeners of the servers (\<open>internal/server\<close>): the goroutines that
  \<open>Start\<close> spawns, and \<open>Stop\<close>. A reload binds the ports again as soon as \<open>Stop\<close> returns. The TCP and UDP
  ports of DoH are modelled, as this program opens and closes them itself. The sockets of plain
  DNS and DoT belong to the DNS library, whose \<open>Shutdown\<close> is a parameter, and the UDP socket of DoQ
  belongs to the QUIC library: of DoQ the accept loop, the connections and the streams are here.
\<close>

text \<open>A goroutine that listens: spawned, accepting, returned.\<close>

datatype listener = Spawned | Accepting | Returned_from

section \<open>Plain DNS and DoT\<close>

text \<open>The servers that are configured; the state of each is that of the goroutine that \<open>Start\<close> made for it.\<close>

record dns_listeners =
  dv_udp :: "listener option"
  dv_tcp :: "listener option"

definition DNSServer_Start :: "bool \<Rightarrow> bool \<Rightarrow> dns_listeners" where
  "DNSServer_Start udpServer tcpServer =
     \<lparr>dv_udp = (if udpServer then Some Spawned else None), dv_tcp = (if tcpServer then Some Spawned else None)\<rparr>"

text \<open>\<open>ListenAndServe\<close> of a goroutine: it accepts, or returns because it could not bind.\<close>

definition ListenAndServe :: "bool \<Rightarrow> listener \<Rightarrow> listener" where
  "ListenAndServe bound l = (case l of Spawned \<Rightarrow> if bound then Accepting else Returned_from | _ \<Rightarrow> l)"

text \<open>
  What the library's \<open>Shutdown\<close> makes of a goroutine that listens, and the error it returns. It is
  documented to make \<open>ListenAndServe\<close> return.
\<close>

type_synonym shutdown = "listener \<Rightarrow> listener \<times> goerr option"

definition shutdown_documented :: "shutdown \<Rightarrow> bool" where
  "shutdown_documented sh \<longleftrightarrow> fst (sh Accepting) = Returned_from"

definition errors_Join :: "goerr list \<Rightarrow> goerr option" where
  "errors_Join errs = (if errs = [] then None else Some (Joined errs))"

definition shutdown_one :: "string \<Rightarrow> shutdown \<Rightarrow> listener option \<Rightarrow> listener option \<times> goerr list" where
  "shutdown_one label sh lo =
     (case lo of
        None \<Rightarrow> (None, [])
      | Some l \<Rightarrow>
          (case sh l of
             (l', Some e) \<Rightarrow> (Some l', [Wrapf label e])
           | (l', None) \<Rightarrow> (Some l', [])))"

definition DNSServer_Stop :: "shutdown \<times> shutdown \<Rightarrow> dns_listeners \<Rightarrow> dns_listeners \<times> goerr option" where
  "DNSServer_Stop sh s =
     (case shutdown_one ''UDP'' (fst sh) (dv_udp s) of
        (udp, e1) \<Rightarrow>
          (case shutdown_one ''TCP'' (snd sh) (dv_tcp s) of
             (tcp, e2) \<Rightarrow> (\<lparr>dv_udp = udp, dv_tcp = tcp\<rparr>, errors_Join (e1 @ e2))))"

definition DoTServer_Stop :: "shutdown \<Rightarrow> listener option \<Rightarrow> listener option \<times> goerr option" where
  "DoTServer_Stop sh server =
     (case server of
        None \<Rightarrow> (None, None)
      | Some l \<Rightarrow> (case sh l of (l', e) \<Rightarrow> (Some l', e)))"

section \<open>DoH\<close>

text \<open>
  The goroutine for HTTP/3: spawned, with a UDP socket, serving on it, after \<open>Serve\<close> and before the
  deferred close, returned.
\<close>

datatype h3_listener = H3_Spawned | H3_Bound | H3_Serving | H3_Served | H3_Returned

text \<open>Where \<open>Stop\<close> is: not called, after \<open>Shutdown\<close>, after \<open>Close\<close> (waiting), returned (after the timeout or not).\<close>

datatype stop_phase = Not_called | Shut_down | Closing | Stopped bool

record doh_listeners =
  dh_http2 :: listener
  dh_http3 :: h3_listener
  dh_stop :: stop_phase


text \<open>The HTTP servers are documented not to serve once they are shut down or closed.\<close>

fun http2_closed :: "stop_phase \<Rightarrow> bool" where
  "http2_closed Not_called = False"
| "http2_closed _ = True"

fun http3_closed :: "stop_phase \<Rightarrow> bool" where
  "http3_closed Not_called = False"
| "http3_closed Shut_down = False"
| "http3_closed _ = True"

text \<open>The wait group: how many of the two goroutines have not returned.\<close>

definition wg_count :: "doh_listeners \<Rightarrow> nat" where
  "wg_count s = (if dh_http2 s = Returned_from then 0 else 1) + (if dh_http3 s = H3_Returned then 0 else 1)"

inductive dstep :: "doh_listeners \<Rightarrow> doh_listeners \<Rightarrow> bool" where
  http2_listens: "dh_http2 s = Spawned \<Longrightarrow> \<not> http2_closed (dh_stop s) \<Longrightarrow> dstep s (s\<lparr>dh_http2 := Accepting\<rparr>)"
| http2_fails: "dh_http2 s \<noteq> Returned_from \<Longrightarrow> dstep s (s\<lparr>dh_http2 := Returned_from\<rparr>)"
| http3_unbound: "dh_http3 s = H3_Spawned \<Longrightarrow> dstep s (s\<lparr>dh_http3 := H3_Returned\<rparr>)"
| http3_binds: "dh_http3 s = H3_Spawned \<Longrightarrow> dstep s (s\<lparr>dh_http3 := H3_Bound\<rparr>)"
| http3_serves: "dh_http3 s = H3_Bound \<Longrightarrow> \<not> http3_closed (dh_stop s) \<Longrightarrow> dstep s (s\<lparr>dh_http3 := H3_Serving\<rparr>)"
| http3_ends: "dh_http3 s = H3_Bound \<or> dh_http3 s = H3_Serving \<Longrightarrow> dstep s (s\<lparr>dh_http3 := H3_Served\<rparr>)"
| http3_releases: "dh_http3 s = H3_Served \<Longrightarrow> dstep s (s\<lparr>dh_http3 := H3_Returned\<rparr>)"
| stop_shutdown: "dh_stop s = Not_called \<Longrightarrow> dstep s (s\<lparr>dh_stop := Shut_down\<rparr>)"
| stop_close: "dh_stop s = Shut_down \<Longrightarrow> dstep s (s\<lparr>dh_stop := Closing\<rparr>)"
| stop_done: "dh_stop s = Closing \<Longrightarrow> wg_count s = 0 \<Longrightarrow> dstep s (s\<lparr>dh_stop := Stopped False\<rparr>)"
| stop_timeout: "dh_stop s = Closing \<Longrightarrow> dstep s (s\<lparr>dh_stop := Stopped True\<rparr>)"

text \<open>The ports in use.\<close>

definition tcp_port_used :: "doh_listeners \<Rightarrow> bool" where
  "tcp_port_used s \<longleftrightarrow> dh_http2 s = Accepting"


section \<open>DoQ\<close>




section \<open>Lemmas\<close>






text \<open>Once \<open>Stop\<close> has closed both servers, no listener accepts that did not before.\<close>

lemma doh_closing_step:
  "dstep s s' \<Longrightarrow> http3_closed (dh_stop s) \<Longrightarrow>
     http3_closed (dh_stop s') \<and> (tcp_port_used s' \<longrightarrow> tcp_port_used s) \<and> (dh_http3 s' = H3_Serving \<longrightarrow> dh_http3 s = H3_Serving)"
  by (cases "dh_stop s") (auto simp: tcp_port_used_def elim!: dstep.cases)









section \<open>Properties\<close>


text \<open>
  C26: Stopping the plain DNS server calls \<open>Shutdown\<close> of every configured listener, also if that of the
  other has failed, so that those that accept return; and the error says which have failed and
  why: none, that of the UDP listener, that of the TCP listener, or both in this order.
\<close>

theorem dns_stop_closes_both:
  assumes "shutdown_documented shu" "shutdown_documented sht"
  shows "dv_udp (fst (DNSServer_Stop (shu, sht) s)) = map_option (\<lambda>l. fst (shu l)) (dv_udp s)
    \<and> dv_tcp (fst (DNSServer_Stop (shu, sht) s)) = map_option (\<lambda>l. fst (sht l)) (dv_tcp s)
    \<and> (dv_udp s = Some Accepting \<longrightarrow> dv_udp (fst (DNSServer_Stop (shu, sht) s)) = Some Returned_from)
    \<and> (dv_tcp s = Some Accepting \<longrightarrow> dv_tcp (fst (DNSServer_Stop (shu, sht) s)) = Some Returned_from)
    \<and> snd (DNSServer_Stop (shu, sht) s) =
         (case (Option.bind (dv_udp s) (\<lambda>l. snd (shu l)), Option.bind (dv_tcp s) (\<lambda>l. snd (sht l))) of
            (None, None) \<Rightarrow> None
          | (Some e, None) \<Rightarrow> Some (Joined [Wrapf ''UDP'' e])
          | (None, Some e) \<Rightarrow> Some (Joined [Wrapf ''TCP'' e])
          | (Some e, Some e') \<Rightarrow> Some (Joined [Wrapf ''UDP'' e, Wrapf ''TCP'' e']))"
  using assms
  by (cases "dv_udp s"; cases "dv_tcp s")
    (auto simp: DNSServer_Stop_def shutdown_one_def shutdown_documented_def errors_Join_def split: prod.split option.split)

section \<open>Witnesses\<close>


text \<open>A library that behaves as documented: an error for a server that is not started, or on closing.\<close>

definition sample_Shutdown :: "goerr option \<Rightarrow> shutdown" where
  "sample_Shutdown closing l =
     (case l of Accepting \<Rightarrow> (Returned_from, closing) | _ \<Rightarrow> (l, Some (Errorf ''dns: server not started'' [])))"

lemma sample_Shutdown_documented: "shutdown_documented (sample_Shutdown closing)"
  by (simp add: shutdown_documented_def sample_Shutdown_def)

theorem dns_stop_closes_both_witness:
  "let s = \<lparr>dv_udp = Some Accepting, dv_tcp = Some Accepting\<rparr>;
       r = DNSServer_Stop (sample_Shutdown (Some ContextCanceled), sample_Shutdown None) s
   in dv_tcp (fst r) = Some Returned_from \<and> snd r = Some (Joined [Wrapf ''UDP'' ContextCanceled])"
  using dns_stop_closes_both [OF sample_Shutdown_documented [of "Some ContextCanceled"] sample_Shutdown_documented [of None],
      of "\<lparr>dv_udp = Some Accepting, dv_tcp = Some Accepting\<rparr>"]
  by (simp add: Let_def sample_Shutdown_def)

section \<open>Observations\<close>

text \<open>
  A stop that comes before the goroutine of a plain DNS or DoT server listens fails, and the
  goroutine then listens for good: nothing refers to it any more.
\<close>

lemma dns_stop_too_early:
  "snd (DNSServer_Stop (sample_Shutdown closing, sample_Shutdown closing) (DNSServer_Start True False)) \<noteq> None
   \<and> map_option (ListenAndServe True)
       (dv_udp (fst (DNSServer_Stop (sample_Shutdown closing, sample_Shutdown closing) (DNSServer_Start True False)))) = Some Accepting"
  by (simp add: DNSServer_Stop_def DNSServer_Start_def shutdown_one_def sample_Shutdown_def errors_Join_def ListenAndServe_def)

end
