(* ===== verification/Sessions.thy ===== *)
theory Sessions
  imports Config Go_Net
begin

text \<open>
  The sessions of the web interface (\<open>internal/web/server.go\<close>): tokens, login, logout, expiry and
  the check every request goes through. The specification is the history of logins and logouts:
  a token is good exactly if the last thing that happened to it is a login less than a day ago.
\<close>

section \<open>Tokens\<close>

text \<open>\<open>rand.Read\<close> is an argument: the bytes it fills the buffer with, or its error.\<close>

definition hex_EncodeToString :: "string \<Rightarrow> string" where
  "hex_EncodeToString s = concat (map (\<lambda>c. [hex_digit (byte c div 16), hex_digit (byte c mod 16)]) s)"

definition newSessionToken :: "goerr + string \<Rightarrow> goerr + string" where
  "newSessionToken rnd = (case rnd of Inl e \<Rightarrow> Inl e | Inr buf \<Rightarrow> Inr (hex_EncodeToString buf))"

section \<open>Operations\<close>

text \<open>The global map from tokens to their expiry. Times are nanoseconds since the epoch.\<close>

type_synonym sessions = "int gomap"

definition session_life :: int where "session_life = 24 * 3600 * 1000000000"

definition pruneExpiredSessionsLocked :: "int \<Rightarrow> sessions \<Rightarrow> sessions" where
  "pruneExpiredSessionsLocked now ss = filter (\<lambda>(tok, expiry). \<not> expiry < now) ss"

definition auth_enabled :: "config \<Rightarrow> bool" where
  "auth_enabled c \<longleftrightarrow> \<not> (wu_Username (cf_WebUI c) = [] \<or> wu_Password (cf_WebUI c) = [])"

text \<open>The cookie \<open>session_token\<close> of the request, if it has one, and the two readings of the clock.\<close>

definition checkAuth :: "config \<Rightarrow> string option \<Rightarrow> int \<times> int \<Rightarrow> sessions \<Rightarrow> bool \<times> sessions" where
  "checkAuth c cookie clk ss =
     (if wu_Username (cf_WebUI c) = [] \<or> wu_Password (cf_WebUI c) = [] then (True, ss)
      else (case cookie of
        None \<Rightarrow> (False, ss)
      | Some tok \<Rightarrow>
          (let ss' = pruneExpiredSessionsLocked (fst clk) ss in
           ((case map_of ss' tok of None \<Rightarrow> False | Some expiry \<Rightarrow> snd clk < expiry), ss'))))"

definition ConstantTimeCompare :: "string \<Rightarrow> string \<Rightarrow> int" where
  "ConstantTimeCompare x y = (if x = y then 1 else 0)"

text \<open>What the session handlers reply: an HTTP error, a cookie with its expiry, or an expired cookie.\<close>

datatype session_reply = SessionError int | SetCookie string int bool | DropCookie bool

definition handle_login ::
  "config \<Rightarrow> bool \<Rightarrow> bool \<Rightarrow> goerr + string \<times> string \<Rightarrow> goerr + string \<Rightarrow> int \<times> int \<Rightarrow> sessions
     \<Rightarrow> sessions \<times> session_reply" where
  "handle_login c is_post tls creds rnd clk ss =
     (if \<not> is_post then (ss, SessionError 405)
      else (case creds of
        Inl e \<Rightarrow> (ss, SessionError 400)
      | Inr (username, password) \<Rightarrow>
          (let userOK = ConstantTimeCompare username (wu_Username (cf_WebUI c)) = 1;
               passOK = ConstantTimeCompare password (wu_Password (cf_WebUI c)) = 1
           in if userOK \<and> passOK
              then (case newSessionToken rnd of
                      Inl e \<Rightarrow> (ss, SessionError 500)
                    | Inr tok \<Rightarrow>
                        (let expiry = fst clk + session_life in
                         (AList.update tok expiry (pruneExpiredSessionsLocked (snd clk) ss), SetCookie tok expiry tls)))
              else (ss, SessionError 401))))"

definition handle_logout :: "bool \<Rightarrow> string option \<Rightarrow> sessions \<Rightarrow> sessions \<times> session_reply" where
  "handle_logout tls cookie ss =
     (case cookie of None \<Rightarrow> (ss, DropCookie tls) | Some tok \<Rightarrow> (AList.delete tok ss, DropCookie tls))"

section \<open>Runs\<close>

text \<open>
  The history, last event first. A login records the credentials that were given and those of
  the configuration at that moment.
\<close>

datatype session_event =
    LoggedIn string int "string \<times> string" config
  | LoggedOut string

record session_state =
  sn_sessions :: sessions
  sn_config :: config
  sn_clock :: int
  sn_history :: "session_event list"

definition login_event :: "goerr + string \<times> string \<Rightarrow> config \<Rightarrow> session_reply \<Rightarrow> session_event list" where
  "login_event creds c reply =
     (case reply of
        SetCookie tok expiry _ \<Rightarrow> [LoggedIn tok (expiry - session_life) (projr creds) c]
      | _ \<Rightarrow> [])"

definition login_step ::
  "bool \<Rightarrow> bool \<Rightarrow> goerr + string \<times> string \<Rightarrow> goerr + string \<Rightarrow> int \<times> int \<Rightarrow> session_state \<Rightarrow> session_state" where
  "login_step is_post tls creds rnd clk s =
     (let r = handle_login (sn_config s) is_post tls creds rnd clk (sn_sessions s) in
      s\<lparr>sn_sessions := fst r, sn_clock := snd clk, sn_history := login_event creds (sn_config s) (snd r) @ sn_history s\<rparr>)"

definition logout_step :: "bool \<Rightarrow> string option \<Rightarrow> session_state \<Rightarrow> session_state" where
  "logout_step tls cookie s =
     s\<lparr>sn_sessions := fst (handle_logout tls cookie (sn_sessions s)),
       sn_history := (case cookie of None \<Rightarrow> [] | Some tok \<Rightarrow> [LoggedOut tok]) @ sn_history s\<rparr>"

definition check_step :: "string option \<Rightarrow> int \<times> int \<Rightarrow> session_state \<Rightarrow> session_state" where
  "check_step cookie clk s =
     s\<lparr>sn_sessions := snd (checkAuth (sn_config s) cookie clk (sn_sessions s)), sn_clock := snd clk\<rparr>"

inductive sstep :: "session_state \<Rightarrow> session_state \<Rightarrow> bool" where
  login: "sn_clock s \<le> fst clk \<Longrightarrow> fst clk \<le> snd clk \<Longrightarrow> sstep s (login_step is_post tls creds rnd clk s)"
| logout: "sstep s (logout_step tls cookie s)"
| check: "sn_clock s \<le> fst clk \<Longrightarrow> fst clk \<le> snd clk \<Longrightarrow> sstep s (check_step cookie clk s)"
| reconfigured: "sstep s (s\<lparr>sn_config := c\<rparr>)"
| passed: "sn_clock s \<le> t \<Longrightarrow> sstep s (s\<lparr>sn_clock := t\<rparr>)"

definition sessions_init :: "config \<Rightarrow> int \<Rightarrow> session_state" where
  "sessions_init c t = \<lparr>sn_sessions = [], sn_config = c, sn_clock = t, sn_history = []\<rparr>"

text \<open>The last event of a token.\<close>

fun event_token :: "session_event \<Rightarrow> string" where
  "event_token (LoggedIn tok t u c) = tok"
| "event_token (LoggedOut tok) = tok"

definition last_event :: "string \<Rightarrow> session_event list \<Rightarrow> session_event option" where
  "last_event tok h = find (\<lambda>e. event_token e = tok) h"

text \<open>When the token was issued, if its last event is a login; a token is good for a day.\<close>

definition login_time :: "string \<Rightarrow> session_event list \<Rightarrow> int option" where
  "login_time tok h = (case last_event tok h of Some (LoggedIn _ t _ _) \<Rightarrow> Some t | _ \<Rightarrow> None)"

definition good_by_history :: "string \<Rightarrow> int \<Rightarrow> session_event list \<Rightarrow> bool" where
  "good_by_history tok now h \<longleftrightarrow> (case login_time tok h of Some t \<Rightarrow> now < t + session_life | None \<Rightarrow> False)"

definition genuine :: "session_event \<Rightarrow> bool" where
  "genuine e \<longleftrightarrow> (case e of
     LoggedIn tok t u c \<Rightarrow> u = (wu_Username (cf_WebUI c), wu_Password (cf_WebUI c))
   | LoggedOut tok \<Rightarrow> True)"

definition sessions_inv :: "session_state \<Rightarrow> bool" where
  "sessions_inv s \<longleftrightarrow> wf_gomap (sn_sessions s) \<and> list_all genuine (sn_history s)
     \<and> (\<forall>tok e. map_of (sn_sessions s) tok = Some e \<longrightarrow> login_time tok (sn_history s) = Some (e - session_life))
     \<and> (\<forall>tok t. login_time tok (sn_history s) = Some t \<longrightarrow>
          sn_clock s \<le> t + session_life \<longrightarrow> map_of (sn_sessions s) tok = Some (t + session_life))"

lemma last_event_Nil [simp]: "last_event tok [] = None"
  by (simp add: last_event_def)

lemma last_event_Cons [simp]:
  "last_event tok (e # h) = (if event_token e = tok then Some e else last_event tok h)"
  by (simp add: last_event_def)

lemma login_time_simps [simp]:
  "login_time tok [] = None"
  "login_time tok (LoggedIn tok' t u c # h) = (if tok' = tok then Some t else login_time tok h)"
  "login_time tok (LoggedOut tok' # h) = (if tok' = tok then None else login_time tok h)"
  by (simp_all add: login_time_def)

lemma map_of_prune:
  "wf_gomap ss \<Longrightarrow> map_of (pruneExpiredSessionsLocked now ss) tok =
     (case map_of ss tok of Some e \<Rightarrow> if e < now then None else Some e | None \<Rightarrow> None)"
  by (induction ss) (auto simp: pruneExpiredSessionsLocked_def wf_gomap_def split: option.splits if_splits
      dest: map_of_SomeD intro: rev_image_eqI)

lemma wf_prune [simp]: "wf_gomap ss \<Longrightarrow> wf_gomap (pruneExpiredSessionsLocked now ss)"
  by (induction ss) (auto simp: pruneExpiredSessionsLocked_def wf_gomap_def)

lemma handle_login_cookie:
  "snd (handle_login c p tls creds rnd clk ss) = SetCookie tok expiry b \<longleftrightarrow>
     p \<and> creds = Inr (wu_Username (cf_WebUI c), wu_Password (cf_WebUI c)) \<and> newSessionToken rnd = Inr tok
     \<and> expiry = fst clk + session_life \<and> b = tls"
  by (auto simp: handle_login_def ConstantTimeCompare_def Let_def split: sum.splits)

lemma handle_login_cases:
  "(\<exists>tok. handle_login c p tls creds rnd clk ss
         = (AList.update tok (fst clk + session_life) (pruneExpiredSessionsLocked (snd clk) ss),
            SetCookie tok (fst clk + session_life) tls)
       \<and> creds = Inr (wu_Username (cf_WebUI c), wu_Password (cf_WebUI c)))
   \<or> (\<exists>code. handle_login c p tls creds rnd clk ss = (ss, SessionError code))"
  by (simp add: handle_login_def ConstantTimeCompare_def Let_def split: sum.split prod.split)

lemma prune_keeps_inv:
  assumes "sessions_inv s" "sn_clock s \<le> now" "now \<le> now'"
  shows "sessions_inv (s\<lparr>sn_sessions := pruneExpiredSessionsLocked now (sn_sessions s), sn_clock := now'\<rparr>)"
proof -
  have wf: "wf_gomap (sn_sessions s)" using assms(1) by (simp add: sessions_inv_def)
  then show ?thesis using assms
    by (auto simp: sessions_inv_def map_of_prune [OF wf] split: option.splits if_splits)
qed

lemma clock_keeps_inv:
  "sessions_inv s \<Longrightarrow> sn_clock s \<le> t \<Longrightarrow> sessions_inv (s\<lparr>sn_clock := t\<rparr>)"
  by (auto simp: sessions_inv_def)

lemma sstep_inv:
  assumes "sessions_inv s" "sstep s s'"
  shows "sessions_inv s'"
  using assms(2)
proof (cases rule: sstep.cases)
  case (login clk is_post tls creds rnd)
  from handle_login_cases [of "sn_config s" is_post tls creds rnd clk "sn_sessions s"] show ?thesis
  proof (elim disjE exE conjE)
    fix tok
    assume issued: "handle_login (sn_config s) is_post tls creds rnd clk (sn_sessions s)
         = (AList.update tok (fst clk + session_life) (pruneExpiredSessionsLocked (snd clk) (sn_sessions s)),
            SetCookie tok (fst clk + session_life) tls)"
      "creds = Inr (wu_Username (cf_WebUI (sn_config s)), wu_Password (cf_WebUI (sn_config s)))"
    define s1 where "s1 = s\<lparr>sn_sessions := pruneExpiredSessionsLocked (snd clk) (sn_sessions s), sn_clock := snd clk\<rparr>"
    have "sessions_inv s1" unfolding s1_def by (rule prune_keeps_inv) (use assms(1) login in auto)
    moreover have "s' = s1\<lparr>sn_sessions := AList.update tok (fst clk + session_life) (sn_sessions s1),
        sn_history := LoggedIn tok (fst clk) (wu_Username (cf_WebUI (sn_config s)), wu_Password (cf_WebUI (sn_config s))) (sn_config s)
           # sn_history s1\<rparr>"
      using login issued by (simp add: login_step_def Let_def s1_def login_event_def)
    ultimately show ?thesis
      by (auto simp: sessions_inv_def map_of_update genuine_def intro: wf_gomap_update)
  next
    fix code
    assume "handle_login (sn_config s) is_post tls creds rnd clk (sn_sessions s) = (sn_sessions s, SessionError code)"
    with clock_keeps_inv [OF assms(1), of "snd clk"] login show ?thesis
      by (simp add: login_step_def Let_def login_event_def)
  qed
next
  case (logout tls cookie)
  with assms(1) show ?thesis
    by (cases cookie) (auto simp: logout_step_def handle_logout_def sessions_inv_def map_of_delete genuine_def
        intro: wf_gomap_delete split: if_splits)
next
  case (check clk cookie)
  have c: "snd (checkAuth (sn_config s) cookie clk (sn_sessions s)) = sn_sessions s
    \<or> snd (checkAuth (sn_config s) cookie clk (sn_sessions s)) = pruneExpiredSessionsLocked (fst clk) (sn_sessions s)"
    by (simp add: checkAuth_def Let_def split: option.split)
  have "sn_clock s \<le> snd clk" using check by simp
  from c clock_keeps_inv [OF assms(1) this] prune_keeps_inv [OF assms(1), of "fst clk" "snd clk"] check show ?thesis
    by (elim disjE) (simp_all add: check_step_def)
next
  case (reconfigured c)
  with assms(1) show ?thesis by (simp add: sessions_inv_def)
next
  case (passed t)
  with clock_keeps_inv [OF assms(1), of t] show ?thesis by simp
qed

interpretation web_sessions: step_system "\<lambda>s. \<exists>c t. s = sessions_init c t" sstep sessions_inv
proof unfold_locales
  fix s assume "\<exists>c t. s = sessions_init c t"
  then show "sessions_inv s" by (auto simp: sessions_inv_def sessions_init_def)
qed (rule sstep_inv)

lemma checkAuth_history:
  assumes "sessions_inv s" "auth_enabled (sn_config s)" "sn_clock s \<le> fst clk" "fst clk \<le> snd clk"
  shows "fst (checkAuth (sn_config s) cookie clk (sn_sessions s))
    \<longleftrightarrow> (\<exists>tok. cookie = Some tok \<and> good_by_history tok (snd clk) (sn_history s))"
proof (cases cookie)
  case None
  with assms(2) show ?thesis by (simp add: checkAuth_def auth_enabled_def)
next
  case (Some tok)
  have wf: "wf_gomap (sn_sessions s)" using assms(1) by (simp add: sessions_inv_def)
  have chk: "fst (checkAuth (sn_config s) cookie clk (sn_sessions s))
      \<longleftrightarrow> (\<exists>e. map_of (sn_sessions s) tok = Some e \<and> snd clk < e)"
    using assms(2,4) Some by (auto simp: checkAuth_def auth_enabled_def Let_def map_of_prune [OF wf] split: option.splits)
  have snd: "map_of (sn_sessions s) tok = Some e \<Longrightarrow> login_time tok (sn_history s) = Some (e - session_life)" for e
    using assms(1) by (simp add: sessions_inv_def)
  have cmp: "login_time tok (sn_history s) = Some t \<Longrightarrow> snd clk < t + session_life
      \<Longrightarrow> map_of (sn_sessions s) tok = Some (t + session_life)" for t
    using assms(1,3,4) by (simp add: sessions_inv_def)
  have "(\<exists>e. map_of (sn_sessions s) tok = Some e \<and> snd clk < e) \<longleftrightarrow> good_by_history tok (snd clk) (sn_history s)"
    using snd cmp by (fastforce simp: good_by_history_def split: option.splits)
  with chk Some show ?thesis by simp
qed

section \<open>Properties\<close>

text \<open>
  C18: The session check decides by the history: after any run of logins, logouts, checks, changes
  of the configuration and time, with authentication enabled, a request passes exactly if it
  carries a token whose last event is a login less than 24 hours ago; and every login in the
  history was made with the user name and the password configured at that moment.
\<close>

theorem sessions_follow_history:
  assumes "sstep\<^sup>*\<^sup>* (sessions_init c t) s"
    and "auth_enabled (sn_config s)" "sn_clock s \<le> fst clk" "fst clk \<le> snd clk"
  shows "(fst (checkAuth (sn_config s) cookie clk (sn_sessions s))
      \<longleftrightarrow> (\<exists>tok. cookie = Some tok \<and> good_by_history tok (snd clk) (sn_history s)))
    \<and> list_all genuine (sn_history s)"
proof -
  have "sessions_inv s" using web_sessions.inv_reachable assms(1) by blast
  with checkAuth_history [OF this assms(2-4)] show ?thesis by (simp add: sessions_inv_def)
qed

section \<open>Witnesses\<close>

definition web_config :: "config \<Rightarrow> config" where
  "web_config c = c\<lparr>cf_WebUI := (cf_WebUI c)\<lparr>wu_Username := ''admin'', wu_Password := ''secret''\<rparr>\<rparr>"

text \<open>Logged in at 0, with the token \<open>6162\<close>.\<close>

definition sample_login :: "config \<Rightarrow> session_state" where
  "sample_login c = login_step True False (Inr (''admin'', ''secret'')) (Inr ''ab'') (0, 0) (sessions_init (web_config c) 0)"

lemma hex_ab: "hex_EncodeToString ''ab'' = ''6162''"
  by code_simp

lemma sample_login_simps:
  "sn_sessions (sample_login c) = [(''6162'', session_life)]" "sn_config (sample_login c) = web_config c"
  "sn_clock (sample_login c) = 0"
  "sn_history (sample_login c) = [LoggedIn ''6162'' 0 (''admin'', ''secret'') (web_config c)]"
  by (simp_all add: sample_login_def login_step_def sessions_init_def handle_login_def web_config_def Let_def
      ConstantTimeCompare_def newSessionToken_def hex_ab pruneExpiredSessionsLocked_def login_event_def)

lemma sample_login_run: "sstep\<^sup>*\<^sup>* (sessions_init (web_config c) 0) (sample_login c)"
  unfolding sample_login_def by (intro r_into_rtranclp sstep.login) (simp_all add: sessions_init_def)

theorem sessions_follow_history_witness:
  "\<forall>c. fst (checkAuth (web_config c) (Some ''6162'') (5, 5) (sn_sessions (sample_login c)))
     \<and> \<not> fst (checkAuth (web_config c) (Some ''6163'') (5, 5) (sn_sessions (sample_login c)))"
proof
  fix c
  show "fst (checkAuth (web_config c) (Some ''6162'') (5, 5) (sn_sessions (sample_login c)))
      \<and> \<not> fst (checkAuth (web_config c) (Some ''6163'') (5, 5) (sn_sessions (sample_login c)))"
    using sessions_follow_history [OF sample_login_run, of c "(5, 5)" "Some ''6162''"]
      sessions_follow_history [OF sample_login_run, of c "(5, 5)" "Some ''6163''"]
    by (simp add: sample_login_simps auth_enabled_def web_config_def good_by_history_def session_life_def)
qed

section \<open>Observations\<close>

text \<open>A session outlives a change of the password.\<close>

lemma password_change_keeps_sessions:
  "\<exists>s. sstep\<^sup>*\<^sup>* (sessions_init (web_config c) 0) s
     \<and> wu_Password (cf_WebUI (sn_config s)) = ''changed'' \<and> auth_enabled (sn_config s)
     \<and> fst (checkAuth (sn_config s) (Some ''6162'') (5, 5) (sn_sessions s))"
proof -
  let ?c = "(web_config c)\<lparr>cf_WebUI := (cf_WebUI (web_config c))\<lparr>wu_Password := ''changed''\<rparr>\<rparr>"
  let ?s = "(sample_login c)\<lparr>sn_config := ?c\<rparr>"
  have "sstep\<^sup>*\<^sup>* (sessions_init (web_config c) 0) ?s"
    by (rule rtranclp.rtrancl_into_rtrancl [OF sample_login_run sstep.reconfigured])
  moreover have "auth_enabled ?c" "fst (checkAuth ?c (Some ''6162'') (5, 5) [(''6162'', session_life)])"
    by (simp_all add: auth_enabled_def checkAuth_def web_config_def pruneExpiredSessionsLocked_def session_life_def)
  ultimately show ?thesis by (intro exI [of _ ?s]) (simp add: sample_login_simps)
qed

end
