(* ===== verification/Web_Pages.thy ===== *)
theory Web_Pages
  imports Config_Store Util "HOL-Library.Product_Lexorder"
begin

text \<open>
  What the web interface computes from its inputs (\<open>internal/web/server.go\<close>): page numbers, the
  slice of the hosts list a page shows, and the largest counters for the dashboard. A slice
  expression out of range is \<open>None\<close>, the panic of Go.
\<close>

section \<open>Numbers in a query\<close>

text \<open>
  \<open>fmt.Sscanf(s, "%d", &x)\<close>: white space but no newline, a sign, decimal digits; the rest is
  ignored. The variable keeps its value if there is no number or it does not fit 64 bits.
\<close>

definition fmt_Sscanf_int :: "string \<Rightarrow> int \<Rightarrow> int" where
  "fmt_Sscanf_int s x =
     (let s1 = dropWhile (\<lambda>c. is_space c \<and> c \<noteq> LF) s;
          neg = strings_HasPrefix s1 ''-'';
          s2 = (if neg \<or> strings_HasPrefix s1 ''+'' then tl s1 else s1)
      in case digits_val 0 (takeWhile (\<lambda>c. digit_val c \<noteq> None) s2) of
           None \<Rightarrow> x
         | Some n \<Rightarrow>
             (let v = (if neg then - int n else int n) in
              if takeWhile (\<lambda>c. digit_val c \<noteq> None) s2 \<noteq> [] \<and> in_i64 v then v else x))"

definition query_number :: "string \<Rightarrow> int \<Rightarrow> int" where
  "query_number p d = (if p \<noteq> [] then fmt_Sscanf_int p d else d)"

lemma fmt_Sscanf_in_i64: "in_i64 x \<Longrightarrow> in_i64 (fmt_Sscanf_int s x)"
  by (simp add: fmt_Sscanf_int_def Let_def split: option.split)

lemma query_number_in_i64: "in_i64 d \<Longrightarrow> in_i64 (query_number p d)"
  by (simp add: query_number_def fmt_Sscanf_in_i64)

section \<open>The hosts list\<close>

definition go_slice :: "'a list \<Rightarrow> int \<Rightarrow> int \<Rightarrow> 'a list option" where
  "go_slice xs a b =
     (if 0 \<le> a \<and> a \<le> b \<and> b \<le> int (length xs) then Some (take (nat (b - a)) (drop (nat a) xs)) else None)"

text \<open>\<open>start\<close> and \<open>end\<close> of a page, in 64 bit arithmetic.\<close>

definition page_bounds :: "int \<Rightarrow> int \<Rightarrow> int \<Rightarrow> int \<times> int" where
  "page_bounds page limit tot =
     (let start0 = i64 (i64 (page - 1) * limit);
          start = (if start0 < 0 \<or> tot < start0 then tot else start0);
          end0 = i64 (start + limit);
          end = (if end0 < start \<or> tot < end0 then tot else end0)
      in (start, end))"

definition matching_hosts :: "string \<Rightarrow> string gomap \<Rightarrow> (string \<times> string) list" where
  "matching_hosts q hosts =
     sort_key fst (filter (\<lambda>(k, v). q = [] \<or> strings_Contains k q \<or> strings_Contains v q) hosts)"

record hosts_page =
  hp_data :: "(string \<times> string) list"
  hp_total :: int
  hp_page :: int
  hp_limit :: int

text \<open>The query parameters \<open>q\<close>, \<open>page\<close> and \<open>limit\<close>.\<close>

definition list_hosts :: "string gomap \<Rightarrow> string \<Rightarrow> string \<Rightarrow> string \<Rightarrow> hosts_page option" where
  "list_hosts hosts q p l =
     (let page0 = query_number p 1;
          limit0 = query_number l 50;
          page = (if page0 < 1 then 1 else page0);
          limit = (if limit0 < 1 then 50 else limit0);
          allHosts = matching_hosts (strings_ToLower q) hosts;
          tot = int (length allHosts)
      in case page_bounds page limit tot of
           (start, end) \<Rightarrow>
             map_option (\<lambda>d. \<lparr>hp_data = d, hp_total = tot, hp_page = page, hp_limit = limit\<rparr>)
               (go_slice allHosts start end))"

lemma page_bounds_range:
  assumes "0 \<le> tot" "page_bounds page limit tot = (start, end)"
  shows "0 \<le> start \<and> start \<le> end \<and> end \<le> tot"
  using assms by (auto simp: page_bounds_def Let_def)

lemma page_bounds_exact:
  assumes "1 \<le> page" "1 \<le> limit" "page * limit < 2 ^ 63" "0 \<le> tot" "tot < 2 ^ 62" "limit < 2 ^ 62"
  shows "page_bounds page limit tot = (min ((page - 1) * limit) tot, min (page * limit) tot)"
proof -
  define x where "x = page * limit"
  have x: "(page - 1) * limit = x - limit" by (simp add: x_def left_diff_distrib)
  have "1 * limit \<le> x" "page * 1 \<le> x" unfolding x_def using assms by (intro mult_mono; simp)+
  then have b: "limit \<le> x" "page \<le> x" by simp_all
  have xs: "x < 2 ^ 63" using assms(3) by (simp add: x_def)
  have "i64 (page - 1) = page - 1" "i64 (x - limit) = x - limit"
    by (intro i64_id in_i64_bounds; use assms b xs in linarith)+
  moreover have "i64 (min (x - limit) tot + limit) = min (x - limit) tot + limit"
    by (intro i64_id in_i64_bounds; use assms b in \<open>simp add: min_def; linarith\<close>)
  ultimately show ?thesis using b assms(2,4) by (auto simp: page_bounds_def Let_def x min_def simp flip: x_def)
qed

lemma matching_hosts_props:
  assumes "wf_gomap hosts"
  shows "set (matching_hosts q hosts) = {(k, v). map_of hosts k = Some v \<and> (q = [] \<or> strings_Contains k q \<or> strings_Contains v q)}"
    and "sorted (map fst (matching_hosts q hosts))" "distinct (map fst (matching_hosts q hosts))"
proof -
  show "set (matching_hosts q hosts) = {(k, v). map_of hosts k = Some v \<and> (q = [] \<or> strings_Contains k q \<or> strings_Contains v q)}"
    using assms by (auto simp: matching_hosts_def wf_gomap_def)
  show "sorted (map fst (matching_hosts q hosts))" by (simp add: matching_hosts_def)
  have "distinct (map fst (filter P hosts))" for P using assms by (simp add: wf_gomap_def distinct_map_filter)
  then show "distinct (map fst (matching_hosts q hosts))"
    unfolding matching_hosts_def by (simp add: distinct_map distinct_sort inj_on_def)
qed

lemma list_hosts_total: "\<exists>r. list_hosts hosts q p l = Some r"
proof -
  let ?page = "if query_number p 1 < 1 then 1 else query_number p 1"
  let ?limit = "if query_number l 50 < 1 then 50 else query_number l 50"
  let ?all = "matching_hosts (strings_ToLower q) hosts"
  obtain a b where ab: "page_bounds ?page ?limit (int (length ?all)) = (a, b)" by fastforce
  with page_bounds_range [of "int (length ?all)"] show ?thesis
    by (simp add: list_hosts_def Let_def go_slice_def)
qed

text \<open>The slices of consecutive pages make up the list.\<close>

lemma slices_cover:
  assumes "1 \<le> limit" "int n * limit < 2 ^ 63" "int (length xs) < 2 ^ 62" "limit < 2 ^ 62"
  shows "concat (map (\<lambda>i. the (case page_bounds (int i) limit (int (length xs)) of (a, b) \<Rightarrow> go_slice xs a b)) [1..<Suc n])
    = take (n * nat limit) xs"
  using assms(2)
proof (induction n)
  case (Suc n)
  obtain m where "limit = int m" using zero_le_imp_eq_int [of limit] assms(1) by auto
  with assms(1) have m: "limit = int m" "1 \<le> m" by simp_all
  have "int n * limit < 2 ^ 63" using Suc.prems m by (simp add: algebra_simps)
  note IH = Suc.IH [OF this]
  have b: "page_bounds (int (Suc n)) limit (int (length xs)) = (int (min (n * m) (length xs)), int (min (Suc n * m) (length xs)))"
  proof -
    have e: "int (Suc n) * limit = int (Suc n * m)" "(int (Suc n) - 1) * limit = int (n * m)" using m by (simp_all add: distrib_right)
    have "page_bounds (int (Suc n)) limit (int (length xs))
        = (min ((int (Suc n) - 1) * limit) (int (length xs)), min (int (Suc n) * limit) (int (length xs)))"
      by (rule page_bounds_exact) (use Suc.prems assms in simp_all)
    then show ?thesis unfolding e by (simp only: of_nat_min)
  qed
  have "the (case page_bounds (int (Suc n)) limit (int (length xs)) of (a, b) \<Rightarrow> go_slice xs a b) = take m (drop (n * m) xs)"
    unfolding b by (auto simp: go_slice_def min_def nat_diff_distrib simp flip: of_nat_mult)
  moreover have "take (Suc n * nat limit) xs = take (n * m) xs @ take m (drop (n * m) xs)"
    using take_add [of "n * m" m xs] m by (simp add: add.commute)
  ultimately show ?case using IH m by simp
qed simp

section \<open>The largest counters\<close>

definition limitCountMap :: "int gomap \<Rightarrow> int \<Rightarrow> int gomap" where
  "limitCountMap source limit =
     (if length source = 0 \<or> limit \<le> 0 \<or> int (length source) \<le> limit then source
      else take (nat limit) (sort_key (\<lambda>(k, v). (- v, k)) source))"

definition topStatsLimit :: int where "topStatsLimit = 20"

lemma sorted_take_drop:
  assumes "sorted (map f xs)" "x \<in> set (take n xs)" "y \<in> set (drop n xs)"
  shows "f x \<le> f y"
proof -
  have "sorted (map f (take n xs) @ map f (drop n xs))" using assms(1) by (simp flip: map_append)
  with assms(2,3) show ?thesis by (simp add: sorted_append)
qed

section \<open>Properties\<close>

text \<open>
  C27: The hosts list of the web interface never panics, whatever page and limit a request names,
  64 bit overflow included; and the pages of any limit show every matching host exactly once, in
  the order of the names.
\<close>

theorem hosts_pages_cover:
  assumes "wf_gomap hosts" "length hosts < 2 ^ 62"
    and "1 \<le> limit" "limit < 2 ^ 62" "int (length hosts) \<le> int n * limit" "int n * limit < 2 ^ 63"
  shows "(\<forall>q p l. list_hosts hosts q p l \<noteq> None)
    \<and> (let xs = matching_hosts q hosts;
           page = (\<lambda>i. the (case page_bounds (int i) limit (int (length xs)) of (a, b) \<Rightarrow> go_slice xs a b))
       in concat (map page [1..<Suc n]) = xs \<and> sorted (map fst xs) \<and> distinct (map fst xs)
          \<and> set xs = {(k, v). map_of hosts k = Some v \<and> (q = [] \<or> strings_Contains k q \<or> strings_Contains v q)})"
proof -
  let ?xs = "matching_hosts q hosts"
  have len: "length ?xs \<le> length hosts" by (simp add: matching_hosts_def)
  have "int (n * nat limit) = int n * limit" using assms(3) by simp
  with assms(5) len have all: "length ?xs \<le> n * nat limit" by linarith
  have "int (length ?xs) < 2 ^ 62" using len assms(2) by simp
  from slices_cover [OF assms(3,6) this assms(4)] all
  have "concat (map (\<lambda>i. the (case page_bounds (int i) limit (int (length ?xs)) of (a, b) \<Rightarrow> go_slice ?xs a b)) [1..<Suc n]) = ?xs"
    by simp
  moreover have "\<forall>q p l. list_hosts hosts q p l \<noteq> None" using list_hosts_total by blast
  ultimately show ?thesis using matching_hosts_props [OF assms(1), of q] by (simp only: Let_def simp_thms)
qed

text \<open>
  The dashboard shows the largest counters: the limited map has the right size and only
  counters of the source, and each counter it leaves out is smaller than each it keeps, or equal
  and later in the order of the names.
\<close>

theorem limitCountMap_keeps_largest:
  assumes "wf_gomap source" "0 < limit" and "r = limitCountMap source limit"
  shows "wf_gomap r \<and> int (length r) = min (int (length source)) limit \<and> set r \<subseteq> set source
    \<and> (\<forall>(k, v) \<in> set r. \<forall>(k', v') \<in> set source - set r. v' < v \<or> v' = v \<and> k < k')"
proof (cases "length source = 0 \<or> int (length source) \<le> limit")
  case True
  with assms show ?thesis by (auto simp: limitCountMap_def)
next
  case False
  define f where "f = (\<lambda>(k :: string, v :: int). (- v, k))"
  define xs where "xs = sort_key f source"
  have r: "r = take (nat limit) xs" using False assms(2,3) by (simp add: limitCountMap_def xs_def f_def)
  have d: "distinct (map fst xs)" using assms(1)
    by (simp add: xs_def wf_gomap_def distinct_map distinct_sort)
  have st: "sorted (map f xs)" by (simp add: xs_def)
  have set: "set source = set (take (nat limit) xs) \<union> set (drop (nat limit) xs)"
    by (metis append_take_drop_id set_append set_sort xs_def)
  have "wf_gomap r" using d by (simp add: wf_gomap_def r distinct_take flip: take_map)
  moreover have "int (length r) = min (int (length source)) limit" using assms(2) by (simp add: r xs_def)
  moreover have "v' < v \<or> v' = v \<and> k < k'" if kv: "(k, v) \<in> set r" "(k', v') \<in> set source" "(k', v') \<notin> set r" for k v k' v'
  proof -
    have "(k', v') \<in> set (drop (nat limit) xs)" using kv set by (auto simp: r)
    with sorted_take_drop [OF st] kv(1) have le: "f (k, v) \<le> f (k', v')" unfolding r by blast
    have "k \<noteq> k'"
    proof
      assume "k = k'"
      have "(k, v) \<in> set source" using kv(1) set by (auto simp: r)
      with kv(2) \<open>k = k'\<close> assms(1) have "v = v'" by (auto simp: wf_gomap_def dest: eq_key_imp_eq_value)
      with kv(1,3) \<open>k = k'\<close> show False by simp
    qed
    with le show ?thesis by (auto simp: f_def less_eq_prod_def less_le)
  qed
  ultimately show ?thesis using set by (auto simp: r)
qed

section \<open>Witnesses\<close>

definition sample_hosts_map :: "string gomap" where
  "sample_hosts_map = [(''b'', ''10.0.0.2''), (''a'', ''10.0.0.1''), (''c'', ''10.0.0.3'')]"

theorem hosts_pages_cover_witness:
  "concat (map (\<lambda>i. the (case page_bounds (int i) 2 3 of (a, b) \<Rightarrow> go_slice (matching_hosts [] sample_hosts_map) a b)) [1, 2])
     = [(''a'', ''10.0.0.1''), (''b'', ''10.0.0.2''), (''c'', ''10.0.0.3'')]"
proof -
  have wf: "wf_gomap sample_hosts_map" by (simp add: sample_hosts_map_def wf_gomap_def)
  have m: "matching_hosts [] sample_hosts_map = [(''a'', ''10.0.0.1''), (''b'', ''10.0.0.2''), (''c'', ''10.0.0.3'')]"
    by code_simp
  have u: "[1..<Suc 2] = [1, 2]" by (simp add: upt_rec)
  from hosts_pages_cover [OF wf, of 2 2 "[]"] show ?thesis unfolding Let_def m u by (simp add: sample_hosts_map_def)
qed

theorem limitCountMap_keeps_largest_witness:
  "limitCountMap [(''a'', 1), (''c'', 5), (''b'', 5)] 2 = [(''b'', 5), (''c'', 5)]
   \<and> int (length (limitCountMap [(''a'', 1), (''c'', 5), (''b'', 5)] 2)) = 2"
proof -
  have "limitCountMap [(''a'', 1), (''c'', 5), (''b'', 5)] 2 = [(''b'', 5), (''c'', 5)]" by code_simp
  moreover have "wf_gomap [(''a'', 1 :: int), (''c'', 5), (''b'', 5)]" by (simp add: wf_gomap_def)
  from limitCountMap_keeps_largest [OF this, of 2] have "int (length (limitCountMap [(''a'', 1), (''c'', 5), (''b'', 5)] 2)) = 2"
    by simp
  ultimately show ?thesis by blast
qed

section \<open>Observations\<close>

text \<open>
  The query of a search is folded to lower case but the addresses are not, so an IPv6 address
  written with capitals is not found under its own text.
\<close>

lemma capital_address_not_found:
  "list_hosts [(''nas.lan'', ''2001:DB8::1'')] ''2001:DB8::1'' [] []
     = Some \<lparr>hp_data = [], hp_total = 0, hp_page = 1, hp_limit = 50\<rparr>"
  by code_simp

end
