(* ===== verification/Upstream_Tests.thy ===== *)
theory Upstream_Tests
  imports Go_Prelude
begin

text \<open>
  The concurrent part of \<open>/api/test-upstreams\<close> (\<open>internal/web/server.go\<close>): the handler spawns one
  goroutine per upstream, each appends its result to a shared slice under a mutex, and the handler
  replies when the wait group is down to zero. What a goroutine finds out about its job \<open>j\<close> is
  \<open>f j\<close>; that it finds out at all is the five second timeout of its context.
\<close>

section \<open>The goroutines\<close>

text \<open>
  Where a goroutine is: creating the client and asking it; waiting for the mutex with its result;
  holding the mutex, having read the slice that it appends to; holding the mutex, having stored
  the slice; before the deferred \<open>wg.Done()\<close>; returned.
\<close>

datatype 'r test_phase = Asking | Waits_lock | Appends "'r list" | Has_appended | Unlocked | Test_returned

fun holds_lock :: "'r test_phase \<Rightarrow> bool" where
  "holds_lock (Appends rs) = True"
| "holds_lock Has_appended = True"
| "holds_lock _ = False"

fun has_stored :: "'r test_phase \<Rightarrow> bool" where
  "has_stored Has_appended = True"
| "has_stored Unlocked = True"
| "has_stored Test_returned = True"
| "has_stored _ = False"

text \<open>
  The state of the handler: the upstreams that its loops have not reached, its goroutines, the
  variables \<open>results\<close>, \<open>mu\<close> and \<open>wg\<close> that they share, and the reply.
\<close>

record ('j, 'r) tests =
  tt_todo :: "'j list"
  tt_goroutines :: "('j \<times> 'r test_phase) multiset"
  tt_results :: "'r list"
  tt_locked :: bool
  tt_wg :: nat
  tt_reply :: "'r list option"

definition tests_init :: "'j list \<Rightarrow> ('j, 'r) tests" where
  "tests_init jobs = \<lparr>tt_todo = jobs, tt_goroutines = {#}, tt_results = [], tt_locked = False, tt_wg = 0, tt_reply = None\<rparr>"

inductive tests_step :: "('j \<Rightarrow> 'r) \<Rightarrow> ('j, 'r) tests \<Rightarrow> ('j, 'r) tests \<Rightarrow> bool" for f where
  spawn: "tt_todo s = j # js \<Longrightarrow> tests_step f s
     (s\<lparr>tt_todo := js, tt_wg := tt_wg s + 1, tt_goroutines := add_mset (j, Asking) (tt_goroutines s)\<rparr>)"
| asked: "tt_goroutines s = add_mset (j, Asking) R \<Longrightarrow> tests_step f s (s\<lparr>tt_goroutines := add_mset (j, Waits_lock) R\<rparr>)"
| lock: "tt_goroutines s = add_mset (j, Waits_lock) R \<Longrightarrow> \<not> tt_locked s \<Longrightarrow> tests_step f s
     (s\<lparr>tt_goroutines := add_mset (j, Appends (tt_results s)) R, tt_locked := True\<rparr>)"
| append: "tt_goroutines s = add_mset (j, Appends rs) R \<Longrightarrow> tests_step f s
     (s\<lparr>tt_goroutines := add_mset (j, Has_appended) R, tt_results := rs @ [f j]\<rparr>)"
| unlock: "tt_goroutines s = add_mset (j, Has_appended) R \<Longrightarrow> tests_step f s
     (s\<lparr>tt_goroutines := add_mset (j, Unlocked) R, tt_locked := False\<rparr>)"
| wg_done: "tt_goroutines s = add_mset (j, Unlocked) R \<Longrightarrow> tests_step f s
     (s\<lparr>tt_goroutines := add_mset (j, Test_returned) R, tt_wg := tt_wg s - 1\<rparr>)"
| reply: "tt_todo s = [] \<Longrightarrow> tt_wg s = 0 \<Longrightarrow> tt_reply s = None \<Longrightarrow> tests_step f s (s\<lparr>tt_reply := Some (tt_results s)\<rparr>)"

definition tests_run :: "('j \<Rightarrow> 'r) \<Rightarrow> ('j, 'r) tests \<Rightarrow> ('j, 'r) tests \<Rightarrow> bool" where
  "tests_run f = (tests_step f)\<^sup>*\<^sup>*"

section \<open>The reply as a function\<close>

text \<open>The results for one order: each number picks the next of the pending jobs to take the lock.\<close>

function run_tests :: "('j \<Rightarrow> 'r) \<Rightarrow> 'j list \<Rightarrow> nat list \<Rightarrow> 'r list" where
  "run_tests f jobs order =
     (if jobs = [] then []
      else (let i = (case order of [] \<Rightarrow> 0 | n # _ \<Rightarrow> n mod length jobs) in
            f (jobs ! i) # run_tests f (take i jobs @ drop (Suc i) jobs) (tl order)))"
  by pat_completeness auto
termination
proof (relation "measure (\<lambda>(f, jobs, order). length jobs)")
  fix f :: "'j \<Rightarrow> 'r" and jobs :: "'j list" and order :: "nat list" and i :: nat
  assume "jobs \<noteq> []" "i = (case order of [] \<Rightarrow> 0 | n # _ \<Rightarrow> n mod length jobs)"
  then have "i < length jobs" by (simp split: list.split)
  then show "((f, take i jobs @ drop (Suc i) jobs, tl order), f, jobs, order) \<in> measure (\<lambda>(f, jobs, order). length jobs)"
    by simp
qed simp

declare run_tests.simps [simp del]

lemma run_tests_Nil [simp]: "run_tests f [] order = []"
  by (simp add: run_tests.simps)

lemma mset_pick: "i < length xs \<Longrightarrow> mset xs = add_mset (xs ! i) (mset (take i xs @ drop (Suc i) xs))"
  by (subst id_take_nth_drop [of i xs]) simp_all

text \<open>One step of \<open>run_tests\<close>.\<close>

lemma run_tests_pick:
  assumes "jobs \<noteq> []"
  obtains i where "i < length jobs" "run_tests f jobs order = f (jobs ! i) # run_tests f (take i jobs @ drop (Suc i) jobs) (tl order)"
proof
  let ?i = "case order of [] \<Rightarrow> 0 | n # _ \<Rightarrow> n mod length jobs"
  show "?i < length jobs" using assms by (simp split: list.split)
  show "run_tests f jobs order = f (jobs ! ?i) # run_tests f (take ?i jobs @ drop (Suc ?i) jobs) (tl order)"
    using assms by (subst run_tests.simps) (simp add: Let_def)
qed

lemma mset_run_tests: "mset (run_tests f jobs order) = image_mset f (mset jobs)"
proof (induction "length jobs" arbitrary: jobs order)
  case (Suc n)
  then have "jobs \<noteq> []" by auto
  then obtain i where i: "i < length jobs"
    "run_tests f jobs order = f (jobs ! i) # run_tests f (take i jobs @ drop (Suc i) jobs) (tl order)"
    by (rule run_tests_pick)
  from i(1) Suc(2) have "n = length (take i jobs @ drop (Suc i) jobs)" by simp
  from Suc(1) [OF this] show ?case unfolding i(2) by (subst mset_pick [OF i(1)]) simp
qed simp

text \<open>Every order of the results is that of some order of the picks.\<close>

lemma run_tests_all:
  "mset rs = image_mset f (mset jobs) \<Longrightarrow> \<exists>order. rs = run_tests f jobs order"
proof (induction rs arbitrary: jobs)
  case (Cons r rs)
  then have "r \<in> f ` set jobs" by (metis list.set_intros(1) set_image_mset set_mset_mset)
  then obtain i where i: "i < length jobs" "r = f (jobs ! i)" by (auto simp: in_set_conv_nth)
  let ?js = "take i jobs @ drop (Suc i) jobs"
  have "add_mset r (mset rs) = add_mset r (image_mset f (mset ?js))"
    using Cons.prems i(2) by (simp only: mset.simps mset_pick [OF i(1)] image_mset_add_mset)
  then have "mset rs = image_mset f (mset ?js)" by (simp only: add_mset_add_mset_same_iff)
  from Cons.IH [OF this] obtain order where "rs = run_tests f ?js order" ..
  then have "r # rs = run_tests f jobs (i # order)"
    using i by (subst run_tests.simps) (auto simp: Let_def)
  then show ?case ..
qed simp

section \<open>Termination\<close>

fun phase_weight :: "'r test_phase \<Rightarrow> nat" where
  "phase_weight Asking = 5"
| "phase_weight Waits_lock = 4"
| "phase_weight (Appends rs) = 3"
| "phase_weight Has_appended = 2"
| "phase_weight Unlocked = 1"
| "phase_weight Test_returned = 0"

definition tests_left :: "('j, 'r) tests \<Rightarrow> nat" where
  "tests_left s = 6 * length (tt_todo s) + (\<Sum>(j, p) \<in># tt_goroutines s. phase_weight p)
     + (if tt_reply s = None then 1 else 0)"

lemma tests_step_left: "tests_step f s s' \<Longrightarrow> tests_left s = Suc (tests_left s')"
  by (cases rule: tests_step.cases, assumption) (simp_all add: tests_left_def)

lemma tests_step_wf: "wf {(s', s). tests_step f s s'}"
  by (rule wf_subset [OF wf_measure [of tests_left]]) (auto dest: tests_step_left)

section \<open>The invariant\<close>

text \<open>
  Every upstream is to be spawned or has its goroutine; the wait group counts those that have not
  returned; the mutex is held by one goroutine, which has read the current slice; the slice holds
  the results of those that have stored theirs; and the reply is the final slice.
\<close>

definition tests_inv :: "('j \<Rightarrow> 'r) \<Rightarrow> 'j multiset \<Rightarrow> ('j, 'r) tests \<Rightarrow> bool" where
  "tests_inv f J s \<longleftrightarrow>
     mset (tt_todo s) + image_mset fst (tt_goroutines s) = J \<and>
     tt_wg s = size (filter_mset (\<lambda>g. snd g \<noteq> Test_returned) (tt_goroutines s)) \<and>
     size (filter_mset (\<lambda>g. holds_lock (snd g)) (tt_goroutines s)) = (if tt_locked s then 1 else 0) \<and>
     (\<forall>j rs. (j, Appends rs) \<in># tt_goroutines s \<longrightarrow> rs = tt_results s) \<and>
     mset (tt_results s) = image_mset (\<lambda>g. f (fst g)) (filter_mset (\<lambda>g. has_stored (snd g)) (tt_goroutines s)) \<and>
     (\<forall>rs. tt_reply s = Some rs \<longrightarrow> tt_todo s = [] \<and> tt_wg s = 0 \<and> rs = tt_results s)"

lemma nobody_holds:
  "size (filter_mset (\<lambda>g. holds_lock (snd g)) R) = 0 \<Longrightarrow> (j, Appends rs) \<notin># R"
  by force

lemma tests_init_inv: "tests_inv f (mset jobs) (tests_init jobs)"
  by (simp add: tests_inv_def tests_init_def)

lemma tests_step_inv:
  assumes "tests_inv f J s" "tests_step f s s'"
  shows "tests_inv f J s'"
  using assms(2)
proof (cases rule: tests_step.cases)
  case (lock j R)
  then have "size (filter_mset (\<lambda>g. holds_lock (snd g)) R) = 0" using assms(1) by (simp add: tests_inv_def)
  then show ?thesis using assms(1) lock nobody_holds [of R] by (auto simp: tests_inv_def)
next
  case (append j rs R)
  then have l: "tt_locked s" "size (filter_mset (\<lambda>g. holds_lock (snd g)) R) = 0"
    using assms(1) by (simp_all add: tests_inv_def split: if_splits)
  have "rs = tt_results s" using assms(1) append by (simp add: tests_inv_def)
  then show ?thesis using assms(1) append l nobody_holds [of R] by (auto simp: tests_inv_def)
next
  case (unlock j R)
  then have "size (filter_mset (\<lambda>g. holds_lock (snd g)) R) = 0"
    using assms(1) by (simp add: tests_inv_def split: if_splits)
  then show ?thesis using assms(1) unlock by (auto simp: tests_inv_def)
qed (use assms(1) in \<open>auto simp: tests_inv_def\<close>)

lemma tests_run_inv: "tests_run f s s' \<Longrightarrow> tests_inv f J s \<Longrightarrow> tests_inv f J s'"
  unfolding tests_run_def by (induction rule: rtranclp_induct) (auto intro: tests_step_inv)

text \<open>No deadlock: until the reply there is always a step.\<close>

lemma tests_progress:
  assumes "tests_inv f J s" "tt_reply s = None"
  shows "\<exists>s'. tests_step f s s'"
proof (cases "tt_todo s")
  case (Cons j js)
  from tests_step.spawn [OF this] show ?thesis by (rule exI)
next
  case Nil
  show ?thesis
  proof (cases "\<exists>g \<in># tt_goroutines s. snd g \<noteq> Test_returned \<and> snd g \<noteq> Waits_lock")
    case True
    then obtain j p R where g: "tt_goroutines s = add_mset (j, p) R" "p \<noteq> Test_returned" "p \<noteq> Waits_lock"
      by (metis multi_member_split prod.collapse)
    then show ?thesis
      by (cases p) (blast intro: tests_step.asked tests_step.append tests_step.unlock tests_step.wg_done)+
  next
    case False
    then have f: "\<And>g. g \<in># tt_goroutines s \<Longrightarrow> snd g = Test_returned \<or> snd g = Waits_lock" by blast
    then have "size (filter_mset (\<lambda>g. holds_lock (snd g)) (tt_goroutines s)) = 0"
      by force
    then have free: "\<not> tt_locked s" using assms(1) unfolding tests_inv_def by presburger
    show ?thesis
    proof (cases "\<exists>g \<in># tt_goroutines s. snd g = Waits_lock")
      case True
      then obtain j R where "tt_goroutines s = add_mset (j, Waits_lock) R" by (metis multi_member_split prod.collapse)
      from tests_step.lock [OF this free] show ?thesis by (rule exI)
    next
      case False
      with f have "filter_mset (\<lambda>g. snd g \<noteq> Test_returned) (tt_goroutines s) = {#}"
        by auto
      then have "tt_wg s = 0" using assms(1) by (simp add: tests_inv_def)
      from tests_step.reply [OF Nil this assms(2)] show ?thesis by (rule exI)
    qed
  qed
qed

text \<open>At the reply every upstream has its result.\<close>

lemma tests_reply_results:
  assumes "tests_inv f J s" "tt_reply s = Some rs"
  shows "mset rs = image_mset f J"
proof -
  have "tt_todo s = [] \<and> tt_wg s = 0 \<and> rs = tt_results s" using assms unfolding tests_inv_def by blast
  then have a: "tt_todo s = []" "tt_wg s = 0" "rs = tt_results s" by blast+
  then have "size (filter_mset (\<lambda>g. snd g \<noteq> Test_returned) (tt_goroutines s)) = 0"
    using assms(1) unfolding tests_inv_def by presburger
  then have "\<And>g. g \<in># tt_goroutines s \<Longrightarrow> snd g = Test_returned" by force
  then have "filter_mset (\<lambda>g. has_stored (snd g)) (tt_goroutines s) = tt_goroutines s"
    by (simp add: filter_mset_eq_conv)
  then have "mset (tt_results s) = image_mset f (image_mset fst (tt_goroutines s))"
    using assms(1) by (simp add: tests_inv_def image_mset.compositionality o_def)
  with a assms(1) show ?thesis by (auto simp: tests_inv_def)
qed

section \<open>Every order is possible\<close>

lemma tests_run_refl [simp]: "tests_run f s s"
  by (simp add: tests_run_def)

lemma tests_run_step: "tests_run f s s' \<Longrightarrow> tests_step f s' s'' \<Longrightarrow> tests_run f s s''"
  unfolding tests_run_def by (rule rtranclp.rtrancl_into_rtrancl)

lemma tests_run_trans: "tests_run f s s' \<Longrightarrow> tests_run f s' s'' \<Longrightarrow> tests_run f s s''"
  unfolding tests_run_def by (rule rtranclp_trans)

text \<open>The state in which the jobs \<open>js\<close> wait for the mutex and the others have returned.\<close>

definition waiting_state :: "'j list \<Rightarrow> 'j list \<Rightarrow> 'j multiset \<Rightarrow> 'r list \<Rightarrow> ('j, 'r) tests" where
  "waiting_state todo js D rs = \<lparr>tt_todo = todo,
     tt_goroutines = image_mset (\<lambda>j. (j, Waits_lock)) (mset js) + image_mset (\<lambda>j. (j, Test_returned)) D,
     tt_results = rs, tt_locked = False, tt_wg = length js, tt_reply = None\<rparr>"

lemma run_spawns: "tests_run f (waiting_state todo js D rs) (waiting_state [] (rev todo @ js) D rs)"
proof (induction todo arbitrary: js)
  case (Cons j todo)
  let ?s = "waiting_state (j # todo) js D rs"
  let ?s1 = "?s\<lparr>tt_todo := todo, tt_wg := tt_wg ?s + 1, tt_goroutines := add_mset (j, Asking) (tt_goroutines ?s)\<rparr>"
  have "tests_run f ?s ?s1" by (rule tests_run_step [OF tests_run_refl tests_step.spawn]) (simp add: waiting_state_def)
  then have "tests_run f ?s (?s1\<lparr>tt_goroutines := add_mset (j, Waits_lock) (tt_goroutines ?s)\<rparr>)"
    by (rule tests_run_step [OF _ tests_step.asked]) simp
  moreover have "?s1\<lparr>tt_goroutines := add_mset (j, Waits_lock) (tt_goroutines ?s)\<rparr> = waiting_state todo (j # js) D rs"
    by (simp add: waiting_state_def)
  ultimately show ?case using Cons.IH [of "j # js"] tests_run_trans by fastforce
qed simp

text \<open>One goroutine takes the mutex, appends, and returns.\<close>

lemma run_appends:
  assumes "mset js = add_mset j (mset js')"
  shows "tests_run f (waiting_state [] js D rs) (waiting_state [] js' (add_mset j D) (rs @ [f j]))"
proof -
  let ?s = "waiting_state [] js D rs :: ('a, 'b) tests"
  let ?R = "image_mset (\<lambda>j. (j, Waits_lock)) (mset js') + image_mset (\<lambda>j. (j, Test_returned)) D :: ('a \<times> 'b test_phase) multiset"
  let ?s1 = "?s\<lparr>tt_goroutines := add_mset (j, Appends (tt_results ?s)) ?R, tt_locked := True\<rparr>"
  let ?s2 = "?s1\<lparr>tt_goroutines := add_mset (j, Has_appended) ?R, tt_results := rs @ [f j]\<rparr>"
  let ?s3 = "?s2\<lparr>tt_goroutines := add_mset (j, Unlocked) ?R, tt_locked := False\<rparr>"
  let ?s4 = "?s3\<lparr>tt_goroutines := add_mset (j, Test_returned) ?R, tt_wg := tt_wg ?s3 - 1\<rparr>"
  have len: "length js = Suc (length js')" using assms by (metis size_add_mset size_mset)
  have "tests_run f ?s ?s1"
    by (rule tests_run_step [OF tests_run_refl tests_step.lock]) (simp_all add: waiting_state_def assms)
  then have "tests_run f ?s ?s2"
    by (rule tests_run_step [OF _ tests_step.append]) (simp add: waiting_state_def)
  then have "tests_run f ?s ?s3" by (rule tests_run_step [OF _ tests_step.unlock]) simp
  then have "tests_run f ?s ?s4" by (rule tests_run_step [OF _ tests_step.wg_done]) simp
  moreover have "?s4 = waiting_state [] js' (add_mset j D) (rs @ [f j])"
    by (simp add: waiting_state_def len)
  ultimately show ?thesis by simp
qed

lemma run_all:
  "mset js = mset jobs \<Longrightarrow> \<exists>D. tests_run f (waiting_state [] jobs D0 rs) (waiting_state [] [] D (rs @ map f js))"
proof (induction js arbitrary: jobs D0 rs)
  case (Cons j js)
  from run_appends [of jobs j js f D0 rs] Cons.prems
  have "tests_run f (waiting_state [] jobs D0 rs) (waiting_state [] js (add_mset j D0) (rs @ [f j]))" by simp
  with Cons.IH [of js "add_mset j D0" "rs @ [f j]"] tests_run_trans show ?case by fastforce
next
  case Nil
  then show ?case by (intro exI [of _ D0]) simp
qed

lemma mset_eq_image:
  "mset rs = image_mset f M \<Longrightarrow> \<exists>js. mset js = M \<and> rs = map f js"
proof (induction rs arbitrary: M)
  case (Cons r rs)
  then have "image_mset f M = add_mset r (mset rs)" by simp
  from msed_map_invR [OF this] obtain j M' where j: "M = add_mset j M'" "f j = r" "image_mset f M' = mset rs" by blast
  with Cons.IH [of M'] obtain js where "mset js = M'" "rs = map f js" by auto
  with j show ?case by (intro exI [of _ "j # js"]) simp
qed simp

lemma run_tests_reached:
  "\<exists>s. tests_run f (tests_init jobs) s \<and> tt_reply s = Some (run_tests f jobs order)"
proof -
  have "mset (run_tests f jobs order) = image_mset f (mset jobs)" by (rule mset_run_tests)
  then obtain js where js: "mset js = mset jobs" "run_tests f jobs order = map f js"
    using mset_eq_image by metis
  have i: "tests_init jobs = waiting_state jobs [] {#} []" by (simp add: tests_init_def waiting_state_def)
  obtain D where "tests_run f (waiting_state [] (rev jobs) {#} []) (waiting_state [] [] D (map f js))"
    using run_all [of js "rev jobs" f "{#}" "[]"] js(1) by auto
  moreover have "tests_run f (tests_init jobs) (waiting_state [] (rev jobs) {#} [])"
    using run_spawns [of f jobs "[]"] by (simp add: i)
  ultimately have "tests_run f (tests_init jobs) (waiting_state [] [] D (map f js))" by (rule tests_run_trans [rotated])
  from tests_run_step [OF this tests_step.reply] show ?thesis
    by (intro exI [of _ "(waiting_state [] [] D (map f js))\<lparr>tt_reply := Some (map f js)\<rparr>"]) (simp add: waiting_state_def js(2))
qed

end
