(* ===== verification/Web.thy ===== *)
theory Web
  imports Sessions Web_Pages Upstream_Tests Auto_Update Servers
begin

text \<open>
  The HTTP interface for administration (\<open>internal/web/server.go\<close>): every handler of the mux as a
  function of the request and of the state behind it, which are the sessions, the service manager
  and the files. A reply is the value that is encoded as JSON, or the HTTP status of an error.
  Decoding JSON is a parameter.
\<close>

section \<open>Requests and replies\<close>

record web_request =
  wr_path :: string
  wr_method :: http_method
  wr_query :: "string \<Rightarrow> string"
  wr_cookie :: "string option"
  wr_body :: "string \<times> goerr option"
  wr_tls :: bool

abbreviation DELETE :: http_method where "DELETE \<equiv> OtherMethod ''DELETE''"

record test_result =
  tr_Address :: string
  tr_Protocol :: string
  tr_Group :: string
  tr_Status :: string
  tr_Latency :: "int option"
  tr_Error :: "goerr option"

record dashboard =
  ds_UptimeSeconds :: int
  ds_MemoryUsageMB :: rat
  ds_NumGoroutines :: int
  ds_QPS :: rat
  ds_TotalQueries :: int
  ds_TotalCN :: int
  ds_TotalOverseas :: int
  ds_ListenDNSUDP :: string
  ds_ListenDNSTCP :: string
  ds_ListenDOH :: string
  ds_ListenDOT :: string
  ds_ListenDOQ :: string
  ds_UpstreamCN :: int
  ds_UpstreamOverseas :: int
  ds_UpstreamStats :: "stats_view list"
  ds_TopClients :: "int gomap"
  ds_TopDomains :: "int gomap"

datatype web_reply =
    WError int
  | WDone
  | WSession session_reply
  | WStatus bool bool bool
  | WConfig config
  | WHosts hosts_page
  | WTests "test_result list"
  | WLogs "log_entry list" int int int
  | WStats dashboard
  | WFile string
  | WPanic

text \<open>The decoder of \<open>encoding/json\<close> for the type of each body: the bytes it can read and the error after them.\<close>

record json_api =
  js_creds :: "string \<times> goerr option \<Rightarrow> goerr + string \<times> string"
  js_config :: "string \<times> goerr option \<Rightarrow> goerr + config"
  js_hosts :: "string \<times> goerr option \<Rightarrow> goerr + (string \<times> string) list"
  js_domains :: "string \<times> goerr option \<Rightarrow> goerr + string list"

definition maxAPIBodySize :: nat where "maxAPIBodySize = 32 * 2 ^ 20"

text \<open>
  \<open>decodeJSONBody\<close>: both readers allow the same number of bytes and the inner one reports an
  error only beyond it, so a longer body just ends there.
\<close>

definition decodeJSONBody :: "(string \<times> goerr option \<Rightarrow> goerr + 'a) \<Rightarrow> string \<times> goerr option \<Rightarrow> goerr + 'a" where
  "decodeJSONBody decode body =
     decode (if length (fst body) < maxAPIBodySize then body else (take maxAPIBodySize (fst body), None))"

text \<open>What the outside answers while a request is handled.\<close>

record web_env =
  we_json :: json_api
  we_clk :: "int \<times> int"
  we_rand :: "goerr + string"
  we_cwd :: "goerr + string"
  we_configPath :: string
  we_faults :: "write_faults \<times> write_faults \<times> write_faults"
  we_yaml :: yaml_lib
  we_stop :: "stop_env \<times> stop_env"
  we_start :: "start_env \<times> start_env"
  we_remove :: bool
  we_jsonlog :: json_lib
  we_logfile :: "goerr + string"
  we_memory :: rat
  we_goroutines :: int
  we_connect :: "bootstrap_server list \<Rightarrow> client_kind \<Rightarrow> dns_client"
  we_dns :: dns_lib
  we_latency :: "upstream_server \<Rightarrow> int"
  we_order :: "nat list"

record web_state =
  wb_sessions :: sessions
  wb_manager :: manager
  wb_files :: files

text \<open>The configuration in force.\<close>

definition CurrentConfig :: "manager \<Rightarrow> config" where
  "CurrentConfig m = m_Config m"

definition check :: "web_env \<Rightarrow> web_request \<Rightarrow> web_state \<Rightarrow> bool \<times> web_state" where
  "check env rq st =
     (case checkAuth (CurrentConfig (wb_manager st)) (wr_cookie rq) (we_clk env) (wb_sessions st) of
        (ok, ss) \<Rightarrow> (ok, st\<lparr>wb_sessions := ss\<rparr>))"

section \<open>Authentication\<close>

definition auth_status :: "web_env \<Rightarrow> web_request \<Rightarrow> web_state \<Rightarrow> web_state \<times> web_reply" where
  "auth_status env rq st =
     (let c = CurrentConfig (wb_manager st);
          enabled = (wu_Username (cf_WebUI c) \<noteq> [] \<and> wu_Password (cf_WebUI c) \<noteq> [])
      in case check env rq st of (ok, st') \<Rightarrow> (st', WStatus enabled ok (wu_GuestMode (cf_WebUI c))))"

definition api_login :: "web_env \<Rightarrow> web_request \<Rightarrow> web_state \<Rightarrow> web_state \<times> web_reply" where
  "api_login env rq st =
     (case handle_login (CurrentConfig (wb_manager st)) (wr_method rq = POST) (wr_tls rq)
             (decodeJSONBody (js_creds (we_json env)) (wr_body rq)) (we_rand env) (we_clk env) (wb_sessions st) of
        (ss, reply) \<Rightarrow> (st\<lparr>wb_sessions := ss\<rparr>, WSession reply))"

definition api_logout :: "web_env \<Rightarrow> web_request \<Rightarrow> web_state \<Rightarrow> web_state \<times> web_reply" where
  "api_logout env rq st =
     (case handle_logout (wr_tls rq) (wr_cookie rq) (wb_sessions st) of
        (ss, reply) \<Rightarrow> (st\<lparr>wb_sessions := ss\<rparr>, WSession reply))"

section \<open>Configuration and hosts\<close>

text \<open>Save the new configuration, then load it into the service; each failure is a status 500.\<close>

definition save_and_reload :: "web_env \<Rightarrow> config \<Rightarrow> web_state \<Rightarrow> web_state \<times> web_reply" where
  "save_and_reload env newCfg st =
     (case Save (we_yaml env) (we_cwd env) (we_faults env) (we_configPath env) newCfg (wb_files st) of
        (c, states, Some e) \<Rightarrow> (st\<lparr>wb_files := last states\<rparr>, WError 500)
      | (c, states, None) \<Rightarrow>
          (case Reload (fst (we_stop env)) (fst (we_start env)) (snd (we_stop env)) (snd (we_start env)) c (wb_manager st) of
             (gone, m, err) \<Rightarrow>
               (st\<lparr>wb_manager := m,
                   wb_files := (case gone of
                      Some p \<Rightarrow> if we_remove env then (last states)(p := None) else last states
                    | None \<Rightarrow> last states)\<rparr>,
                if err = None then WDone else WError 500)))"

definition masked :: string where "masked = ''******''"

definition masked_config :: "config \<Rightarrow> config" where
  "masked_config c = c\<lparr>cf_WebUI := (cf_WebUI c)\<lparr>wu_Password := masked\<rparr>, cf_Hosts := []\<rparr>"

text \<open>The configuration that a decoded body asks for, beside the current one.\<close>

definition posted_config :: "config \<Rightarrow> config \<Rightarrow> config" where
  "posted_config currentCfg newCfg =
     (newCfg\<lparr>cf_WebUI := (if wu_Password (cf_WebUI newCfg) = masked
                           then (cf_WebUI newCfg)\<lparr>wu_Password := wu_Password (cf_WebUI currentCfg)\<rparr>
                           else cf_WebUI newCfg),
             cf_Hosts := cf_Hosts currentCfg\<rparr>)"

definition api_config :: "web_env \<Rightarrow> web_request \<Rightarrow> web_state \<Rightarrow> web_state \<times> web_reply" where
  "api_config env rq st =
     (let currentCfg = CurrentConfig (wb_manager st) in
      case wr_method rq of
        GET \<Rightarrow>
          (case (if wu_GuestMode (cf_WebUI currentCfg) then (True, st) else check env rq st) of
             (ok, st') \<Rightarrow> if \<not> ok then (st', WError 401) else (st', WConfig (masked_config currentCfg)))
      | POST \<Rightarrow>
          (case check env rq st of
             (ok, st') \<Rightarrow>
               if \<not> ok then (st', WError 401)
               else (case decodeJSONBody (js_config (we_json env)) (wr_body rq) of
                 Inl e \<Rightarrow> (st', WError 400)
               | Inr newCfg \<Rightarrow> save_and_reload env (posted_config currentCfg newCfg) st'))
      | OtherMethod _ \<Rightarrow> (st, WError 405))"

definition add_hosts :: "(string \<times> string) list \<Rightarrow> string gomap \<Rightarrow> string gomap" where
  "add_hosts payload hosts = fold (\<lambda>(domain, ip) m. AList.update (strings_ToLower domain) ip m) payload hosts"

definition delete_hosts :: "string list \<Rightarrow> string gomap \<Rightarrow> string gomap" where
  "delete_hosts domains hosts = fold (\<lambda>d m. AList.delete (strings_ToLower d) m) domains hosts"

definition api_hosts :: "web_env \<Rightarrow> web_request \<Rightarrow> web_state \<Rightarrow> web_state \<times> web_reply" where
  "api_hosts env rq st =
     (let currentCfg = CurrentConfig (wb_manager st) in
      case check env rq st of
        (ok, st') \<Rightarrow>
          if \<not> ok \<and> (\<not> wu_GuestMode (cf_WebUI currentCfg) \<or> wr_method rq \<noteq> GET) then (st', WError 401)
          else if wr_method rq = GET
          then (case list_hosts (cf_Hosts currentCfg) (wr_query rq ''q'') (wr_query rq ''page'') (wr_query rq ''limit'') of
                  None \<Rightarrow> (st', WPanic)
                | Some page \<Rightarrow> (st', WHosts page))
          else if wr_method rq = POST
          then (case decodeJSONBody (js_hosts (we_json env)) (wr_body rq) of
                  Inl e \<Rightarrow> (st', WError 400)
                | Inr payload \<Rightarrow>
                    save_and_reload env (currentCfg\<lparr>cf_Hosts := add_hosts payload (cf_Hosts currentCfg)\<rparr>) st')
          else if wr_method rq = DELETE
          then (case decodeJSONBody (js_domains (we_json env)) (wr_body rq) of
                  Inl e \<Rightarrow> (st', WError 400)
                | Inr domains \<Rightarrow>
                    save_and_reload env (currentCfg\<lparr>cf_Hosts := delete_hosts domains (cf_Hosts currentCfg)\<rparr>) st')
          else (st', WError 405))"

section \<open>Testing the upstreams\<close>

type_synonym test_job = "upstream_server \<times> string \<times> string"

definition testServer ::
  "dns_lib \<Rightarrow> (bootstrap_server list \<Rightarrow> client_kind \<Rightarrow> dns_client) \<Rightarrow> (upstream_server \<Rightarrow> int)
     \<Rightarrow> bootstrap_server list \<Rightarrow> test_job \<Rightarrow> test_result" where
  "testServer L connect latency bootstrapper job =
     (case job of (srv, grp, target) \<Rightarrow>
        (let res = \<lparr>tr_Address = us_Address srv, tr_Protocol = us_Protocol srv, tr_Group = grp,
                    tr_Status = [], tr_Latency = None, tr_Error = None\<rparr>
         in case NewDNSClient srv of
              Inl e \<Rightarrow> res\<lparr>tr_Status := ''Error'', tr_Error := Some e\<rparr>
            | Inr c \<Rightarrow>
                (let req = lib_SetQuestion L (lib_Fqdn L target) TypeA;
                     res' = res\<lparr>tr_Latency := Some (latency srv)\<rparr>
                 in case connect bootstrapper c req of
                      (_, Some e) \<Rightarrow> res'\<lparr>tr_Status := ''Fail'', tr_Error := Some e\<rparr>
                    | (_, None) \<Rightarrow> res'\<lparr>tr_Status := ''OK''\<rparr>)))"

definition test_jobs :: "config \<Rightarrow> test_job list" where
  "test_jobs cfg =
     map (\<lambda>s. (s, ''CN'', ''www.baidu.com'')) (uc_CN (cf_Upstreams cfg))
     @ map (\<lambda>s. (s, ''Overseas'', ''www.google.com'')) (uc_Overseas (cf_Upstreams cfg))"

text \<open>
  The handler. Its goroutines, their mutex and the wait group are in Upstream_Tests, where every
  possible reply is shown to be \<open>run_tests\<close> for the order in which they take the mutex.
\<close>

definition api_test_upstreams :: "web_env \<Rightarrow> web_request \<Rightarrow> web_state \<Rightarrow> web_state \<times> web_reply" where
  "api_test_upstreams env rq st =
     (if wr_method rq \<noteq> POST then (st, WError 405)
      else (case check env rq st of
        (ok, st') \<Rightarrow>
          if \<not> ok then (st', WError 401)
          else (case decodeJSONBody (js_config (we_json env)) (wr_body rq) of
            Inl e \<Rightarrow> (st', WError 400)
          | Inr tempCfg \<Rightarrow>
              (let bootstrapper = NewBootstrapper_servers (cf_BootstrapDNS tempCfg) in
               (st', WTests (run_tests (testServer (we_dns env) (we_connect env) (we_latency env) bootstrapper)
                              (test_jobs tempCfg) (we_order env)))))))"

section \<open>Logs and statistics\<close>

text \<open>\<open>GetLogs\<close> of a nil logger is empty; \<open>None\<close> is a panic.\<close>

definition logger_GetLogs ::
  "web_env \<Rightarrow> int \<Rightarrow> int \<Rightarrow> string \<Rightarrow> query_logger option \<Rightarrow> (log_entry list \<times> int) option" where
  "logger_GetLogs env offset limit search lo =
     (case lo of None \<Rightarrow> Some ([], 0) | Some l \<Rightarrow> GetLogs (we_jsonlog env) (we_logfile env) offset limit search l)"

definition logger_GetStats :: "int \<Rightarrow> query_logger option \<Rightarrow> log_stats" where
  "logger_GetStats now lo =
     (case lo of
        None \<Rightarrow> \<lparr>StartTime = now, TotalQueries = 0, TotalCN = 0, TotalOverseas = 0, QPS = 0,
                 TopClients = [], TopDomains = []\<rparr>
      | Some l \<Rightarrow> GetStats_mem now l)"

definition api_logs :: "web_env \<Rightarrow> web_request \<Rightarrow> web_state \<Rightarrow> web_state \<times> web_reply" where
  "api_logs env rq st =
     (if wr_method rq \<noteq> GET then (st, WError 405)
      else (case Snapshot (wb_manager st) of
        (currentCfg, _, queryLog) \<Rightarrow>
          (case (if wu_GuestMode (cf_WebUI currentCfg) then (True, st) else check env rq st) of
             (ok, st') \<Rightarrow>
               if \<not> ok then (st', WError 401)
               else
                 (let limit = 15;
                      page0 = query_number (wr_query rq ''page'') 1;
                      page = (if page0 < 1 then 1 else page0);
                      offset0 = i64 (i64 (page - 1) * limit);
                      offset = (if offset0 < 0 then 0 else offset0);
                      query = (if wr_query rq ''q'' = [] then wr_query rq ''ip'' else wr_query rq ''q'')
                  in case logger_GetLogs env offset limit query queryLog of
                       None \<Rightarrow> (st', WPanic)
                     | Some (found, tot) \<Rightarrow> (st', WLogs found tot page limit)))))"

definition api_stats :: "web_env \<Rightarrow> web_request \<Rightarrow> web_state \<Rightarrow> web_state \<times> web_reply" where
  "api_stats env rq st =
     (if wr_method rq \<noteq> GET then (st, WError 405)
      else (case Snapshot (wb_manager st) of
        (currentCfg, rt, queryLog) \<Rightarrow>
          (case (if wu_GuestMode (cf_WebUI currentCfg) then (True, st) else check env rq st) of
             (ok, st') \<Rightarrow>
               if \<not> ok then (st', WError 401)
               else
                 (let now = snd (we_clk env);
                      s = logger_GetStats now queryLog;
                      l = cf_Listen currentCfg
                  in (st', WStats \<lparr>ds_UptimeSeconds = quot (now - StartTime s) 1000000000,
                        ds_MemoryUsageMB = we_memory env / 1024 / 1024, ds_NumGoroutines = we_goroutines env,
                        ds_QPS = QPS s, ds_TotalQueries = TotalQueries s, ds_TotalCN = TotalCN s,
                        ds_TotalOverseas = TotalOverseas s, ds_ListenDNSUDP = DNSUDPAddr l,
                        ds_ListenDNSTCP = DNSTCPAddr l, ds_ListenDOH = DOHAddr l, ds_ListenDOT = DOTAddr l,
                        ds_ListenDOQ = DOQAddr l, ds_UpstreamCN = int (length (uc_CN (cf_Upstreams currentCfg))),
                        ds_UpstreamOverseas = int (length (uc_Overseas (cf_Upstreams currentCfg))),
                        ds_UpstreamStats = GetUpstreamStats rt,
                        ds_TopClients = limitCountMap (TopClients s) topStatsLimit,
                        ds_TopDomains = limitCountMap (TopDomains s) topStatsLimit\<rparr>)))))"

section \<open>The server\<close>

text \<open>
  The mux: the paths of the interface have no trailing slash and match exactly; everything else is
  served from the embedded files.
\<close>

definition handle_web :: "web_env \<Rightarrow> web_request \<Rightarrow> web_state \<Rightarrow> web_state \<times> web_reply" where
  "handle_web env rq st =
     (if wr_path rq = ''/api/auth/status'' then auth_status env rq st
      else if wr_path rq = ''/api/login'' then api_login env rq st
      else if wr_path rq = ''/api/logout'' then api_logout env rq st
      else if wr_path rq = ''/api/config'' then api_config env rq st
      else if wr_path rq = ''/api/hosts'' then api_hosts env rq st
      else if wr_path rq = ''/api/test-upstreams'' then api_test_upstreams env rq st
      else if wr_path rq = ''/api/logs'' then api_logs env rq st
      else if wr_path rq = ''/api/stats'' then api_stats env rq st
      else (st, WFile (wr_path rq)))"

text \<open>The address to serve on; none if the interface is disabled.\<close>

definition web_address :: "webui_config \<Rightarrow> string option" where
  "web_address w =
     (if \<not> wu_Enabled w then None else Some (if wu_Address w = [] then '':8080'' else wu_Address w))"

text \<open>How \<open>StartWebServer\<close> serves: not at all, with the given certificate, with autocert, or plain HTTP.\<close>

datatype web_listener = NoWeb | ManualTLS string string string | AutoTLS string | PlainHTTP string

definition StartWebServer :: "manager \<Rightarrow> bool \<Rightarrow> web_listener" where
  "StartWebServer mgr assets_ok =
     (let cfg = CurrentConfig mgr;
          w = cf_WebUI cfg
      in case web_address w of
           None \<Rightarrow> NoWeb
         | Some addr \<Rightarrow>
             if \<not> assets_ok then NoWeb
             else if wu_CertFile w \<noteq> [] \<and> wu_KeyFile w \<noteq> [] then ManualTLS addr (wu_CertFile w) (wu_KeyFile w)
             else if ac_Enabled (cf_AutoCert cfg) \<and> m_CertManager mgr \<noteq> None then AutoTLS addr
             else PlainHTTP addr)"

section \<open>Lemmas\<close>

lemma check_result:
  assumes "check env rq st = (ok, st')"
  shows "wb_manager st' = wb_manager st" "wb_files st' = wb_files st"
    "ok = fst (checkAuth (CurrentConfig (wb_manager st)) (wr_cookie rq) (we_clk env) (wb_sessions st))"
  using assms by (auto simp: check_def split: prod.splits)

text \<open>What anybody may see: errors, replies about the own session, and the files of the interface.\<close>

fun public_reply :: "web_reply \<Rightarrow> bool" where
  "public_reply (WError code) = True"
| "public_reply (WSession r) = True"
| "public_reply (WStatus en ok guest) = (\<not> ok)"
| "public_reply (WFile path) = True"
| "public_reply _ = False"

text \<open>What a guest may see as well.\<close>

fun guest_reply :: "web_reply \<Rightarrow> bool" where
  "guest_reply (WConfig c) = (wu_Password (cf_WebUI c) = masked)"
| "guest_reply (WHosts page) = True"
| "guest_reply (WLogs found tot page limit) = True"
| "guest_reply (WStats s) = True"
| "guest_reply r = public_reply r"

lemma public_guest: "public_reply r \<Longrightarrow> guest_reply r"
  by (cases r) simp_all

text \<open>A request without a live session: no handler changes the service or the files.\<close>

definition refused :: "web_env \<Rightarrow> web_request \<Rightarrow> web_state \<Rightarrow> bool" where
  "refused env rq st \<longleftrightarrow>
     \<not> fst (checkAuth (CurrentConfig (wb_manager st)) (wr_cookie rq) (we_clk env) (wb_sessions st))"

definition harmless :: "web_state \<Rightarrow> web_state \<times> web_reply \<Rightarrow> bool" where
  "harmless st r \<longleftrightarrow> wb_manager (fst r) = wb_manager st \<and> wb_files (fst r) = wb_files st
     \<and> (if wu_GuestMode (cf_WebUI (CurrentConfig (wb_manager st))) then guest_reply (snd r) else public_reply (snd r))"

lemma harmless_check:
  "refused env rq st \<Longrightarrow> check env rq st = (ok, st') \<Longrightarrow> \<not> ok \<and> wb_manager st' = wb_manager st \<and> wb_files st' = wb_files st"
  using check_result [of env rq st ok st'] by (auto simp: refused_def)

text \<open>Reading the log with the page size of the interface does not panic.\<close>

lemma GetLogs_no_panic: "0 \<le> offset \<Longrightarrow> 0 \<le> limit \<Longrightarrow> GetLogs J file offset limit search l \<noteq> None"
  by (auto simp: GetLogs_def GetLogs_mem_def Let_def split: sum.split)

lemma logger_GetLogs_no_panic: "0 \<le> offset \<Longrightarrow> 0 \<le> limit \<Longrightarrow> \<exists>r. logger_GetLogs env offset limit search lo = Some r"
  using GetLogs_no_panic by (auto simp: logger_GetLogs_def split: option.split)

lemma api_logs_cases:
  assumes "check env rq st = (ok, st')"
  shows "api_logs env rq st = (st, WError 405) \<or> api_logs env rq st = (st', WError 401)
    \<or> (\<exists>found tot page. (wu_GuestMode (cf_WebUI (CurrentConfig (wb_manager st))) \<and> api_logs env rq st = (st, WLogs found tot page 15))
         \<or> (ok \<and> api_logs env rq st = (st', WLogs found tot page 15)))"
proof -
  define page where "page = (if query_number (wr_query rq ''page'') 1 < 1 then 1 else query_number (wr_query rq ''page'') 1)"
  define offset where "offset = (if i64 (i64 (page - 1) * 15) < 0 then 0 else i64 (i64 (page - 1) * 15))"
  define query where "query = (if wr_query rq ''q'' = [] then wr_query rq ''ip'' else wr_query rq ''q'')"
  have "0 \<le> offset" by (simp add: offset_def)
  then obtain found tot where l: "logger_GetLogs env offset 15 query (m_QueryLog (wb_manager st)) = Some (found, tot)"
    using logger_GetLogs_no_panic [of offset 15 env query "m_QueryLog (wb_manager st)"] by auto
  show ?thesis
    unfolding api_logs_def Let_def Snapshot_def CurrentConfig_def prod.case page_def [symmetric] offset_def [symmetric]
      query_def [symmetric] l option.case assms by (simp add: CurrentConfig_def) blast
qed

lemma refused_handlers:
  assumes "refused env rq st"
  shows "harmless st (auth_status env rq st)" "harmless st (api_login env rq st)" "harmless st (api_logout env rq st)"
    "harmless st (api_config env rq st)" "harmless st (api_hosts env rq st)" "harmless st (api_test_upstreams env rq st)"
    "harmless st (api_logs env rq st)" "harmless st (api_stats env rq st)"
proof -
  obtain ok st' where c: "check env rq st = (ok, st')" by fastforce
  from harmless_check [OF assms c] have h: "\<not> ok" "wb_manager st' = wb_manager st" "wb_files st' = wb_files st" by simp_all
  show "harmless st (auth_status env rq st)" using h by (simp add: harmless_def auth_status_def c Let_def)
  show "harmless st (api_login env rq st)" by (simp add: harmless_def api_login_def split: prod.split)
  show "harmless st (api_logout env rq st)" by (simp add: harmless_def api_logout_def split: prod.split)
  show "harmless st (api_config env rq st)" using h
    by (simp add: harmless_def api_config_def c Let_def masked_config_def split: http_method.split)
  show "harmless st (api_hosts env rq st)"
    using h list_hosts_total [of "cf_Hosts (CurrentConfig (wb_manager st))" "wr_query rq ''q''" "wr_query rq ''page''" "wr_query rq ''limit''"]
    by (auto simp add: harmless_def api_hosts_def c Let_def)
  show "harmless st (api_test_upstreams env rq st)" using h by (simp add: harmless_def api_test_upstreams_def c)
  show "harmless st (api_logs env rq st)"
    using api_logs_cases [OF c] h by (elim disjE exE conjE) (simp_all add: harmless_def)
  show "harmless st (api_stats env rq st)"
    using h by (simp add: harmless_def api_stats_def c Let_def Snapshot_def CurrentConfig_def)
qed

lemma refused_harmless: "refused env rq st \<Longrightarrow> harmless st (handle_web env rq st)"
  by (simp add: handle_web_def refused_handlers) (simp add: harmless_def)

lemma public_not_panic: "public_reply r \<Longrightarrow> r \<noteq> WPanic" "guest_reply r \<Longrightarrow> r \<noteq> WPanic"
  by auto

lemma save_and_reload_no_panic: "snd (save_and_reload env c st) \<noteq> WPanic"
  by (simp add: save_and_reload_def split: prod.split option.split)

lemma handlers_no_panic:
  "snd (auth_status env rq st) \<noteq> WPanic" "snd (api_login env rq st) \<noteq> WPanic" "snd (api_logout env rq st) \<noteq> WPanic"
  "snd (api_config env rq st) \<noteq> WPanic" "snd (api_hosts env rq st) \<noteq> WPanic" "snd (api_test_upstreams env rq st) \<noteq> WPanic"
  "snd (api_logs env rq st) \<noteq> WPanic" "snd (api_stats env rq st) \<noteq> WPanic"
proof -
  obtain ok st' where c: "check env rq st = (ok, st')" by fastforce
  show "snd (auth_status env rq st) \<noteq> WPanic" by (simp add: auth_status_def c Let_def)
  show "snd (api_login env rq st) \<noteq> WPanic" by (simp add: api_login_def split: prod.split)
  show "snd (api_logout env rq st) \<noteq> WPanic" by (simp add: api_logout_def split: prod.split)
  show "snd (api_config env rq st) \<noteq> WPanic"
    by (simp add: api_config_def c Let_def save_and_reload_no_panic split: http_method.split sum.split)
  show "snd (api_hosts env rq st) \<noteq> WPanic"
    using list_hosts_total [of "cf_Hosts (CurrentConfig (wb_manager st))" "wr_query rq ''q''" "wr_query rq ''page''" "wr_query rq ''limit''"]
    by (auto simp: api_hosts_def c Let_def save_and_reload_no_panic split: sum.split)
  show "snd (api_test_upstreams env rq st) \<noteq> WPanic" by (simp add: api_test_upstreams_def c Let_def split: sum.split)
  show "snd (api_logs env rq st) \<noteq> WPanic" using api_logs_cases [OF c] by (elim disjE exE conjE) simp_all
  show "snd (api_stats env rq st) \<noteq> WPanic" by (simp add: api_stats_def c Let_def Snapshot_def)
qed

subsection \<open>What a successful change of the configuration does\<close>

lemma Save_config:
  "Save Y cwd faults p c fs = (c', states, None) \<Longrightarrow>
     \<exists>dir. c' = c\<lparr>cf_ConfigDir := dir, cf_Listen := normalizeListenConfig (cf_Listen c)\<rparr>"
  by (auto simp: Save_def Let_def split: sum.splits prod.splits option.splits)

lemma startInternal_router:
  assumes "startInternal env m = (m', None)"
  shows "\<exists>geo. m_Router m' = Some (NewRouter (se_regexp env) (se_connect env) (m_Config m) geo)"
proof -
  have "rest (start_servers env m3) = rest m3" for m3 unfolding start_servers_def Let_def by (simp add: start_rests)
  then have "m_Router (start_servers env m3) = m_Router m3" for m3 by (simp add: rest_def)
  with assms show ?thesis by (auto simp: startInternal_def Let_def split: prod.splits option.splits)
qed

lemma Reload_router:
  assumes "Reload so1 se1 so2 se2 newCfg m = (gone, m', None)"
  shows "\<exists>geo. m_Router m' = Some (NewRouter (se_regexp se1) (se_connect se1) newCfg geo)"
proof -
  obtain m2 where "startInternal se1 m2 = (m', None)" "m_Config m2 = newCfg"
    using assms by (auto simp: Reload_def Let_def split: prod.splits option.splits if_splits)
  from startInternal_router [OF this(1)] this(2) show ?thesis by simp
qed

definition changed_to :: "web_env \<Rightarrow> config \<Rightarrow> manager \<Rightarrow> bool" where
  "changed_to env newCfg m \<longleftrightarrow> (\<exists>dir geo.
     let c = newCfg\<lparr>cf_ConfigDir := dir, cf_Listen := normalizeListenConfig (cf_Listen newCfg)\<rparr>;
         se = fst (we_start env)
     in serving se c m \<and> m_Router m = Some (NewRouter (se_regexp se) (se_connect se) c geo))"

lemma save_and_reload_done:
  assumes "manager_inv (wb_manager st)"
    and "save_and_reload env newCfg st = (st', WDone)"
  shows "changed_to env newCfg (wb_manager st')"
proof -
  obtain c states where s: "Save (we_yaml env) (we_cwd env) (we_faults env) (we_configPath env) newCfg (wb_files st) = (c, states, None)"
    using assms(2) by (auto simp: save_and_reload_def split: prod.splits option.splits)
  obtain gone m err where r: "Reload (fst (we_stop env)) (fst (we_start env)) (snd (we_stop env)) (snd (we_start env)) c (wb_manager st)
      = (gone, m, err)" by (rule prod_cases3)
  from assms(2) have "err = None" "wb_manager st' = m" by (auto simp: save_and_reload_def s r split: if_splits)
  with Reload_outcome(3) [OF assms(1) r] Reload_router r have "serving (fst (we_start env)) c (wb_manager st')"
    "\<exists>geo. m_Router (wb_manager st') = Some (NewRouter (se_regexp (fst (we_start env))) (se_connect (fst (we_start env))) c geo)"
    by simp_all
  with Save_config [OF s] show ?thesis unfolding changed_to_def Let_def by blast
qed

lemma map_of_add_hosts:
  "map_of (add_hosts payload hosts) k =
     (case map_of (rev (map (\<lambda>(d, ip). (strings_ToLower d, ip)) payload)) k of Some ip \<Rightarrow> Some ip | None \<Rightarrow> map_of hosts k)"
  by (induction payload arbitrary: hosts) (auto simp: add_hosts_def map_of_update map_add_def split: option.splits)

lemma map_of_delete_hosts:
  "map_of (delete_hosts ds hosts) k = (if k \<in> strings_ToLower ` set ds then None else map_of hosts k)"
  by (induction ds arbitrary: hosts) (auto simp: delete_hosts_def map_of_delete)

lemma posted_masked: "posted_config c ((masked_config c)\<lparr>cf_ConfigDir := d\<rparr>) = c\<lparr>cf_ConfigDir := d\<rparr>"
  by (simp add: posted_config_def masked_config_def)

lemma posted_hosts_changed:
  assumes "wr_path rq = ''/api/hosts''" "wr_method rq = POST"
    and "decodeJSONBody (js_hosts (we_json env)) (wr_body rq) = Inr payload"
    and "manager_inv (wb_manager st)"
    and "handle_web env rq st = (st', WDone)"
  shows "changed_to env ((m_Config (wb_manager st))\<lparr>cf_Hosts := add_hosts payload (cf_Hosts (m_Config (wb_manager st)))\<rparr>) (wb_manager st')"
proof -
  obtain ok st1 where c: "check env rq st = (ok, st1)" by fastforce
  have "save_and_reload env ((m_Config (wb_manager st))\<lparr>cf_Hosts := add_hosts payload (cf_Hosts (m_Config (wb_manager st)))\<rparr>) st1 = (st', WDone)"
    using assms(1-3,5) c by (simp add: handle_web_def api_hosts_def Let_def CurrentConfig_def split: if_splits)
  from save_and_reload_done [OF _ this] assms(4) check_result(1) [OF c] show ?thesis by simp
qed

lemma save_and_reload_succeeds:
  assumes "manager_inv (wb_manager st)"
    and "Save (we_yaml env) (we_cwd env) (we_faults env) (we_configPath env) newCfg (wb_files st) = (c, states, None)"
    and "geo_loads (fst (we_start env)) (cf_GeoData newCfg)"
  shows "snd (save_and_reload env newCfg st) = WDone"
proof -
  obtain gone m err where r: "Reload (fst (we_stop env)) (fst (we_start env)) (snd (we_stop env)) (snd (we_start env)) c (wb_manager st)
      = (gone, m, err)" by (rule prod_cases3)
  have "cf_GeoData c = cf_GeoData newCfg" using Save_config [OF assms(2)] by auto
  with Reload_outcome(5) [OF assms(1) r] assms(3) have "err = None" by simp
  then show ?thesis by (simp add: save_and_reload_def assms(2) r)
qed

subsection \<open>Tests of the upstreams\<close>

lemma testServer_address [simp]: "tr_Address (testServer L connect latency bs (srv, grp, target)) = us_Address srv"
  by (simp add: testServer_def Let_def split: sum.split prod.split option.split)

lemma test_jobs_addresses:
  "map tr_Address (map (testServer L connect latency bs) (test_jobs cfg))
     = map us_Address (uc_CN (cf_Upstreams cfg) @ uc_Overseas (cf_Upstreams cfg))"
  by (simp add: test_jobs_def)

text \<open>In guest mode the pages that a guest sees are not refused.\<close>

lemma guest_pages:
  assumes "wu_GuestMode (cf_WebUI (m_Config (wb_manager st)))" "wr_method rq = GET"
    and "wr_path rq \<in> {''/api/config'', ''/api/hosts'', ''/api/logs'', ''/api/stats''}"
  shows "snd (handle_web env rq st) \<noteq> WError 401"
proof -
  obtain ok st' where c: "check env rq st = (ok, st')" by fastforce
  note m = c assms(1,2) CurrentConfig_def Let_def
  have "snd (api_config env rq st) \<noteq> WError 401" by (simp add: api_config_def m)
  moreover have "snd (api_hosts env rq st) \<noteq> WError 401"
    using list_hosts_total [of "cf_Hosts (CurrentConfig (wb_manager st))" "wr_query rq ''q''" "wr_query rq ''page''" "wr_query rq ''limit''"]
    by (auto simp add: api_hosts_def m)
  moreover have "snd (api_logs env rq st) \<noteq> WError 401"
    by (simp add: api_logs_def Snapshot_def m split: option.split)
  moreover have "snd (api_stats env rq st) \<noteq> WError 401"
    by (simp add: api_stats_def Snapshot_def m)
  ultimately show ?thesis using assms(3) by (auto simp: handle_web_def)
qed

text \<open>With guest mode off, a request without a session sees public replies only.\<close>

lemma no_guest_public:
  "refused env rq st \<Longrightarrow> \<not> wu_GuestMode (cf_WebUI (CurrentConfig (wb_manager st))) \<Longrightarrow> public_reply (snd (handle_web env rq st))"
  using refused_harmless [of env rq st] by (simp add: harmless_def)

section \<open>Properties\<close>

text \<open>
  C17: A request that does not pass the session check changes neither the service nor any file,
  whatever its path, method and body, and it learns no more than the read-only guest view: errors,
  the state of the login, the static files, the configuration without its password, the hosts, the
  logs and the statistics. When guest mode is on, that view is not refused.
\<close>

theorem web_needs_session:
  assumes "\<not> fst (checkAuth (m_Config (wb_manager st)) (wr_cookie rq) (we_clk env) (wb_sessions st))"
    and "handle_web env rq st = (st', reply)"
  shows "wb_manager st' = wb_manager st \<and> wb_files st' = wb_files st \<and> guest_reply reply
    \<and> (wu_GuestMode (cf_WebUI (m_Config (wb_manager st))) \<and> wr_method rq = GET
         \<and> wr_path rq \<in> {''/api/config'', ''/api/hosts'', ''/api/logs'', ''/api/stats''} \<longrightarrow> reply \<noteq> WError 401)"
proof -
  have "harmless st (st', reply)"
    using refused_harmless [of env rq st] assms by (simp add: refused_def CurrentConfig_def)
  then have "wb_manager st' = wb_manager st \<and> wb_files st' = wb_files st \<and> guest_reply reply"
    unfolding harmless_def fst_conv snd_conv by (auto dest: public_guest split: if_splits)
  with guest_pages [of st rq env] assms(2) show ?thesis by auto
qed

text \<open>
  C19: A host that is posted to the web interface is served: if the reply is a success, the running
  router answers the address queries for its name, written in any case, with the posted address,
  the last one posted for that name, and all other entries are as before.
\<close>

theorem posted_host_is_served:
  assumes "wr_path rq = ''/api/hosts''" "wr_method rq = POST"
    and "decodeJSONBody (js_hosts (we_json env)) (wr_body rq) = Inr payload"
    and "manager_inv (wb_manager st)"
    and "handle_web env rq st = (st', WDone)"
    and "map_of (rev (map (\<lambda>(d, ip). (strings_ToLower d, ip)) payload)) (route_name req) = Some ipStr"
    and "net_ParseIP ipStr = Some addr"
    and "reply_documented L" "Question req = [q]" "q_Qtype q = (if ip_To4 addr \<noteq> None then TypeA else TypeAAAA)"
  shows "\<exists>r. m_Router (wb_manager st') = Some r
    \<and> (\<exists>m hdr. routeInternal L r s req = (Some m, ''Hosts'', None) \<and> Id m = Id req \<and> hdr_Name hdr = q_Name q
         \<and> Answer m = [case ip_To4 addr of Some v4 \<Rightarrow> RR_A hdr (Some v4) | None \<Rightarrow> RR_AAAA hdr (Some addr)])
    \<and> (\<forall>k. k \<notin> strings_ToLower ` fst ` set payload \<longrightarrow>
         map_of (cf_Hosts (rt_config r)) k = map_of (cf_Hosts (m_Config (wb_manager st))) k)"
proof -
  let ?hosts = "add_hosts payload (cf_Hosts (m_Config (wb_manager st)))"
  from posted_hosts_changed [OF assms(1-5)]
  obtain r where r: "m_Router (wb_manager st') = Some r" "cf_Hosts (rt_config r) = ?hosts"
    by (auto simp: changed_to_def Let_def NewRouter_def)
  have "map_of (cf_Hosts (rt_config r)) (route_name req) = Some ipStr"
    using assms(6) by (simp add: r(2) map_of_add_hosts)
  note h = hosts_answer_locally [OF assms(8,9) this assms(7), of s]
  have "TypeA \<noteq> TypeAAAA" by (simp add: dns_consts)
  with assms(10) h have "\<exists>m hdr. routeInternal L r s req = (Some m, ''Hosts'', None) \<and> Id m = Id req \<and> hdr_Name hdr = q_Name q
         \<and> Answer m = [case ip_To4 addr of Some v4 \<Rightarrow> RR_A hdr (Some v4) | None \<Rightarrow> RR_AAAA hdr (Some addr)]"
    by (simp split: if_splits) blast+
  moreover have "map_of (cf_Hosts (rt_config r)) k = map_of (cf_Hosts (m_Config (wb_manager st))) k"
    if "k \<notin> strings_ToLower ` fst ` set payload" for k
  proof -
    have "map_of (rev (map (\<lambda>(d, ip). (strings_ToLower d, ip)) payload)) k = None"
      using that by (force simp: map_of_eq_None_iff)
    then show ?thesis by (simp add: r(2) map_of_add_hosts)
  qed
  ultimately show ?thesis using r(1) by blast
qed

text \<open>
  C20: What the configuration page reads it can write back: posting the configuration that a GET
  returned, in which the password is masked and the hosts are missing, keeps the password, the
  hosts and everything else; only the configuration directory is set and the listen section
  normalised.
\<close>

theorem config_edit_keeps_secrets:
  assumes "wr_path rq1 = ''/api/config''" "wr_method rq1 = GET" "handle_web env1 rq1 st = (st1, WConfig c)"
    and "wr_path rq2 = ''/api/config''" "wr_method rq2 = POST"
    and "decodeJSONBody (js_config (we_json env2)) (wr_body rq2) = Inr (c\<lparr>cf_ConfigDir := []\<rparr>)"
    and "handle_web env2 rq2 st1 = (st2, WDone)"
    and "manager_inv (wb_manager st)"
  shows "\<exists>dir. m_Config (wb_manager st2) = (m_Config (wb_manager st))
      \<lparr>cf_ConfigDir := dir, cf_Listen := normalizeListenConfig (cf_Listen (m_Config (wb_manager st)))\<rparr>"
proof -
  let ?c = "m_Config (wb_manager st)"
  obtain ok s1 where k1: "check env1 rq1 st = (ok, s1)" by fastforce
  with assms(1-3) have c: "c = masked_config ?c" and st1: "wb_manager st1 = wb_manager st"
    using check_result(1) [OF k1]
    by (auto simp: handle_web_def api_config_def Let_def CurrentConfig_def split: if_splits prod.splits)
  obtain ok2 s2 where k2: "check env2 rq2 st1 = (ok2, s2)" by fastforce
  have "save_and_reload env2 (posted_config ?c (c\<lparr>cf_ConfigDir := []\<rparr>)) s2 = (st2, WDone)"
    using assms(4-7) k2 st1 by (simp add: handle_web_def api_config_def Let_def CurrentConfig_def split: if_splits)
  then have "save_and_reload env2 (?c\<lparr>cf_ConfigDir := []\<rparr>) s2 = (st2, WDone)"
    by (simp only: c posted_masked)
  from save_and_reload_done [OF _ this] assms(8) check_result(1) [OF k2] st1
  show ?thesis by (auto simp: changed_to_def Let_def serving_def)
qed

text \<open>
  C28: The test of the upstreams ends and reports each of them, however its goroutines interleave:
  no sequence of steps is infinite, none gets stuck before the reply, the wait group counts the
  goroutines that have not called \<open>Done\<close>, and the reply has exactly one result per configured
  upstream of both groups. The possible replies are the values of \<open>run_tests\<close>, by which the handler
  is modelled, one for each order of taking the mutex. (That each goroutine gets its answer is
  the timeout of its context; a step of every goroutine that can make one is taken eventually.)
\<close>

theorem upstream_tests_end:
  fixes L connect latency bootstrapper cfg
  defines "f \<equiv> testServer L connect latency bootstrapper"
  shows "wf {(s', s). tests_step f s s'}
    \<and> (\<forall>s. tests_run f (tests_init (test_jobs cfg)) s \<and> (\<nexists>s'. tests_step f s s') \<longrightarrow> tt_reply s \<noteq> None)
    \<and> (\<forall>s rs. tests_run f (tests_init (test_jobs cfg)) s \<and> tt_reply s = Some rs \<longrightarrow>
          mset (map tr_Address rs) = mset (map us_Address (uc_CN (cf_Upstreams cfg) @ uc_Overseas (cf_Upstreams cfg)))
          \<and> (\<exists>order. rs = run_tests f (test_jobs cfg) order))
    \<and> (\<forall>order. \<exists>s. tests_run f (tests_init (test_jobs cfg)) s \<and> tt_reply s = Some (run_tests f (test_jobs cfg) order))"
proof (intro conjI allI impI; (elim conjE)?)
  show "wf {(s', s). tests_step f s s'}" by (rule tests_step_wf)
  show "\<exists>s. tests_run f (tests_init (test_jobs cfg)) s \<and> tt_reply s = Some (run_tests f (test_jobs cfg) order)" for order
    by (rule run_tests_reached)
next
  fix s assume "tests_run f (tests_init (test_jobs cfg)) s" "\<nexists>s'. tests_step f s s'"
  then show "tt_reply s \<noteq> None" using tests_progress tests_run_inv [OF _ tests_init_inv] by blast
next
  fix s rs assume "tests_run f (tests_init (test_jobs cfg)) s" "tt_reply s = Some rs"
  then have rs: "mset rs = image_mset f (mset (test_jobs cfg))"
    using tests_reply_results tests_run_inv [OF _ tests_init_inv] by blast
  then show "\<exists>order. rs = run_tests f (test_jobs cfg) order" by (rule run_tests_all)
  from rs have "mset (map tr_Address rs) = mset (map tr_Address (map f (test_jobs cfg)))"
    by (simp only: mset_map)
  then show "mset (map tr_Address rs) = mset (map us_Address (uc_CN (cf_Upstreams cfg) @ uc_Overseas (cf_Upstreams cfg)))"
    unfolding f_def test_jobs_addresses .
qed

text \<open>No handler panics, for any request and any state of the service, also when nothing runs.\<close>

theorem web_never_panics: "snd (handle_web env rq st) \<noteq> WPanic"
  by (simp add: handle_web_def handlers_no_panic)

section \<open>Witnesses\<close>

text \<open>Answers for which every file can be written and every server stops.\<close>

definition sample_api :: "config \<Rightarrow> json_api" where
  "sample_api c = \<lparr>js_creds = \<lambda>b. Inl (Errorf ''no credentials'' []), js_config = \<lambda>b. Inr c,
     js_hosts = \<lambda>b. Inr [(''NAS.lan'', ''10.0.0.7'')], js_domains = \<lambda>b. Inr [''nas.lan'']\<rparr>"

definition sample_web :: "config \<Rightarrow> web_env" where
  "sample_web c = \<lparr>we_json = sample_api c, we_clk = (5, 5), we_rand = Inr ''ab'', we_cwd = Inr ''/'',
     we_configPath = abs_path ([''etc''] @ [''config.yaml'']),
     we_faults = (sample_faults ''/t1'', sample_faults ''/t2'', sample_faults ''/t3''),
     we_yaml = sample_yaml sample_config, we_stop = (sample_stop, sample_stop), we_start = (sample_start, sample_start),
     we_remove = True, we_jsonlog = sample_json, we_logfile = Inl (Errorf ''no file'' []), we_memory = 0,
     we_goroutines = 1, we_connect = \<lambda>bs k req. (None, Some ContextCanceled), we_dns = sample_lib,
     we_latency = \<lambda>srv. 0, we_order = []\<rparr>"

definition sample_web_state :: web_state where
  "sample_web_state = \<lparr>wb_sessions = [], wb_manager = sample_manager, wb_files = Map.empty\<rparr>"

definition web_call :: "string \<Rightarrow> http_method \<Rightarrow> web_request" where
  "web_call path method = \<lparr>wr_path = path, wr_method = method, wr_query = \<lambda>k. [], wr_cookie = None,
     wr_body = ([], None), wr_tls = False\<rparr>"

lemma sample_Save:
  "\<exists>c' states. Save (we_yaml (sample_web d)) (we_cwd (sample_web d)) (we_faults (sample_web d)) (we_configPath (sample_web d)) c fs
     = (c', states, None)"
proof -
  have plain: "list_all plain_comp ([''etc''] @ [''config.yaml''])" by (simp add: plain_comp_def)
  have abs: "filepath_Abs (Inr ''/'') (abs_path ([''etc''] @ [''config.yaml''])) = Inr (abs_path ([''etc''] @ [''config.yaml'']))"
    using clean_abs_path [OF plain] by (simp add: filepath_Abs_def)
  have ok: "snd (writeFileAtomic (sample_faults t) q data perm fs) = None" for t q data perm fs
    by (simp add: writeFileAtomic_def sample_faults_def Let_def)
  have m: "yaml_Marshal (sample_yaml sample_config) x = Inr ''yaml''" for x by (simp add: sample_yaml_def)
  have e: "we_yaml (sample_web d) = sample_yaml sample_config" "we_cwd (sample_web d) = Inr ''/''"
    "we_faults (sample_web d) = (sample_faults ''/t1'', sample_faults ''/t2'', sample_faults ''/t3'')"
    "we_configPath (sample_web d) = abs_path ([''etc''] @ [''config.yaml''])"
    by (simp_all add: sample_web_def)
  obtain W where w: "\<And>t q data perm fs. writeFileAtomic (sample_faults t) q data perm fs = (W t q data perm fs, None)"
    by (rule that [of "\<lambda>t q data perm fs. fst (writeFileAtomic (sample_faults t) q data perm fs)"]) (simp add: prod_eq_iff ok)
  show ?thesis
    unfolding e Save_def abs sum.case Let_def m saveHostsFile_def saveRulesFile_def fst_conv snd_conv w prod.case option.case
    by blast
qed

lemma sample_web_manager: "manager_inv (wb_manager sample_web_state)" "m_Config (wb_manager sample_web_state) = sample_config"
  using sample_serving by (simp_all add: sample_web_state_def serving_def)

lemma sample_open: "check (sample_web d) rq sample_web_state = (True, sample_web_state)"
  using sample_web_manager(2) by (simp add: check_def checkAuth_def CurrentConfig_def sample_config_def sample_web_state_def)

lemma sample_saved:
  assumes "cf_GeoData c = cf_GeoData sample_config"
  shows "\<exists>st. save_and_reload (sample_web d) c sample_web_state = (st, WDone)"
proof -
  obtain c' states where s: "Save (we_yaml (sample_web d)) (we_cwd (sample_web d)) (we_faults (sample_web d)) (we_configPath (sample_web d)) c
      (wb_files sample_web_state) = (c', states, None)" using sample_Save by blast
  have "geo_loads (fst (we_start (sample_web d))) (cf_GeoData c)" using sample_geo(1) assms by (simp add: sample_web_def)
  from save_and_reload_succeeds [OF sample_web_manager(1) s this] show ?thesis by (metis prod.collapse)
qed

text \<open>A visitor posts a configuration.\<close>

theorem web_needs_session_witness:
  "\<exists>st' reply. let st = sample_web_state\<lparr>wb_manager := NewServiceManager (web_config sample_config)\<rparr>
   in handle_web (sample_web sample_config) (web_call ''/api/config'' POST) st = (st', reply)
     \<and> wb_manager st' = wb_manager st \<and> guest_reply reply"
proof -
  let ?st = "sample_web_state\<lparr>wb_manager := NewServiceManager (web_config sample_config)\<rparr>"
  let ?rq = "web_call ''/api/config'' POST" and ?env = "sample_web sample_config"
  have r: "\<not> fst (checkAuth (m_Config (wb_manager ?st)) (wr_cookie ?rq) (we_clk ?env) (wb_sessions ?st))"
    by (simp add: checkAuth_def NewServiceManager_def web_config_def web_call_def)
  obtain st' reply where h: "handle_web ?env ?rq ?st = (st', reply)" by fastforce
  from web_needs_session [OF r h] h show ?thesis unfolding Let_def by blast
qed

theorem posted_host_is_served_witness:
  "\<exists>st r m hdr. handle_web (sample_web sample_config) (web_call ''/api/hosts'' POST) sample_web_state = (st, WDone)
     \<and> m_Router (wb_manager st) = Some r
     \<and> routeInternal sample_lib r sample_sched (sample_request ''nas.LAN.'' TypeA) = (Some m, ''Hosts'', None)
     \<and> Answer m = [RR_A hdr (Some [10, 0, 0, 7])]"
proof -
  let ?rq = "web_call ''/api/hosts'' POST" and ?env = "sample_web sample_config"
  let ?req = "sample_request ''nas.LAN.'' TypeA"
  have d: "decodeJSONBody (js_hosts (we_json ?env)) (wr_body ?rq) = Inr [(''NAS.lan'', ''10.0.0.7'')]"
    by (simp add: decodeJSONBody_def sample_web_def sample_api_def)
  have rq: "wr_path ?rq = ''/api/hosts''" "wr_method ?rq = POST" by (simp_all add: web_call_def)
  obtain st where "save_and_reload ?env ((m_Config (wb_manager sample_web_state))\<lparr>cf_Hosts := add_hosts [(''NAS.lan'', ''10.0.0.7'')]
      (cf_Hosts (m_Config (wb_manager sample_web_state)))\<rparr>) sample_web_state = (st, WDone)"
    using sample_saved [of "(m_Config (wb_manager sample_web_state))\<lparr>cf_Hosts := add_hosts [(''NAS.lan'', ''10.0.0.7'')]
      (cf_Hosts (m_Config (wb_manager sample_web_state)))\<rparr>"] sample_web_manager(2) by auto
  then have h: "handle_web ?env ?rq sample_web_state = (st, WDone)"
    using d rq by (simp add: handle_web_def api_hosts_def sample_open Let_def CurrentConfig_def)
  have n: "route_name ?req = ''nas.lan''" by (simp add: route_name_def sample_request_def) code_simp
  have low: "strings_ToLower ''NAS.lan'' = ''nas.lan''" by code_simp
  have ip: "net_ParseIP ''10.0.0.7'' = Some (v4_in_v6_prefix @ [10, 0, 0, 7])" by code_simp
  have v4: "ip_To4 (v4_in_v6_prefix @ [10, 0, 0, 7]) = Some [10, 0, 0, 7]" by (simp add: ip_To4_def v4_in_v6_prefix_def)
  have q: "Question ?req = [\<lparr>q_Name = ''nas.LAN.'', q_Qtype = TypeA, q_Qclass = ClassINET\<rparr>]" by (simp add: sample_request_def)
  have mp: "map_of (rev (map (\<lambda>(d, ip). (strings_ToLower d, ip)) [(''NAS.lan'', ''10.0.0.7'')])) (route_name ?req) = Some ''10.0.0.7''"
    by (simp add: n low)
  from posted_host_is_served [OF rq d sample_web_manager(1) h mp ip sample_reply_documented q, of sample_sched] v4
  show ?thesis using h by auto
qed

theorem config_edit_keeps_secrets_witness:
  "\<exists>st dir. handle_web (sample_web ((masked_config sample_config)\<lparr>cf_ConfigDir := []\<rparr>)) (web_call ''/api/config'' POST) sample_web_state = (st, WDone)
     \<and> m_Config (wb_manager st) = sample_config\<lparr>cf_ConfigDir := dir, cf_Listen := normalizeListenConfig (cf_Listen sample_config)\<rparr>"
proof -
  let ?c = "(masked_config sample_config)\<lparr>cf_ConfigDir := []\<rparr>"
  let ?get = "web_call ''/api/config'' GET" and ?post = "web_call ''/api/config'' POST" and ?env = "sample_web ?c"
  have g: "handle_web ?env ?get sample_web_state = (sample_web_state, WConfig (masked_config sample_config))"
    using sample_web_manager(2) by (simp add: handle_web_def web_call_def api_config_def Let_def CurrentConfig_def sample_open)
  have d: "decodeJSONBody (js_config (we_json ?env)) (wr_body ?post) = Inr ?c"
    by (simp add: decodeJSONBody_def sample_web_def sample_api_def)
  obtain st where "save_and_reload ?env (posted_config sample_config ?c) sample_web_state = (st, WDone)"
    using sample_saved [of "posted_config sample_config ?c" ?c] posted_masked [of sample_config "[]"] by auto
  then have p: "handle_web ?env ?post sample_web_state = (st, WDone)"
    using d sample_web_manager(2) by (simp add: handle_web_def web_call_def api_config_def Let_def CurrentConfig_def sample_open)
  have w: "wr_path ?get = ''/api/config''" "wr_method ?get = GET" "wr_path ?post = ''/api/config''" "wr_method ?post = POST"
    by (simp_all add: web_call_def)
  from config_edit_keeps_secrets [OF w(1,2) g w(3,4) d p sample_web_manager(1)] p sample_web_manager(2)
  show ?thesis by auto
qed

text \<open>Two upstreams; the second one finishes first.\<close>

theorem upstream_tests_end_witness:
  "let cfg = sample_config\<lparr>cf_Upstreams := \<lparr>uc_CN = [sample_upstream ''1.1.1.1''], uc_Overseas = [sample_upstream ''8.8.8.8'']\<rparr>\<rparr>;
       f = testServer sample_lib (\<lambda>bs k req. (None, Some ContextCanceled)) (\<lambda>srv. 0) []
   in \<exists>s rs. tests_run f (tests_init (test_jobs cfg)) s \<and> tt_reply s = Some rs
        \<and> mset (map tr_Address rs) = {#us_Address (sample_upstream ''1.1.1.1''), us_Address (sample_upstream ''8.8.8.8'')#}"
proof -
  let ?cfg = "sample_config\<lparr>cf_Upstreams := \<lparr>uc_CN = [sample_upstream ''1.1.1.1''], uc_Overseas = [sample_upstream ''8.8.8.8'']\<rparr>\<rparr>"
  let ?f = "testServer sample_lib (\<lambda>bs k req. (None, Some ContextCanceled)) (\<lambda>srv. 0) []"
  note t = upstream_tests_end [of sample_lib "\<lambda>bs k req. (None, Some ContextCanceled)" "\<lambda>srv. 0" "[]" ?cfg]
  obtain s where s: "tests_run ?f (tests_init (test_jobs ?cfg)) s" "tt_reply s = Some (run_tests ?f (test_jobs ?cfg) [1])"
    using t by blast
  with t have "mset (map tr_Address (run_tests ?f (test_jobs ?cfg) [1]))
      = mset (map us_Address (uc_CN (cf_Upstreams ?cfg) @ uc_Overseas (cf_Upstreams ?cfg)))" by blast
  also have "\<dots> = {#us_Address (sample_upstream ''1.1.1.1''), us_Address (sample_upstream ''8.8.8.8'')#}" by simp
  finally show ?thesis using s unfolding Let_def by blast
qed

section \<open>Observations\<close>

text \<open>
  Two requests that read the configuration before either has stored its own: the second success
  silently drops the host that the first has added.
\<close>

lemma concurrent_hosts_lost:
  assumes "manager_inv (wb_manager st)"
    and "save_and_reload env1 (c\<lparr>cf_Hosts := add_hosts [(a, i)] (cf_Hosts c)\<rparr>) st = (st1, WDone)"
    and "save_and_reload env2 (c\<lparr>cf_Hosts := add_hosts [(b, j)] (cf_Hosts c)\<rparr>) st1 = (st2, WDone)"
    and "map_of (cf_Hosts c) (strings_ToLower a) = None" "strings_ToLower a \<noteq> strings_ToLower b"
  shows "map_of (cf_Hosts (m_Config (wb_manager st1))) (strings_ToLower a) = Some i
    \<and> map_of (cf_Hosts (m_Config (wb_manager st2))) (strings_ToLower a) = None"
proof -
  have s1: "changed_to env1 (c\<lparr>cf_Hosts := add_hosts [(a, i)] (cf_Hosts c)\<rparr>) (wb_manager st1)"
    using save_and_reload_done [OF assms(1,2)] by simp
  then have "manager_inv (wb_manager st1)" by (auto simp: changed_to_def Let_def serving_inv)
  then have s2: "changed_to env2 (c\<lparr>cf_Hosts := add_hosts [(b, j)] (cf_Hosts c)\<rparr>) (wb_manager st2)"
    using save_and_reload_done [OF _ assms(3)] by simp
  from s1 s2 assms(4,5) show ?thesis by (auto simp: changed_to_def Let_def serving_def map_of_add_hosts)
qed

text \<open>
  A rule that is posted with capitals never matches a name, which is folded to lower case, until
  the file it is saved to is loaded again.
\<close>

lemma posted_rule_case:
  "lookupRule [(''Example.com'', ''cn'')] [''example.com'', ''com''] = None"
  "lookupRule (load_rule_line (rules_line ''Example.com'' ''cn'') []) [''example.com'', ''com''] = Some ''cn''"
  by code_simp+

text \<open>The name of a posted host is not checked: one with a space becomes two hosts when the file is loaded.\<close>

lemma posted_host_with_space:
  "load_host_line (hosts_line ''a b'' ''10.0.0.7'') [] = [(''a'', ''10.0.0.7''), (''b'', ''10.0.0.7'')]"
  by code_simp

end
