(* ===== verification/Main_Program.thy ===== *)
theory Main_Program
  imports Web
begin

text \<open>
  The main program (\<open>cmd/doh-autoproxy/main.go\<close>): it loads the configuration, fetches the databases
  that are missing, starts the services and the web interface, waits for a signal and stops. Here
  the loaders of the databases read the files that the downloads have left.
\<close>

section \<open>Databases in files\<close>

text \<open>
  The loaders of the two databases are third party; what they make of a file is a function of its
  content. \<open>load_file\<close> is the call with a path.
\<close>

definition load_file :: "(string \<Rightarrow> goerr + 'a) \<Rightarrow> files \<Rightarrow> string \<Rightarrow> goerr + 'a" where
  "load_file load fs path =
     (case os_ReadFile (fs_open fs path) of Inl e \<Rightarrow> Inl e | Inr content \<Rightarrow> load content)"

text \<open>\<open>VerifyGeoIP\<close> and \<open>VerifyGeoSite\<close> load the file and keep the error.\<close>

definition VerifyGeoIP :: "(string \<Rightarrow> goerr + (ip \<Rightarrow> string list)) \<Rightarrow> string \<Rightarrow> goerr option" where
  "VerifyGeoIP load content = (case load content of Inl err \<Rightarrow> Some err | Inr _ \<Rightarrow> None)"

definition VerifyGeoSite :: "(string \<Rightarrow> goerr + (string \<Rightarrow> string list)) \<Rightarrow> string \<Rightarrow> goerr option" where
  "VerifyGeoSite load content = (case load content of Inl err \<Rightarrow> Some err | Inr _ \<Rightarrow> None)"

section \<open>The program\<close>

record main_env =
  me_Getenv :: string
  me_Stat_ok :: "string \<Rightarrow> bool"
  me_cwd :: "goerr + string"
  me_yaml :: yaml_lib
  me_stat_err :: "string \<Rightarrow> goerr option"
  me_downloads :: "download_env \<times> download_env"
  me_geoip :: "string \<Rightarrow> goerr + (ip \<Rightarrow> string list)"
  me_geosite :: "string \<Rightarrow> goerr + (string \<Rightarrow> string list)"
  me_start :: start_env
  me_assets :: bool
  me_clock :: int

text \<open>The answers to \<open>Start\<close>: the databases come from the files.\<close>

definition start_answers :: "main_env \<Rightarrow> files \<Rightarrow> start_env" where
  "start_answers env fs = (me_start env)\<lparr>se_geoip := load_file (me_geoip env) fs, se_geosite := load_file (me_geosite env) fs\<rparr>"

text \<open>
  How far the program gets: \<open>log.Fatalf\<close> ends the process, a nil configuration would panic, or it
  waits for a signal with the services and the update goroutine under way.
\<close>

datatype main_state =
    Fatal string goerr
  | Nil_config
  | Waiting update_state web_listener

definition main_start :: "main_env \<Rightarrow> files \<Rightarrow> files \<times> main_state" where
  "main_start env fs =
     (let configPath = GetDefaultConfigPath (me_Getenv env) (me_Stat_ok env) in
      case LoadConfig (me_yaml env) (me_cwd env) (fs_open fs) configPath of
        (_, Some err) \<Rightarrow> (fs, Fatal ''cannot load the configuration'' err)
      | (None, None) \<Rightarrow> (fs, Nil_config)
      | (Some cfg, None) \<Rightarrow>
          (let svcMgr = update_init cfg (me_clock env);
               fs1 = CheckAndDownloadGeoFiles (me_stat_err env) (me_downloads env)
                       (VerifyGeoIP (me_geoip env), VerifyGeoSite (me_geosite env)) cfg fs
           in case manager_Start (start_answers env fs1) (us_manager svcMgr) of
                (_, Some err) \<Rightarrow> (fs1, Fatal ''Failed to start services'' err)
              | (m, None) \<Rightarrow>
                  (fs1, Waiting (Start_step (start_answers env fs1) svcMgr) (StartWebServer m (me_assets env)))))"

text \<open>After the signal: \<open>Stop\<close>, whose error is only logged.\<close>

definition main_stop :: "stop_env \<Rightarrow> update_state \<Rightarrow> update_state" where
  "main_stop env s = Stop_services env (Stop_signal s)"

section \<open>Lemmas\<close>

text \<open>A database is at hand: it loads from its file, or it is missing and the download succeeds.\<close>

definition available ::
  "(string \<Rightarrow> goerr option) \<Rightarrow> download_env \<Rightarrow> (string \<Rightarrow> goerr option) \<Rightarrow> string \<Rightarrow> string \<Rightarrow> files \<Rightarrow> bool" where
  "available stat_err denv verify path url fs \<longleftrightarrow>
     (\<exists>content perm. fs path = Some (content, perm) \<and> content \<noteq> [] \<and> verify content = None)
     \<or> shouldDownload stat_err fs path \<and> url \<noteq> [] \<and> (\<forall>fs'. snd (DownloadFile denv (Some verify) path fs') = None)"

definition fetched ::
  "(string \<Rightarrow> goerr option) \<Rightarrow> download_env \<Rightarrow> (string \<Rightarrow> goerr option) \<Rightarrow> string \<Rightarrow> string \<Rightarrow> files \<Rightarrow> files" where
  "fetched stat_err denv verify path url fs =
     (if shouldDownload stat_err fs path then download_to denv verify path url fs else fs)"

definition holds_valid :: "(string \<Rightarrow> goerr option) \<Rightarrow> string \<Rightarrow> files \<Rightarrow> bool" where
  "holds_valid verify path fs \<longleftrightarrow> (\<exists>content perm. fs path = Some (content, perm) \<and> verify content = None)"

lemma CheckAndDownload_fetched:
  "CheckAndDownloadGeoFiles stat_err envs verify cfg fs =
     fetched stat_err (snd envs) (snd verify) (gd_GeoSiteDat (cf_GeoData cfg)) (gd_GeoSiteDownloadURL (cf_GeoData cfg))
       (fetched stat_err (fst envs) (fst verify) (gd_GeoIPDat (cf_GeoData cfg)) (gd_GeoIPDownloadURL (cf_GeoData cfg)) fs)"
  by (simp add: CheckAndDownloadGeoFiles_def fetched_def Let_def)

lemma fetched_other: "q \<noteq> path \<Longrightarrow> q \<noteq> path @ ''.tmp'' \<Longrightarrow> fetched stat_err denv v path url fs q = fs q"
  by (simp add: fetched_def download_to_other)

lemma available_cong: "fs path = fs' path \<Longrightarrow> available stat_err denv v path url fs = available stat_err denv v path url fs'"
  unfolding available_def shouldDownload_def by (simp only:)

lemma available_fetched:
  assumes "available stat_err denv v path url fs"
  shows "holds_valid v path (fetched stat_err denv v path url fs)"
  using assms unfolding available_def
proof (elim disjE exE conjE)
  fix content perm assume c: "fs path = Some (content, perm)" "content \<noteq> []" "v content = None"
  then have "\<not> shouldDownload stat_err fs path" by (simp add: shouldDownload_def split: option.split)
  with c show ?thesis by (simp add: fetched_def holds_valid_def)
next
  assume d: "shouldDownload stat_err fs path" "url \<noteq> []" "\<forall>fs'. snd (DownloadFile denv (Some v) path fs') = None"
  then have "DownloadFile denv (Some v) path fs = (fst (DownloadFile denv (Some v) path fs), None)" by (simp add: prod_eq_iff)
  then show ?thesis
    by (rule DownloadFile_done) (use d in \<open>auto simp: fetched_def download_to_def holds_valid_def validated_def\<close>)
qed

lemma ReadFile_fs: "fs path = Some (content, perm) \<Longrightarrow> os_ReadFile (fs_open fs path) = Inr content"
  by (simp add: fs_open_def os_ReadFile_def)

lemma load_file_valid:
  assumes "holds_valid v path fs" "\<And>content. v content = None \<Longrightarrow> \<exists>db. load content = Inr db"
  shows "\<exists>db. load_file load fs path = Inr db"
  using assms by (auto simp: holds_valid_def load_file_def ReadFile_fs)

lemma verified_loads:
  "VerifyGeoIP load_ip content = None \<Longrightarrow> \<exists>db. load_ip content = Inr db"
  "VerifyGeoSite load_site content = None \<Longrightarrow> \<exists>db. load_site content = Inr db"
  by (auto simp: VerifyGeoIP_def VerifyGeoSite_def split: sum.splits)

lemma databases_load:
  assumes "separate_files g"
    and "available stat_err (fst dl) (VerifyGeoIP load_ip) (gd_GeoIPDat g) (gd_GeoIPDownloadURL g) fs"
    and "available stat_err (snd dl) (VerifyGeoSite load_site) (gd_GeoSiteDat g) (gd_GeoSiteDownloadURL g) fs"
    and "fs1 = CheckAndDownloadGeoFiles stat_err dl (VerifyGeoIP load_ip, VerifyGeoSite load_site) cfg fs" "cf_GeoData cfg = g"
    and "se_geoip se = load_file load_ip fs1" "se_geosite se = load_file load_site fs1"
  shows "geo_loads se g"
proof -
  define fsA where "fsA = fetched stat_err (fst dl) (VerifyGeoIP load_ip) (gd_GeoIPDat g) (gd_GeoIPDownloadURL g) fs"
  have fs1: "fs1 = fetched stat_err (snd dl) (VerifyGeoSite load_site) (gd_GeoSiteDat g) (gd_GeoSiteDownloadURL g) fsA"
    unfolding assms(4) CheckAndDownload_fetched by (simp add: assms(5) fsA_def)
  have a: "holds_valid (VerifyGeoIP load_ip) (gd_GeoIPDat g) fsA" unfolding fsA_def using assms(2) by (rule available_fetched)
  have "fs1 (gd_GeoIPDat g) = fsA (gd_GeoIPDat g)" unfolding fs1
    by (rule fetched_other) (use assms(1) in \<open>simp_all add: separate_files_def\<close>)
  with a have ip: "holds_valid (VerifyGeoIP load_ip) (gd_GeoIPDat g) fs1" by (simp add: holds_valid_def)
  have "fsA (gd_GeoSiteDat g) = fs (gd_GeoSiteDat g)" unfolding fsA_def
    by (rule fetched_other) (use assms(1) in \<open>auto simp: separate_files_def\<close>)
  with assms(3) have "available stat_err (snd dl) (VerifyGeoSite load_site) (gd_GeoSiteDat g) (gd_GeoSiteDownloadURL g) fsA"
    using available_cong by metis
  then have site: "holds_valid (VerifyGeoSite load_site) (gd_GeoSiteDat g) fs1" unfolding fs1 by (rule available_fetched)
  have "\<exists>db. load_file load_ip fs1 (gd_GeoIPDat g) = Inr db" by (rule load_file_valid [OF ip verified_loads(1)])
  moreover have "\<exists>db. load_file load_site fs1 (gd_GeoSiteDat g) = Inr db" by (rule load_file_valid [OF site verified_loads(2)])
  ultimately show ?thesis
    by (auto simp: geo_loads_def NewGeoDataManager_def assms(6,7))
qed

text \<open>Stopping after any run of the services leaves nothing held or open.\<close>

lemma main_stop_idle:
  assumes "urun S UNIV (update_init cfg t) s" "env \<in> S"
  shows "idle (us_manager (main_stop env s)) \<and> blamed S (us_manager (main_stop env s))"
proof -
  have "manager_inv (us_manager (Stop_signal s))" "blamed S (us_manager (Stop_signal s))"
    using urun_init_inv [OF assms(1)] by (simp_all add: update_inv_def Stop_signal_def)
  then show ?thesis using assms(2) by (simp add: main_stop_def Stop_services_def stopInternal_idle stopInternal_blamed)
qed

lemma LoadConfig_not_nil: "LoadConfig Y cwd open_file p \<noteq> (None, None)"
  by (auto simp: LoadConfig_def Let_def split: sum.splits prod.splits option.splits)

section \<open>Properties\<close>

text \<open>
  C16: The program comes up from whatever a configuration that loads finds on the disk: if each database
  is valid in its file, or missing and downloaded successfully, the program waits with exactly the
  servers of the configuration launched, the web interface as configured and the update goroutine
  at its select. (The servers bind their ports on goroutines of their own; a failed bind is only
  logged and not part of this.) Whenever \<open>Stop\<close> then stops the services, whatever reloads and
  updates have done before, no server is held and no router or query logger is left open, and a
  server that can still be listening is one whose \<open>Stop\<close> reported an error.
\<close>

theorem program_comes_up_and_stops:
  assumes "LoadConfig (me_yaml env) (me_cwd env) (fs_open fs) (GetDefaultConfigPath (me_Getenv env) (me_Stat_ok env)) = (Some cfg, None)"
    and "separate_files (cf_GeoData cfg)"
    and "available (me_stat_err env) (fst (me_downloads env)) (VerifyGeoIP (me_geoip env))
           (gd_GeoIPDat (cf_GeoData cfg)) (gd_GeoIPDownloadURL (cf_GeoData cfg)) fs"
    and "available (me_stat_err env) (snd (me_downloads env)) (VerifyGeoSite (me_geosite env))
           (gd_GeoSiteDat (cf_GeoData cfg)) (gd_GeoSiteDownloadURL (cf_GeoData cfg)) fs"
    and "main_start env fs = (fs1, st)"
  shows "\<exists>s m. st = Waiting s (StartWebServer m (me_assets env)) \<and> us_manager s = m \<and> us_updater s = AtSelect
    \<and> serving (start_answers env fs1) cfg m
    \<and> (\<forall>S s' so. so \<in> S \<and> urun S UNIV s s' \<longrightarrow>
         idle (us_manager (main_stop so s')) \<and> blamed S (us_manager (main_stop so s')))"
proof -
  let ?s0 = "update_init cfg (me_clock env)"
  define f where "f = CheckAndDownloadGeoFiles (me_stat_err env) (me_downloads env)
     (VerifyGeoIP (me_geoip env), VerifyGeoSite (me_geosite env)) cfg fs"
  have "geo_loads (start_answers env f) (cf_GeoData cfg)"
    by (rule databases_load [OF assms(2-4) f_def]) (simp_all add: start_answers_def)
  moreover have mgr: "us_manager ?s0 = NewServiceManager cfg" "m_Config (us_manager ?s0) = cfg"
    by (simp_all add: update_init_def NewServiceManager_def)
  moreover have idle: "idle (us_manager ?s0)" by (simp add: mgr NewServiceManager_idle)
  ultimately obtain m where m: "startInternal (start_answers env f) (us_manager ?s0) = (m, None)"
    "serving (start_answers env f) cfg m"
    using startInternal_cases [OF idle, of "start_answers env f"] by (metis prod.inject option.distinct(1))
  define s where "s = Start_step (start_answers env f) ?s0"
  have s: "us_manager s = m" "us_updater s = AtSelect" by (simp_all add: s_def Start_step_def manager_Start_def m(1))
  have st: "fs1 = f" "st = Waiting s (StartWebServer m (me_assets env))"
    using assms(5) by (auto simp: main_start_def assms(1) f_def [symmetric] manager_Start_def m(1) s_def Let_def)
  have run: "urun S UNIV ?s0 s" for S
  proof -
    have "ustep S Main_Start ?s0 s" unfolding s_def by (rule ustep.start) (simp_all add: update_init_def NewServiceManager_idle)
    from urun_step [OF urun_refl this] show ?thesis by simp
  qed
  have "idle (us_manager (main_stop so s')) \<and> blamed S (us_manager (main_stop so s'))"
    if r: "so \<in> S" "urun S UNIV s s'" for S s' so
  proof -
    have "urun S UNIV ?s0 s'" using run [of S] r(2) unfolding urun_def by (rule rtranclp_trans)
    then show ?thesis using r(1) by (rule main_stop_idle)
  qed
  with st s m(2) show ?thesis by blast
qed

section \<open>Witnesses\<close>

text \<open>A disk with a configuration, a GeoIP database and no GeoSite database, which is downloaded.\<close>

definition main_config :: config where
  "main_config = sample_config\<lparr>cf_GeoData := (cf_GeoData sample_config)\<lparr>gd_GeoSiteDownloadURL := ''https://geo''\<rparr>\<rparr>"

definition sample_main :: main_env where
  "sample_main = \<lparr>me_Getenv = abs_path ([''etc''] @ [''config.yaml'']), me_Stat_ok = \<lambda>p. True, me_cwd = Inr ''/'',
     me_yaml = sample_yaml main_config, me_stat_err = \<lambda>p. None,
     me_downloads = (sample_download, sample_download\<lparr>de_rename := None\<rparr>),
     me_geoip = \<lambda>c. Inr (\<lambda>ip. []), me_geosite = \<lambda>c. Inr (\<lambda>d. []), me_start = sample_start, me_assets = True, me_clock = 0\<rparr>"

definition sample_disk :: files where
  "sample_disk = Map.empty(abs_path ([''etc''] @ [''config.yaml'']) \<mapsto> (''yaml'', 420),
     abs_path [''etc'', ''geoip.dat''] \<mapsto> (''data'', 420))"

lemma sample_main_loads:
  "\<exists>cfg. LoadConfig (me_yaml sample_main) (me_cwd sample_main) (fs_open sample_disk)
       (GetDefaultConfigPath (me_Getenv sample_main) (me_Stat_ok sample_main)) = (Some cfg, None)
     \<and> cf_GeoData cfg = cf_GeoData main_config \<and> cf_WebUI cfg = cf_WebUI sample_config \<and> cf_AutoCert cfg = cf_AutoCert sample_config"
proof -
  have plain: "list_all plain_comp ([''etc''] @ [''config.yaml''])" by (simp add: plain_comp_def)
  have p: "GetDefaultConfigPath (me_Getenv sample_main) (me_Stat_ok sample_main) = abs_path ([''etc''] @ [''config.yaml''])"
    by (simp add: sample_main_def GetDefaultConfigPath_def abs_path_def slash_def)
  have abs: "filepath_Abs (Inr ''/'') (abs_path ([''etc''] @ [''config.yaml''])) = Inr (abs_path ([''etc''] @ [''config.yaml'']))"
    using clean_abs_path [OF plain] by (simp add: filepath_Abs_def)
  have rd: "os_ReadFile (fs_open sample_disk (abs_path ([''etc''] @ [''config.yaml'']))) = Inr ''yaml''"
    by (rule ReadFile_fs [of _ _ _ 420]) (simp add: sample_disk_def abs_path_def slash_def)
  have none: "fs_open sample_disk (filepath_Join (abs_path [''etc'']) f) = Inl err_not_exist"
    if "f = ''hosts.txt'' \<or> f = ''rule.txt''" for f
    using that by (elim disjE; simp only:) code_simp+
  have dir: "filepath_Dir (abs_path ([''etc''] @ [''config.yaml''])) = abs_path [''etc'']"
    by (rule filepath_Dir_abs_path [OF plain])
  have e: "me_yaml sample_main = sample_yaml main_config" "me_cwd sample_main = Inr ''/''" by (simp_all add: sample_main_def)
  have y: "yaml_config (sample_yaml c) d = Inr c" "\<exists>raw. yaml_raw (sample_yaml c) d = Inr raw" for c d
    by (simp_all add: sample_yaml_def)
  have ne: "load_failure (Some err_not_exist) = None" by (simp add: load_failure_def os_IsNotExist_def)
  have g: "cf_GeoData (load_defaults d raw c) = cf_GeoData c" "cf_WebUI (load_defaults d raw c) = cf_WebUI c"
    "cf_AutoCert (load_defaults d raw c) = cf_AutoCert c" for d raw c by (simp_all add: load_defaults_def)
  have w: "cf_WebUI main_config = cf_WebUI sample_config" "cf_AutoCert main_config = cf_AutoCert sample_config"
    by (simp_all add: main_config_def)
  have keep: "load_geodata d (cf_GeoData main_config) = cf_GeoData main_config" for d
    by (simp add: load_geodata_def main_config_def sample_config_def resolvePath_def abs_path_def slash_def
        filepath_IsAbs_def strings_HasPrefix_def)
  obtain raw where raw: "yaml_raw (sample_yaml main_config) ''yaml'' = Inr raw" using y(2) by blast
  show ?thesis
    unfolding p e LoadConfig_def abs sum.case Let_def rd y(1) raw dir
    by (simp add: none loadHostsFile_def loadRulesFile_def ne g w keep)
qed

text \<open>The GeoSite database is downloaded, the services start and, but for the DNS server, stop again.\<close>

theorem program_comes_up_and_stops_witness:
  "\<exists>s. snd (main_start sample_main sample_disk) = Waiting s (PlainHTTP '':8080'')
     \<and> m_Router (us_manager s) \<noteq> None \<and> idle (us_manager (main_stop stuck_stop s))
     \<and> blamed {stuck_stop} (us_manager (main_stop stuck_stop s))"
proof -
  obtain cfg where cfg: "LoadConfig (me_yaml sample_main) (me_cwd sample_main) (fs_open sample_disk)
       (GetDefaultConfigPath (me_Getenv sample_main) (me_Stat_ok sample_main)) = (Some cfg, None)"
    and geo: "cf_GeoData cfg = cf_GeoData main_config" "cf_WebUI cfg = cf_WebUI sample_config" "cf_AutoCert cfg = cf_AutoCert sample_config"
    using sample_main_loads by blast
  have paths: "gd_GeoIPDat (cf_GeoData cfg) = abs_path [''etc'', ''geoip.dat'']"
    "gd_GeoSiteDat (cf_GeoData cfg) = abs_path [''srv'', ''geosite.dat'']"
    "gd_GeoSiteDownloadURL (cf_GeoData cfg) = ''https://geo''"
    by (simp_all add: geo main_config_def sample_config_def)
  have sep: "separate_files (cf_GeoData cfg)"
    unfolding separate_files_def paths by (simp add: abs_path_def slash_def)
  have disk: "sample_disk (abs_path [''etc'', ''geoip.dat'']) = Some (''data'', 420)" "sample_disk (abs_path [''srv'', ''geosite.dat'']) = None"
    by (simp_all add: sample_disk_def abs_path_def slash_def)
  have ip: "available (me_stat_err sample_main) (fst (me_downloads sample_main)) (VerifyGeoIP (me_geoip sample_main))
      (gd_GeoIPDat (cf_GeoData cfg)) (gd_GeoIPDownloadURL (cf_GeoData cfg)) sample_disk"
    by (simp add: available_def paths disk VerifyGeoIP_def) (simp add: sample_main_def)
  have cl: "copy_limited (maxDownloadSize + 1) (''data'', None) None = (''data'', None)"
    "length ''data'' \<le> maxDownloadSize"
    by (simp_all add: copy_limited_def maxDownloadSize_def)
  have ok: "snd (DownloadFile (sample_download\<lparr>de_rename := None\<rparr>) (Some (VerifyGeoSite (\<lambda>c. Inr (\<lambda>d. [])))) p fs) = None" for p fs
    using cl by (simp add: DownloadFile_def sample_download_def Let_def VerifyGeoSite_def)
  have site: "available (me_stat_err sample_main) (snd (me_downloads sample_main)) (VerifyGeoSite (me_geosite sample_main))
      (gd_GeoSiteDat (cf_GeoData cfg)) (gd_GeoSiteDownloadURL (cf_GeoData cfg)) sample_disk"
    by (simp add: available_def paths disk shouldDownload_def sample_main_def ok)
  obtain fs1 st where st: "main_start sample_main sample_disk = (fs1, st)" by fastforce
  from program_comes_up_and_stops [OF cfg sep ip site st]
  obtain s m where s: "st = Waiting s (StartWebServer m (me_assets sample_main))" "us_manager s = m"
    "serving (start_answers sample_main fs1) cfg m"
    "\<And>S s' so. so \<in> S \<Longrightarrow> urun S UNIV s s' \<Longrightarrow>
       idle (us_manager (main_stop so s')) \<and> blamed S (us_manager (main_stop so s'))" by blast
  have "idle (us_manager (main_stop stuck_stop s)) \<and> blamed {stuck_stop} (us_manager (main_stop stuck_stop s))"
    by (rule s(4)) simp_all
  moreover have "m_Router m \<noteq> None" using s(3) by (simp add: serving_def)
  moreover have "StartWebServer m True = PlainHTTP '':8080''"
  proof -
    have "m_Config m = cfg" using s(3) by (simp add: serving_def)
    then show ?thesis by (simp add: StartWebServer_def web_address_def CurrentConfig_def Let_def geo) (simp add: sample_config_def)
  qed
  ultimately show ?thesis using st s(1,2) by (simp add: sample_main_def)
qed

end
