(* ===== verification/Spec2Isabelle.thy ===== *)
theory Spec2Isabelle
  imports Go_Prelude Go_Net Go_Files Dns_Msg Race Ecs Upstream QueryLog LogFile LogWriter Config Config_Store Bootstrap
    Geo_Data Router Clients Pool Servers Util Manager Auto_Update Lifecycle Sessions Web_Pages Upstream_Tests Web Main_Program
begin

text \<open>
  A verification development for DNS automatic traffic splitting (\<open>doh-autoproxy\<close>), a DNS proxy
  in Go that answers each query from a domestic (CN) or an overseas group of upstream resolvers.

  \<^bold>\<open>The program.\<close> A server (plain DNS, DoT, DoH or DoQ) hands a query to \<open>Router.Route\<close>, which
  consults the hosts file, the rules, the regular expression rules and the GeoSite database in
  turn; a name none of them knows is asked of both groups and GeoIP decides between the answers.
  A group is asked by a race of its upstream clients (\<open>client.RaceResolve\<close>); a client announces
  the configured client subnet (\<open>ensureECS\<close>), is wrapped in a statistics counter
  (\<open>StatsClient\<close>) and resolves the name of its own server with the bootstrap resolver
  (\<open>resolver.Bootstrapper\<close>). Every routed query is recorded by the query log
  (\<open>querylog.QueryLogger\<close>), in memory and optionally in a file. The configuration
  (\<open>config.Config\<close>) comes from \<open>config.yaml\<close>, \<open>hosts.txt\<close> and \<open>rule.txt\<close> and is written back by
  the web interface. The service manager starts, stops and reloads all of it and keeps the
  databases up to date; the main program starts the manager and the web interface.

  \<^bold>\<open>The theories: foundations.\<close>
  \<^item> \<open>Go_Prelude\<close>: Go's integers, errors, maps and the functions of its \<open>strings\<close> package, with the
    lemmas the components share. A result \<open>(T, error)\<close> is a pair of options, so that \<open>(nil, nil)\<close>
    can be expressed. The locale \<open>step_system\<close> carries an invariant from the initial states of a
    step relation to all reachable ones; every step relation below interprets it.
  \<^item> \<open>Go_Net\<close>, \<open>Go_Files\<close>: what is used of \<open>net\<close> (host and port, IP addresses and masks), and of
    \<open>os\<close>, \<open>bufio\<close> and \<open>path/filepath\<close> (opened files, line scanning with its length limit, lexical
    paths).
  \<^item> \<open>Dns_Msg\<close>: DNS messages. The functions of \<open>github.com/miekg/dns\<close> are the parameter
    \<open>dns_lib\<close> of the definitions that call them; the predicates \<open>edns0_documented\<close>,
    \<open>reply_documented\<close> and \<open>labels_documented\<close> state the documented behaviour a theorem relies on,
    and \<open>sample_lib\<close> is a concrete library that has it.

  \<^bold>\<open>Resolving.\<close>
  \<^item> \<open>Race\<close> (\<open>internal/client/resolver.go\<close>): \<open>RaceResolve\<close> as a function of the upstreams' results
    and of a list of events (arrivals in some order, the end of the caller's context; the end of
    the list is the five second timer), an abstract specification of a race and the refinement.
  \<^item> \<open>Ecs\<close> (\<open>client.go\<close>, \<open>ecs.go\<close>): setting, extracting and printing the client subnet option.
  \<^item> \<open>Upstream\<close> (\<open>client.go\<close>, \<open>stats.go\<close>): the client of a protocol and the statistics wrapper.
  \<^item> \<open>Clients\<close> (\<open>udp.go\<close>, \<open>tcp.go\<close>, \<open>dot.go\<close>, \<open>doh.go\<close>, \<open>doq.go\<close>): addresses, framing, one exchange
    of each protocol, and the shared HTTP/3 transport.
  \<^item> \<open>Pool\<close> (\<open>tcp.go\<close>, \<open>dot.go\<close>): the connection pool as the step relation \<open>pstep\<close>: borrowing a slot,
    the exchange with its retry, the deferred return and \<open>Close\<close> interleave freely.
  \<^item> \<open>Bootstrap\<close> (\<open>internal/resolver/bootstrap.go\<close>): server parsing, rotation with its 64 bit
    counter, and the cache with merged lookups as the step relation \<open>bstep\<close>: a step is one atomic
    operation on a shared map or one observation of a channel.
  \<^item> \<open>Geo_Data\<close>, \<open>Router\<close> (\<open>internal/router\<close>): classification, the dual query, service binding
    compatibility, negative answers, logging. Regular expressions, the databases and the clients
    are parameters; the routing policy \<open>documented_decision\<close>, a list of policies over the candidate
    names, is what \<open>routeInternal\<close> refines.

  \<^bold>\<open>Recording.\<close>
  \<^item> \<open>QueryLog\<close> (\<open>internal/querylog/querylog.go\<close>): ring buffer, counters, totals, sliding window,
    paging and searching. Its interfaces are the locales \<open>occurrence_counter\<close> (a counter map
    stands for a multiset of keys) and \<open>bounded_history\<close> (adding keeps the newest entries),
    interpreted on the code's own operations.
  \<^item> \<open>LogFile\<close>: appending with pruning, restoring the totals and reading backwards in chunks.
  \<^item> \<open>LogWriter\<close>: calls of \<open>AddLog\<close>, the queue, the writer goroutine and \<open>Close\<close> as the step
    relation \<open>wstep\<close>.

  \<^bold>\<open>Configuration and files.\<close>
  \<^item> \<open>Config\<close>, \<open>Config_Store\<close> (\<open>internal/config/config.go\<close>): the types, the normalisation of listen
    addresses, loading with defaults, saving, and the atomic replacement of a file as the list of
    file systems it passes through. The locale \<open>line_codec\<close> relates a writer and a reader of lines
    and is interpreted for the hosts and the rules file; YAML is the parameter \<open>yaml_lib\<close>.
  \<^item> \<open>Util\<close> (\<open>internal/util\<close>): downloads with validation, ports and certificates. The locale
    \<open>atomic_replacement\<close> (any crashing run leaves the old content or a good one) is interpreted for
    downloads and for the writes of the configuration.
\<close>

text \<open>
  \<^bold>\<open>Serving and administration.\<close>
  \<^item> \<open>Servers\<close> (\<open>internal/server\<close>): the request handlers of the four protocols, from what is read to
    what is written, over the router as a parameter and composed with the model of it.
  \<^item> \<open>Lifecycle\<close> (\<open>internal/server\<close>): \<open>Start\<close> and \<open>Stop\<close> of the listeners. The goroutines of the DoH
    and DoQ servers are the step relations \<open>dstep\<close> and \<open>qstep\<close>, in which \<open>Stop\<close> interleaves with
    binding, serving, closing and the wait group. The \<open>Shutdown\<close> of plain DNS and DoT is the
    library's and a parameter; so is the UDP socket of DoQ, which is not modelled.
  \<^item> \<open>Manager\<close> (\<open>internal/manager/manager.go\<close>): which servers a configuration asks for, starting,
    stopping, reloading with rollback. The locale \<open>server_slot\<close> states what a field for a server
    must satisfy and is interpreted for the five fields. What is recorded of a server is that it
    has been launched and not stopped, and whether its \<open>Stop\<close> has reported an error; whether its
    goroutines succeed in binding their ports is not (a failure is only logged by the code).
  \<^item> \<open>Auto_Update\<close>: the downloads and the update goroutine, as the step relation \<open>ustep\<close> with \<open>Start\<close>,
    \<open>Stop\<close>, \<open>Reload\<close> and the clock.
  \<^item> \<open>Sessions\<close>, \<open>Web_Pages\<close>, \<open>Upstream_Tests\<close>, \<open>Web\<close> (\<open>internal/web/server.go\<close>): the session map
    against the history of logins and logouts; page numbers, slices and the largest counters; the
    goroutines that test the upstreams, with their mutex and wait group, as the step relation
    \<open>tests_step\<close>; every handler as a function of the request and of the sessions, the manager and
    the files.
  \<^item> \<open>Main_Program\<close> (\<open>cmd/doh-autoproxy/main.go\<close>): from loading the configuration to the wait for a
    signal, and \<open>Stop\<close>; here the databases are loaded from the files that the downloads left.

  \<^bold>\<open>The lemmas.\<close> Safety: a routed query and a race end with exactly one of response and error; a
  rule confines a query to its group; files are replaced atomically; a pipelined call gets the
  answer to its own query; a request without a session changes nothing; a stopped DoH server
  holds no port, and a stopped manager no server, router or log (what can still be listening is a
  server whose \<open>Stop\<close> reported an error). Functional behaviour: the choice between the groups;
  the routing policy; negative TTLs and NODATA synthesis; when an update is due; rotation over
  bootstrap servers; one reply per request; a posted host is served. Refinement and equivalence:
  race, policy, ring buffer, log file, reading backwards, rate, sessions, GET and POST. Round trips:
  saving and loading a configuration, editing it in the browser, DoQ from client to server.
  Invariants over all interleavings: counters, slots and connections, log entries, flights, the
  provenance of bootstrap answers, the resources of the manager. Liveness and termination: a
  waiting call can be served, a waiting \<open>Stop\<close> can return, the test of the upstreams ends, the
  program comes up when its databases are at hand. Each theory ends with observations: lemmas about
  behaviour that the code presumably does not intend.

  \<^bold>\<open>Bounds.\<close> There is no fuel: loops are structural recursions or have a measure. \<open>int\<close> and
  \<open>int64\<close> arithmetic is written out with \<open>i64\<close>; theorems about counters assume fewer than \<open>2 ^ 63\<close>
  (statistics: \<open>2 ^ 62\<close>) events. Strings are byte strings; case folding and white space are
  modelled on their ASCII part. Step relations have no bound on calls, goroutines or time.

  \<^bold>\<open>Not modelled.\<close> Third party code: the databases, YAML, JSON, TLS, HTTP, QUIC, DNS wire formats and
  autocert, which are parameters. Of the program: the text of log messages, the timeouts of
  connections, failures of binding a port (they are logged) and of writing a reply, a read error in
  the middle of the log file, the cleaning of paths by the HTTP mux and its headers against
  caching, runtime statistics, the HTML page and the installation script.
\<close>

end
